(* ===== verification/Prelude.thy ===== *)
theory Prelude
  imports "HOL-Library.Word" "HOL-Library.List_Lexorder" "HOL-Library.Sublist"
begin

text \<open>
  Shared ground of the honeybadger development: the machine types of the Go sources
  (bytes, \<open>uint64\<close>, durations and points in time), the conversions between Go strings
  and byte slices, decimal printing, Go's error values with \<open>errors.Is\<close>, and the
  collections of rewrite rules the component theories feed.
\<close>

named_theorems guard_simps \<open>what each API guard returns, one rule per branch\<close>
named_theorems frame_simps \<open>fields an operation leaves unchanged\<close>

section \<open>Machine types\<close>

type_synonym byte = "8 word"
type_synonym bytes = "byte list"
type_synonym uint64 = "64 word"

text \<open>
  \<open>time.Duration\<close> counts nanoseconds, \<open>time.Time\<close> is the number of nanoseconds since the
  Unix epoch (Go keeps it as 64-bit seconds and nanoseconds, which no addition here
  overflows), and \<open>Time.Unix\<close> is the floor of its seconds.
\<close>

type_synonym duration = int
type_synonym time = int

abbreviation second :: duration where "second \<equiv> 1000000000"
abbreviation millisecond :: duration where "millisecond \<equiv> 1000000"

definition unix_seconds :: "time \<Rightarrow> int" where
  "unix_seconds t = t div second"

lemma unix_seconds_mono: "s \<le> t \<Longrightarrow> unix_seconds s \<le> unix_seconds t"
  by (simp add: unix_seconds_def zdiv_mono1)

section \<open>Strings and byte slices\<close>

definition bytes_of :: "string \<Rightarrow> bytes" where
  "bytes_of s = map (\<lambda>c. word_of_nat (of_char c)) s"

definition string_of :: "bytes \<Rightarrow> string" where
  "string_of b = map (\<lambda>w. char_of (unat w)) b"

lemma of_char_less: "(of_char c :: nat) < 256"
  by simp

lemma string_of_bytes_of [simp]: "string_of (bytes_of s) = s"
  by (induction s) (simp_all add: string_of_def bytes_of_def unat_of_nat)

lemma bytes_of_string_of [simp]: "bytes_of (string_of b) = b"
proof (induction b)
  case Nil
  then show ?case by (simp add: string_of_def bytes_of_def)
next
  case (Cons w b)
  have "unat w < 2 ^ LENGTH(8)"
    by (rule unsigned_less)
  then show ?case
    using Cons by (simp add: string_of_def bytes_of_def)
qed

lemma bytes_of_Nil_iff [simp]: "bytes_of s = [] \<longleftrightarrow> s = []"
  by (simp add: bytes_of_def)

lemma bytes_of_inj: "bytes_of s = bytes_of t \<longleftrightarrow> s = t"
  by (metis string_of_bytes_of)

section \<open>Decimal numbers\<close>

text \<open>\<open>%d\<close> of an unsigned number, and \<open>strconv.FormatUint(n, 10)\<close>.\<close>

fun show_nat :: "nat \<Rightarrow> string" where
  "show_nat n =
     (if n < 10 then [char_of (48 + n)] else show_nat (n div 10) @ [char_of (48 + n mod 10)])"

declare show_nat.simps [simp del]

fun read_nat :: "nat \<Rightarrow> string \<Rightarrow> nat" where
  "read_nat acc [] = acc"
| "read_nat acc (c # cs) = read_nat (10 * acc + (of_char c - 48)) cs"

lemma read_nat_append: "read_nat acc (xs @ ys) = read_nat (read_nat acc xs) ys"
  by (induction xs arbitrary: acc) simp_all

lemma read_show_nat: "read_nat 0 (show_nat n) = n"
proof (induction n rule: show_nat.induct)
  case (1 n)
  show ?case
  proof (cases "n < 10")
    case True
    then show ?thesis by (simp add: show_nat.simps [of n])
  next
    case False
    have "n mod 10 < 10" by simp
    then have "(48 + n mod 10) mod 256 - 48 = n mod 10" by simp
    with False "1" show ?thesis
      by (simp add: show_nat.simps [of n] read_nat_append)
  qed
qed

lemma show_nat_inj: "show_nat m = show_nat n \<longleftrightarrow> m = n"
  by (metis read_show_nat)

section \<open>Go errors\<close>

text \<open>
  Sentinel values: the five of \<open>types.go\<close>, and those of the dependencies and of the
  standard library that the sources compare against.
\<close>

datatype sentinel =
    ErrKeyNotFound | ErrNotLeader | ErrClosed | ErrNoLeader | ErrInvalidArgument
  | Raft_ErrNotLeader | Raft_ErrCantBootstrap | Badger_ErrKeyNotFound | IO_EOF

text \<open>The operands of a format call, kept as values rather than rendered.\<close>

datatype fmt_arg = FInt int | FStr string | FBytes bytes | FDur duration

text \<open>
  An error value: a sentinel, a \<open>*NotLeaderError\<close> (leader ID and address), the result of
  \<open>fmt.Errorf\<close> with one \<open>%w\<close> operand (format, other operands, wrapped error), the result
  of \<open>errors.New\<close> or an unwrapped dependency error, of \<open>fmt.Errorf\<close> without \<open>%w\<close>, and
  \<open>errors.Join\<close>.
\<close>

datatype gerror =
    Sentinel sentinel
  | NotLeaderError (LeaderID: string) (LeaderAddr: string)
  | Errorf string "fmt_arg list" gerror
  | Plain string
  | Formatted string "fmt_arg list"
  | Joined "gerror list"

text \<open>\<open>errors.Is\<close>: walk the \<open>Unwrap\<close> chain (a tree at a join).\<close>

fun errors_is :: "gerror \<Rightarrow> sentinel \<Rightarrow> bool" where
  "errors_is (Sentinel s') s = (s' = s)"
| "errors_is (NotLeaderError i a) s = (s = ErrNotLeader)"
| "errors_is (Errorf f as e) s = errors_is e s"
| "errors_is (Plain m) s = False"
| "errors_is (Formatted f as) s = False"
| "errors_is (Joined es) s = list_ex (\<lambda>e. errors_is e s) es"

text \<open>\<open>errors.As\<close> with a \<open>**NotLeaderError\<close> target: the first one on the chain.\<close>

fun errors_as_NotLeader :: "gerror \<Rightarrow> (string \<times> string) option" where
  "errors_as_NotLeader (NotLeaderError i a) = Some (i, a)"
| "errors_as_NotLeader (Errorf f as e) = errors_as_NotLeader e"
| "errors_as_NotLeader (Joined es) =
     (case find (\<lambda>x. x \<noteq> None) (map errors_as_NotLeader es) of None \<Rightarrow> None | Some x \<Rightarrow> x)"
| "errors_as_NotLeader _ = None"

text \<open>\<open>errors.Join\<close> drops nil errors and is nil when nothing is left.\<close>

definition errors_Join :: "gerror option list \<Rightarrow> gerror option" where
  "errors_Join es =
     (case List.map_filter (\<lambda>e. e) es of [] \<Rightarrow> None | es' \<Rightarrow> Some (Joined es'))"

lemma errors_Join_None_iff: "errors_Join es = None \<longleftrightarrow> (\<forall>e \<in> set es. e = None)"
  by (induction es) (auto simp: errors_Join_def map_filter_simps split: list.splits option.splits)

section \<open>Results\<close>

text \<open>A pair \<open>(T, error)\<close> is a sum (\<open>Inl\<close> the error); a lone \<open>error\<close> is an option.\<close>

fun err_of :: "gerror + 'a \<Rightarrow> gerror option" where
  "err_of (Inl e) = Some e"
| "err_of (Inr _) = None"

fun of_err :: "gerror option \<Rightarrow> gerror + unit" where
  "of_err None = Inr ()"
| "of_err (Some e) = Inl e"

lemma err_of_of_err [simp]: "err_of (of_err e) = e"
  by (cases e) simp_all

lemma err_of_None_iff: "err_of r = None \<longleftrightarrow> (\<exists>x. r = Inr x)"
  by (cases r) simp_all

lemma err_of_Some_iff: "err_of r = Some e \<longleftrightarrow> r = Inl e"
  by (cases r) simp_all

section \<open>Lists\<close>

lemma distinct_fst_map_of_Some:
  "distinct (map fst xs) \<Longrightarrow> (k, v) \<in> set xs \<Longrightarrow> map_of xs k = Some v"
  by simp

lemma takeWhile_prefix_take:
  "take n (takeWhile P xs) = takeWhile P (take n xs)"
  by (induction xs arbitrary: n) (auto simp: take_Cons split: nat.splits)

end
