(* ===== verification/Types.thy ===== *)
theory Types
  imports Prelude
begin

text \<open>
  The exported value types of \<open>types.go\<close>: node roles, nodes, Raft states, status and scan
  entries, the rendering of roles and states, and the message of a \<open>NotLeaderError\<close>; with
  the two translations from Raft's enumerations (\<open>stateFromRaft\<close> in \<open>types.go\<close>,
  \<open>roleFromRaft\<close> in \<open>cluster.go\<close>).
  Go's enumerations over \<open>uint8\<close> are open: any of the 256 values can be written, so they
  are bytes here, with the declared values as constants.
\<close>

section \<open>Roles\<close>

type_synonym NodeRole = byte

definition RoleNone :: NodeRole where "RoleNone = 0"
definition RoleVoter :: NodeRole where "RoleVoter = 1"
definition RoleNonvoter :: NodeRole where "RoleNonvoter = 2"
definition RoleStaging :: NodeRole where "RoleStaging = 3"

lemmas role_defs = RoleNone_def RoleVoter_def RoleNonvoter_def RoleStaging_def

definition NodeRole_String :: "NodeRole \<Rightarrow> string" where
  "NodeRole_String r =
     (if r = RoleNone then ''None''
      else if r = RoleVoter then ''Voter''
      else if r = RoleNonvoter then ''Nonvoter''
      else if r = RoleStaging then ''Staging''
      else ''NodeRole('' @ show_nat (unat r) @ '')'')"

section \<open>Nodes\<close>

record Node =
  node_ID :: string
  node_RaftAddr :: string
  node_Role :: NodeRole

definition Node_zero :: Node where
  "Node_zero = \<lparr>node_ID = [], node_RaftAddr = [], node_Role = RoleNone\<rparr>"

section \<open>Raft lifecycle states\<close>

type_synonym State = byte

definition StateFollower :: State where "StateFollower = 0"
definition StateCandidate :: State where "StateCandidate = 1"
definition StateLeader :: State where "StateLeader = 2"
definition StateShutdown :: State where "StateShutdown = 3"

lemmas state_defs = StateFollower_def StateCandidate_def StateLeader_def StateShutdown_def

definition State_String :: "State \<Rightarrow> string" where
  "State_String s =
     (if s = StateFollower then ''Follower''
      else if s = StateCandidate then ''Candidate''
      else if s = StateLeader then ''Leader''
      else if s = StateShutdown then ''Shutdown''
      else ''State('' @ show_nat (unat s) @ '')'')"

text \<open>
  \<open>raft.RaftState\<close> and \<open>raft.ServerSuffrage\<close> as the sources compare them: the named
  values, and any other.
\<close>

datatype raft_state = RS_Follower | RS_Candidate | RS_Leader | RS_Shutdown | RS_Other nat

datatype raft_suffrage = RV_Voter | RV_Nonvoter | RV_Staging | RV_Other nat

fun stateFromRaft :: "raft_state \<Rightarrow> State" where
  "stateFromRaft RS_Candidate = StateCandidate"
| "stateFromRaft RS_Leader = StateLeader"
| "stateFromRaft RS_Shutdown = StateShutdown"
| "stateFromRaft _ = StateFollower"

fun roleFromRaft :: "raft_suffrage \<Rightarrow> NodeRole" where
  "roleFromRaft RV_Voter = RoleVoter"
| "roleFromRaft RV_Nonvoter = RoleNonvoter"
| "roleFromRaft RV_Staging = RoleStaging"
| "roleFromRaft _ = RoleNone"

lemma stateFromRaft_Leader_iff: "stateFromRaft s = StateLeader \<longleftrightarrow> s = RS_Leader"
  by (cases s) (simp_all add: state_defs)

lemma roleFromRaft_Voter_iff: "roleFromRaft v = RoleVoter \<longleftrightarrow> v = RV_Voter"
  by (cases v) (simp_all add: role_defs)

section \<open>Status and scan entries\<close>

record Status =
  st_Local :: Node
  st_State :: State
  st_Leader :: "Node option"
  st_AppliedIndex :: uint64

record Entry =
  entry_Key :: bytes
  entry_Value :: bytes

section \<open>Error messages\<close>

definition ErrNotLeader_text :: string where
  "ErrNotLeader_text = ''honeybadger: not the leader''"

text \<open>The method \<open>NotLeaderError.Error\<close>: with an ID but no address it names neither.\<close>

definition NotLeaderError_Error :: "string \<Rightarrow> string \<Rightarrow> string" where
  "NotLeaderError_Error leaderID leaderAddr =
     (if leaderID \<noteq> [] \<and> leaderAddr \<noteq> [] then
        ErrNotLeader_text @ '' (leader '' @ leaderID @ '' at '' @ leaderAddr @ '')''
      else if leaderAddr \<noteq> [] then
        ErrNotLeader_text @ '' (leader at '' @ leaderAddr @ '')''
      else ErrNotLeader_text)"

section \<open>Renderings are unambiguous\<close>

text \<open>
  An unknown value prints its number between brackets, so two different roles, or states,
  never print alike.
\<close>

lemma unknown_String_inj:
  "pre @ show_nat (unat (r::byte)) @ '')'' = pre @ show_nat (unat s) @ '')'' \<longleftrightarrow> r = s"
  by (simp add: show_nat_inj word_unat_eq_iff)

lemma NodeRole_String_inj: "NodeRole_String r = NodeRole_String s \<Longrightarrow> r = s"
  unfolding NodeRole_String_def
  by (auto simp: show_nat_inj role_defs word_unat_eq_iff split: if_splits)

lemma State_String_inj: "State_String r = State_String s \<Longrightarrow> r = s"
  unfolding State_String_def
  by (auto simp: show_nat_inj state_defs word_unat_eq_iff split: if_splits)

end
