(* ===== verification/Options.thy ===== *)
theory Options
  imports Types
begin

text \<open>
  \<open>options.go\<close> and \<open>absExpiry\<close> of \<open>write.go\<close>: the sealed option values, batch mutations,
  read modes and options, scan limits, and the conversion of a relative TTL into the
  absolute expiry a command carries. \<open>time.Now()\<close> is an argument.
\<close>

section \<open>Set options and absolute expiry\<close>

text \<open>
  A \<open>SetOption\<close> is the value \<open>WithTTL\<close> returns, or something else that reached the
  interface (a nil), known by its type name.
\<close>

datatype SetOption = TtlOption duration | UnknownSetOption string

definition WithTTL :: "duration \<Rightarrow> SetOption" where
  "WithTTL ttl = TtlOption ttl"

definition absExpiry :: "time \<Rightarrow> duration \<Rightarrow> uint64" where
  "absExpiry now ttl = (if ttl = 0 then 0 else word_of_int (unix_seconds (now + ttl)))"

text \<open>The loop over the options: the last TTL wins, an unknown option is an error.\<close>

fun scanSetOptions :: "duration \<Rightarrow> bool \<Rightarrow> SetOption list \<Rightarrow> gerror + (duration \<times> bool)" where
  "scanSetOptions ttl hasTTL [] = Inr (ttl, hasTTL)"
| "scanSetOptions ttl hasTTL (TtlOption d # os) = scanSetOptions d True os"
| "scanSetOptions ttl hasTTL (UnknownSetOption ty # os) =
     Inl (Errorf ''%w: unknown set option %T'' [FStr ty] (Sentinel ErrInvalidArgument))"

definition resolveSetOptions :: "time \<Rightarrow> SetOption list \<Rightarrow> gerror + uint64" where
  "resolveSetOptions now opts =
     (case scanSetOptions 0 False opts of
        Inl e \<Rightarrow> Inl e
      | Inr (ttl, hasTTL) \<Rightarrow>
          if \<not> hasTTL then Inr 0
          else if ttl \<le> 0 then
            Inl (Errorf ''%w: option WithTTL requires a positive TTL, got %s'' [FDur ttl]
                   (Sentinel ErrInvalidArgument))
          else Inr (absExpiry now ttl))"

section \<open>Batch mutations\<close>

text \<open>
  \<open>mutKind\<close> starts at 1, so the zero \<open>Mutation\<close> has a kind that is neither. The
  constructors that take byte slices clone them; values are immutable here, so a clone is
  the value itself.
\<close>

type_synonym mutKind = byte

definition mutSet :: mutKind where "mutSet = 1"
definition mutDelete :: mutKind where "mutDelete = 2"

record Mutation =
  mut_kind :: mutKind
  mut_key :: bytes
  mut_value :: bytes
  mut_opts :: "SetOption list"

definition Mutation_zero :: Mutation where
  "Mutation_zero = \<lparr>mut_kind = 0, mut_key = [], mut_value = [], mut_opts = []\<rparr>"

definition SetOp :: "string \<Rightarrow> string \<Rightarrow> SetOption list \<Rightarrow> Mutation" where
  "SetOp key value opts =
     \<lparr>mut_kind = mutSet, mut_key = bytes_of key, mut_value = bytes_of value, mut_opts = opts\<rparr>"

definition SetBytesOp :: "bytes \<Rightarrow> bytes \<Rightarrow> SetOption list \<Rightarrow> Mutation" where
  "SetBytesOp key value opts =
     \<lparr>mut_kind = mutSet, mut_key = key, mut_value = value, mut_opts = opts\<rparr>"

definition DeleteOp :: "string \<Rightarrow> Mutation" where
  "DeleteOp key = \<lparr>mut_kind = mutDelete, mut_key = bytes_of key, mut_value = [], mut_opts = []\<rparr>"

definition DeleteBytesOp :: "bytes \<Rightarrow> Mutation" where
  "DeleteBytesOp key = \<lparr>mut_kind = mutDelete, mut_key = key, mut_value = [], mut_opts = []\<rparr>"

section \<open>Read modes and options\<close>

type_synonym ReadMode = byte

definition ReadLinearizable :: ReadMode where "ReadLinearizable = 0"
definition ReadLocal :: ReadMode where "ReadLocal = 1"

lemmas mode_defs = ReadLinearizable_def ReadLocal_def

definition ReadMode_String :: "ReadMode \<Rightarrow> string" where
  "ReadMode_String m =
     (if m = ReadLinearizable then ''Linearizable''
      else if m = ReadLocal then ''Local''
      else ''ReadMode('' @ show_nat (unat m) @ '')'')"

record ReadOptions =
  ro_Mode :: ReadMode
  ro_Timeout :: duration

definition ReadOptions_zero :: ReadOptions where
  "ReadOptions_zero = \<lparr>ro_Mode = ReadLinearizable, ro_Timeout = 0\<rparr>"

definition timeoutOr :: "ReadOptions \<Rightarrow> duration \<Rightarrow> duration" where
  "timeoutOr ro def = (if ro_Timeout ro > 0 then ro_Timeout ro else def)"

section \<open>Scan options\<close>

definition defaultScanLimit :: int where "defaultScanLimit = 100"

record ScanOptions =
  so_Read :: ReadOptions
  so_Limit :: int
  so_Unlimited :: bool

definition resolveLimit :: "ScanOptions \<Rightarrow> gerror + int" where
  "resolveLimit so =
     (if so_Limit so < 0 then
        Inl (Errorf ''%w: negative scan limit %d; use 0 for the default of %d or Unlimited: true''
               [FInt (so_Limit so), FInt defaultScanLimit] (Sentinel ErrInvalidArgument))
      else if so_Unlimited so then Inr 0
      else if so_Limit so = 0 then Inr defaultScanLimit
      else Inr (so_Limit so))"

section \<open>Lemmas\<close>

lemma scanSetOptions_Inl:
  "scanSetOptions ttl h opts = Inl e \<Longrightarrow> errors_is e ErrInvalidArgument"
  by (induction ttl h opts rule: scanSetOptions.induct) auto

lemma scanSetOptions_bad:
  "\<not> (\<forall>o' \<in> set opts. \<exists>d. o' = TtlOption d) \<Longrightarrow> \<exists>e. scanSetOptions ttl h opts = Inl e"
  by (induction ttl h opts rule: scanSetOptions.induct) auto

lemma scanSetOptions_last:
  "\<forall>o' \<in> set opts. \<exists>d. o' = TtlOption d \<Longrightarrow> opts \<noteq> [] \<Longrightarrow> last opts = TtlOption d \<Longrightarrow>
     scanSetOptions ttl h opts = Inr (d, True)"
proof (induction ttl h opts rule: scanSetOptions.induct)
  case (2 ttl h x os)
  then show ?case by (cases "os = []") auto
qed auto

text \<open>
  What the option resolution returns: no option means no expiry; otherwise every option
  must be a TTL, the last one counts and must be positive.
\<close>

lemma resolveSetOptions_Nil [simp]: "resolveSetOptions now [] = Inr 0"
  by (simp add: resolveSetOptions_def)

lemma resolveSetOptions_Inl:
  "resolveSetOptions now opts = Inl e \<Longrightarrow> errors_is e ErrInvalidArgument"
  by (auto simp: resolveSetOptions_def split: sum.splits prod.splits if_splits
      dest: scanSetOptions_Inl)

lemma resolveSetOptions_Inr_iff:
  "opts \<noteq> [] \<Longrightarrow> resolveSetOptions now opts = Inr x \<longleftrightarrow>
     (\<forall>o' \<in> set opts. \<exists>d. o' = TtlOption d) \<and>
     (\<exists>d. last opts = TtlOption d \<and> 0 < d \<and> x = absExpiry now d)"
proof (cases "\<forall>o' \<in> set opts. \<exists>d. o' = TtlOption d")
  case True
  assume ne: "opts \<noteq> []"
  with True obtain d where "last opts = TtlOption d" by (meson last_in_set)
  with True ne scanSetOptions_last [OF True ne this, of 0 False] show ?thesis
    by (auto simp: resolveSetOptions_def)
next
  case False
  with scanSetOptions_bad [OF False, of 0 False] show ?thesis
    by (auto simp: resolveSetOptions_def)
qed

lemma resolveSetOptions_WithTTL:
  "resolveSetOptions now [WithTTL d] =
     (if d \<le> 0 then Inl (Errorf ''%w: option WithTTL requires a positive TTL, got %s'' [FDur d]
                          (Sentinel ErrInvalidArgument))
      else Inr (absExpiry now d))"
  by (simp add: resolveSetOptions_def WithTTL_def)

text \<open>
  The stamped expiry against the requested one, for clock readings from 1970 until the
  seconds overflow 64 bits: it is at most the true instant and less than a second early.
\<close>

lemma uint_absExpiry:
  assumes "ttl \<noteq> 0" and "0 \<le> now + ttl" and "unix_seconds (now + ttl) < 2 ^ 64"
  shows "uint (absExpiry now ttl) = unix_seconds (now + ttl)"
proof -
  have "0 \<le> unix_seconds (now + ttl)"
    using assms(2) by (simp add: unix_seconds_def pos_imp_zdiv_nonneg_iff)
  with assms show ?thesis
    by (simp add: absExpiry_def uint_word_of_int)
qed

lemma resolveLimit_cases:
  obtains (negative) e where "so_Limit so < 0" "resolveLimit so = Inl e" "errors_is e ErrInvalidArgument"
  | (unlimited) "0 \<le> so_Limit so" "so_Unlimited so" "resolveLimit so = Inr 0"
  | (default) "so_Limit so = 0" "\<not> so_Unlimited so" "resolveLimit so = Inr defaultScanLimit"
  | (explicit) "0 < so_Limit so" "\<not> so_Unlimited so" "resolveLimit so = Inr (so_Limit so)"
  by (cases "so_Limit so < 0"; cases "so_Unlimited so"; cases "so_Limit so = 0")
    (auto simp: resolveLimit_def)

end
