(* ===== verification/Config.thy ===== *)
theory Config
  imports Options
begin

text \<open>
  \<open>config.go\<close> and the configuration half of \<open>db.go\<close>: the \<open>Config\<close> struct and its
  defaults, the validation \<open>Open\<close> performs, the parsing of open options, the choice of the
  advertised address and of the Badger options, and the two directories derived from
  \<open>DataDir\<close>. \<open>filepath.Join\<close> is modelled (Unix separators), since the restore path relies
  on where the directories lie; \<open>badger.DefaultOptions\<close> and \<open>net.ResolveTCPAddr\<close> are
  arguments.
\<close>

section \<open>Paths\<close>

type_synonym path = string

abbreviation slash :: char where "slash \<equiv> CHR ''/''"

fun path_split :: "path \<Rightarrow> string list" where
  "path_split [] = [[]]"
| "path_split (c # cs) =
     (if c = slash then [] # path_split cs
      else (case path_split cs of [] \<Rightarrow> [[c]] | x # xs \<Rightarrow> (c # x) # xs))"

text \<open>
  \<open>filepath.Clean\<close>, with the kept elements newest first: empty and \<open>.\<close> elements vanish,
  \<open>..\<close> removes the element before it, and is kept only at the front of a relative path.
\<close>

definition clean_step :: "bool \<Rightarrow> string list \<Rightarrow> string \<Rightarrow> string list" where
  "clean_step rooted acc c =
     (if c = [] \<or> c = ''.'' then acc
      else if c = ''..'' then
        (case acc of
           [] \<Rightarrow> if rooted then [] else [''..'']
         | x # xs \<Rightarrow> if x = ''..'' then ''..'' # acc else xs)
      else c # acc)"

fun path_join :: "string list \<Rightarrow> path" where
  "path_join [] = []"
| "path_join [c] = c"
| "path_join (c # cs) = c @ slash # path_join cs"

definition is_rooted :: "path \<Rightarrow> bool" where
  "is_rooted p = (case p of [] \<Rightarrow> False | c # _ \<Rightarrow> c = slash)"

definition filepath_Clean :: "path \<Rightarrow> path" where
  "filepath_Clean p =
     (if p = [] then ''.''
      else
        let body = path_join (rev (foldl (clean_step (is_rooted p)) [] (path_split p)))
        in if is_rooted p then slash # body else if body = [] then ''.'' else body)"

definition filepath_Join :: "path \<Rightarrow> path \<Rightarrow> path" where
  "filepath_Join a b =
     (if a \<noteq> [] then filepath_Clean (a @ slash # b)
      else if b \<noteq> [] then filepath_Clean b else [])"

section \<open>Configuration\<close>

text \<open>
  \<open>badger.Options\<close>: the two fields the sources read or write, and the rest as the
  parameter type. A writer is \<open>io.Discard\<close> or one the caller supplied.
\<close>

record 'o badger_options =
  opt_Dir :: path
  opt_ValueDir :: path
  opt_rest :: 'o

datatype writer = Discard | Writer nat

record 'o AdvancedConfig =
  adv_ApplyTimeout :: duration
  adv_SnapshotThreshold :: uint64
  adv_RaftAdvertise :: string
  adv_BadgerOptions :: "'o badger_options option"
  adv_LogOutput :: "writer option"

record 'o Config =
  cfg_NodeID :: string
  cfg_RaftBind :: string
  cfg_DataDir :: path
  cfg_Advanced :: "'o AdvancedConfig"

definition defaultApplyTimeout :: duration where "defaultApplyTimeout = 10 * second"
definition defaultSnapshotThreshold :: uint64 where "defaultSnapshotThreshold = 8192"
definition newClusterLeaderTimeout :: duration where "newClusterLeaderTimeout = 30 * second"

definition setDefaults :: "'o Config \<Rightarrow> 'o Config" where
  "setDefaults c =
     (let a = cfg_Advanced c;
          a = (if adv_ApplyTimeout a \<le> 0 then a\<lparr>adv_ApplyTimeout := defaultApplyTimeout\<rparr> else a);
          a = (if adv_SnapshotThreshold a = 0
               then a\<lparr>adv_SnapshotThreshold := defaultSnapshotThreshold\<rparr> else a);
          a = (if adv_LogOutput a = None then a\<lparr>adv_LogOutput := Some Discard\<rparr> else a)
      in c\<lparr>cfg_Advanced := a\<rparr>)"

definition validateConfig :: "'o Config \<Rightarrow> gerror option" where
  "validateConfig c =
     (if cfg_NodeID c = [] then Some (Plain ''honeybadger: missing required Config.NodeID'')
      else if cfg_RaftBind c = [] then Some (Plain ''honeybadger: missing required Config.RaftBind'')
      else if cfg_DataDir c = [] then Some (Plain ''honeybadger: missing required Config.DataDir'')
      else None)"

text \<open>Open options: the value of \<open>NewCluster()\<close>, or something else with its type name.\<close>

datatype OpenOption = NewClusterOption | UnknownOpenOption string

definition NewCluster :: OpenOption where "NewCluster = NewClusterOption"

fun parseOpenOptions_from :: "bool \<Rightarrow> OpenOption list \<Rightarrow> gerror + bool" where
  "parseOpenOptions_from newCluster [] = Inr newCluster"
| "parseOpenOptions_from newCluster (NewClusterOption # os) =
     (if newCluster then
        Inl (Errorf ''%w: option NewCluster passed more than once'' [] (Sentinel ErrInvalidArgument))
      else parseOpenOptions_from True os)"
| "parseOpenOptions_from newCluster (UnknownOpenOption ty # os) =
     Inl (Errorf ''%w: unknown open option %T'' [FStr ty] (Sentinel ErrInvalidArgument))"

definition parseOpenOptions :: "OpenOption list \<Rightarrow> gerror + bool" where
  "parseOpenOptions options = parseOpenOptions_from False options"

definition resolveAdvertise ::
    "(string \<Rightarrow> gerror + 'addr) \<Rightarrow> 'o Config \<Rightarrow> gerror + 'addr option" where
  "resolveAdvertise resolveTCPAddr c =
     (if adv_RaftAdvertise (cfg_Advanced c) = [] then Inr None
      else (case resolveTCPAddr (adv_RaftAdvertise (cfg_Advanced c)) of
              Inl e \<Rightarrow> Inl (Errorf ''honeybadger: resolve Config.Advanced.RaftAdvertise: %w'' [] e)
            | Inr addr \<Rightarrow> Inr (Some addr)))"

text \<open>\<open>defaultOptions\<close> stands for \<open>badger.DefaultOptions(dir).WithLogger(nil)\<close>.\<close>

definition resolveBadgerOptions ::
    "(path \<Rightarrow> 'o badger_options) \<Rightarrow> 'o Config \<Rightarrow> 'o badger_options" where
  "resolveBadgerOptions defaultOptions c =
     (case adv_BadgerOptions (cfg_Advanced c) of
        Some bo \<Rightarrow> bo
      | None \<Rightarrow> defaultOptions (filepath_Join (cfg_DataDir c) ''badger''))"

definition raftDir :: "'o Config \<Rightarrow> path" where
  "raftDir c = filepath_Join (cfg_DataDir c) ''raft''"

section \<open>Lemmas\<close>

lemma path_split_not_Nil [simp]: "path_split p \<noteq> []"
  by (induction p) (auto split: list.splits)

lemma path_split_append_slash:
  "path_split (a @ slash # b) = path_split a @ path_split b"
proof (induction a)
  case (Cons c a)
  then show ?case by (cases "path_split a") auto
qed simp

lemma path_split_plain: "slash \<notin> set c \<Longrightarrow> path_split c = [c]"
  by (induction c) auto

lemma path_join_snoc: "path_join (cs @ [x]) = concat (map (\<lambda>c. c @ [slash]) cs) @ x"
proof (induction cs)
  case (Cons c cs)
  then show ?case by (cases "cs @ [x]") auto
qed simp

definition join_base :: "path \<Rightarrow> path" where
  "join_base a =
     (if is_rooted a then [slash] else []) @
     concat (map (\<lambda>c. c @ [slash]) (rev (foldl (clean_step (is_rooted a)) [] (path_split a))))"

text \<open>
  Joining a plain element appends it to a directory part that depends on the first
  argument only.
\<close>

lemma filepath_Join_plain:
  assumes "a \<noteq> []" and "slash \<notin> set c" and "c \<notin> {[], ''.'', ''..''}"
  shows "filepath_Join a c = join_base a @ c"
proof -
  have rooted: "is_rooted (a @ slash # c) = is_rooted a"
    using assms(1) by (cases a) (auto simp: is_rooted_def)
  have "clean_step (is_rooted a) acc c = c # acc" for acc
    using assms(3) by (simp add: clean_step_def)
  with assms rooted show ?thesis
    by (simp add: filepath_Join_def filepath_Clean_def join_base_def path_split_append_slash
        path_split_plain path_join_snoc Let_def)
qed

lemma setDefaults_positive: "0 < adv_ApplyTimeout (cfg_Advanced (setDefaults c))"
  by (simp add: setDefaults_def Let_def defaultApplyTimeout_def)

lemma setDefaults_threshold: "adv_SnapshotThreshold (cfg_Advanced (setDefaults c)) \<noteq> 0"
  by (simp add: setDefaults_def Let_def defaultSnapshotThreshold_def)

lemma setDefaults_output: "adv_LogOutput (cfg_Advanced (setDefaults c)) \<noteq> None"
  by (simp add: setDefaults_def Let_def)

lemma setDefaults_fields [frame_simps]:
  "cfg_NodeID (setDefaults c) = cfg_NodeID c"
  "cfg_RaftBind (setDefaults c) = cfg_RaftBind c"
  "cfg_DataDir (setDefaults c) = cfg_DataDir c"
  "adv_RaftAdvertise (cfg_Advanced (setDefaults c)) = adv_RaftAdvertise (cfg_Advanced c)"
  "adv_BadgerOptions (cfg_Advanced (setDefaults c)) = adv_BadgerOptions (cfg_Advanced c)"
  by (simp_all add: setDefaults_def Let_def)

lemma setDefaults_idem: "setDefaults (setDefaults c) = setDefaults c"
  by (simp add: setDefaults_def Let_def defaultApplyTimeout_def defaultSnapshotThreshold_def)

lemma validateConfig_None_iff:
  "validateConfig c = None \<longleftrightarrow> cfg_NodeID c \<noteq> [] \<and> cfg_RaftBind c \<noteq> [] \<and> cfg_DataDir c \<noteq> []"
  by (simp add: validateConfig_def)

lemma parseOpenOptions_from_Inr:
  "parseOpenOptions_from b os = Inr n \<longleftrightarrow>
     (os = [] \<and> n = b) \<or> (os = [NewClusterOption] \<and> \<not> b \<and> n)"
proof (induction b os rule: parseOpenOptions_from.induct)
  case (2 b os)
  then show ?case by (cases os) auto
qed auto

lemma parseOpenOptions_Inr:
  "parseOpenOptions os = Inr n \<longleftrightarrow> (os = [] \<and> \<not> n) \<or> (os = [NewClusterOption] \<and> n)"
  by (auto simp: parseOpenOptions_def parseOpenOptions_from_Inr)

lemma parseOpenOptions_from_Inl:
  "parseOpenOptions_from b os = Inl e \<Longrightarrow> errors_is e ErrInvalidArgument"
  by (induction b os rule: parseOpenOptions_from.induct) (auto split: if_splits)

end
