(* ===== verification/Gob.thy ===== *)
theory Gob
  imports Types
begin

text \<open>
  The replicated command (\<open>command\<close>, \<open>commandPair\<close>) and its log format: \<open>encodeCommand\<close> and
  \<open>decodeCommand\<close> of \<open>fsm.go\<close>, over a model of the part of \<open>encoding/gob\<close> they use. A gob
  stream is a sequence of length-prefixed messages: first the descriptors of the types
  involved, each under a negative type number, then the value under its type number. A
  struct is the list of its non-zero fields, each behind the distance from the field before
  it, closed by a zero; slices and byte slices are prefixed by their length.

  Type numbers and descriptor bodies depend on what else the process has registered with
  gob, so they are a parameter (\<open>gob_registry\<close>); the receiver reads the descriptors of the
  stream, and here it takes the type they describe to be the one it decodes into, which is
  the case between nodes that run the same \<open>command\<close> struct.
\<close>

section \<open>Commands\<close>

record commandPair =
  cp_Key :: bytes
  cp_Value :: bytes
  cp_ExpiresAtUnix :: uint64

record command =
  cmd_Pairs :: "commandPair list"
  cmd_Deletes :: "bytes list"

definition commandPair_zero :: commandPair where
  "commandPair_zero = \<lparr>cp_Key = [], cp_Value = [], cp_ExpiresAtUnix = 0\<rparr>"

definition command_zero :: command where
  "command_zero = \<lparr>cmd_Pairs = [], cmd_Deletes = []\<rparr>"

section \<open>Numbers\<close>

text \<open>
  An unsigned number up to 127 is one byte; a larger one is its big-endian bytes behind
  the negated count of them. Signed numbers move the sign to the lowest bit.
\<close>

fun big_endian :: "nat \<Rightarrow> bytes" where
  "big_endian n =
     (if n < 256 then [word_of_nat n] else big_endian (n div 256) @ [word_of_nat (n mod 256)])"

declare big_endian.simps [simp del]

definition from_big_endian :: "nat \<Rightarrow> bytes \<Rightarrow> nat" where
  "from_big_endian acc bs = foldl (\<lambda>a b. 256 * a + unat b) acc bs"

definition enc_uint :: "nat \<Rightarrow> bytes" where
  "enc_uint n =
     (if n \<le> 127 then [word_of_nat n]
      else word_of_nat (256 - length (big_endian n)) # big_endian n)"

definition gob_unexpected_EOF :: gerror where "gob_unexpected_EOF = Plain ''unexpected EOF''"

definition dec_uint :: "bytes \<Rightarrow> gerror + (nat \<times> bytes)" where
  "dec_uint bs =
     (case bs of
        [] \<Rightarrow> Inl (Sentinel IO_EOF)
      | b # rest \<Rightarrow>
          if unat b \<le> 127 then Inr (unat b, rest)
          else let n = 256 - unat b in
            if n > 8 then Inl (Plain ''gob: encoded unsigned integer out of range'')
            else if length rest < n then Inl gob_unexpected_EOF
            else Inr (from_big_endian 0 (take n rest), drop n rest))"

definition enc_int :: "int \<Rightarrow> bytes" where
  "enc_int i = enc_uint (if i < 0 then nat (2 * (- i - 1) + 1) else nat (2 * i))"

definition dec_int :: "bytes \<Rightarrow> gerror + (int \<times> bytes)" where
  "dec_int bs =
     (case dec_uint bs of
        Inl e \<Rightarrow> Inl e
      | Inr (u, rest) \<Rightarrow>
          Inr (if odd u then - int (u div 2) - 1 else int (u div 2), rest))"

section \<open>Byte slices, slices, structs\<close>

text \<open>\<open>tooBig\<close>: the largest message, and the largest slice in memory, gob accepts.\<close>

definition tooBig :: nat where "tooBig = 2 ^ 33"

definition enc_bytes :: "bytes \<Rightarrow> bytes" where
  "enc_bytes b = enc_uint (length b) @ b"

definition dec_bytes :: "bytes \<Rightarrow> gerror + (bytes \<times> bytes)" where
  "dec_bytes bs =
     (case dec_uint bs of
        Inl e \<Rightarrow> Inl e
      | Inr (n, rest) \<Rightarrow>
          if length rest < n \<or> tooBig \<le> n then Inl (Plain ''gob: bad []byte slice length'')
          else Inr (take n rest, drop n rest))"

definition enc_slice :: "('a \<Rightarrow> bytes) \<Rightarrow> 'a list \<Rightarrow> bytes" where
  "enc_slice enc xs = enc_uint (length xs) @ concat (map enc xs)"

primrec dec_elems :: "(bytes \<Rightarrow> gerror + ('a \<times> bytes)) \<Rightarrow> nat \<Rightarrow> bytes \<Rightarrow> gerror + ('a list \<times> bytes)" where
  "dec_elems dec 0 bs = Inr ([], bs)"
| "dec_elems dec (Suc n) bs =
     (case dec bs of
        Inl e \<Rightarrow> Inl e
      | Inr (x, rest) \<Rightarrow>
          (case dec_elems dec n rest of Inl e \<Rightarrow> Inl e | Inr (xs, rest') \<Rightarrow> Inr (x # xs, rest')))"

text \<open>\<open>sz\<close> is the size in memory of an element.\<close>

definition dec_slice ::
    "nat \<Rightarrow> (bytes \<Rightarrow> gerror + ('a \<times> bytes)) \<Rightarrow> bytes \<Rightarrow> gerror + ('a list \<times> bytes)" where
  "dec_slice sz dec bs =
     (case dec_uint bs of
        Inl e \<Rightarrow> Inl e
      | Inr (n, rest) \<Rightarrow>
          if n * sz > tooBig then Inl (Plain ''gob: slice too big'')
          else dec_elems dec n rest)"

text \<open>
  A struct: the encodings of its fields in order, \<open>None\<close> for a field that holds its zero
  value and is not sent; \<open>d\<close> is the distance from the last field sent.
\<close>

fun enc_fields :: "nat \<Rightarrow> bytes option list \<Rightarrow> bytes" where
  "enc_fields d [] = enc_uint 0"
| "enc_fields d (None # fs) = enc_fields (Suc d) fs"
| "enc_fields d (Some v # fs) = enc_uint d @ v @ enc_fields 1 fs"

definition enc_struct :: "bytes option list \<Rightarrow> bytes" where
  "enc_struct fs = enc_fields 1 fs"

text \<open>The decoder walks the fields not yet passed; each has a reader that stores it.\<close>

function dec_struct ::
    "('a \<Rightarrow> bytes \<Rightarrow> gerror + ('a \<times> bytes)) list \<Rightarrow> 'a \<Rightarrow> bytes \<Rightarrow> gerror + ('a \<times> bytes)" where
  "dec_struct fs x bs =
     (case dec_uint bs of
        Inl e \<Rightarrow> Inl e
      | Inr (d, rest) \<Rightarrow>
          if d = 0 then Inr (x, rest)
          else (case drop (d - 1) fs of
                  [] \<Rightarrow> Inl (Plain ''gob: bad data: field numbers out of bounds'')
                | f # fs' \<Rightarrow>
                    (case f x rest of
                       Inl e \<Rightarrow> Inl e
                     | Inr (x', rest') \<Rightarrow> dec_struct fs' x' rest')))"
  by pat_completeness auto
termination
proof (relation "measure (\<lambda>(fs, x, bs). length fs)", simp, goal_cases)
  case (1 fs x bs p d rest f fs' q x' rest')
  then have "length (f # fs') \<le> length fs"
    by (metis diff_le_self length_drop)
  then show ?case by simp
qed

declare dec_struct.simps [simp del]

section \<open>The command's encoding\<close>

definition enc_pair :: "commandPair \<Rightarrow> bytes" where
  "enc_pair p = enc_struct
     [if cp_Key p = [] then None else Some (enc_bytes (cp_Key p)),
      if cp_Value p = [] then None else Some (enc_bytes (cp_Value p)),
      if cp_ExpiresAtUnix p = 0 then None else Some (enc_uint (unat (cp_ExpiresAtUnix p)))]"

definition enc_command :: "command \<Rightarrow> bytes" where
  "enc_command c = enc_struct
     [if cmd_Pairs c = [] then None else Some (enc_slice enc_pair (cmd_Pairs c)),
      if cmd_Deletes c = [] then None else Some (enc_slice enc_bytes (cmd_Deletes c))]"

definition store_field :: "('a \<Rightarrow> 'v \<Rightarrow> 'a) \<Rightarrow> (bytes \<Rightarrow> gerror + ('v \<times> bytes)) \<Rightarrow>
    'a \<Rightarrow> bytes \<Rightarrow> gerror + ('a \<times> bytes)" where
  "store_field upd dec x bs =
     (case dec bs of Inl e \<Rightarrow> Inl e | Inr (v, rest) \<Rightarrow> Inr (upd x v, rest))"

definition pair_fields :: "(commandPair \<Rightarrow> bytes \<Rightarrow> gerror + (commandPair \<times> bytes)) list" where
  "pair_fields =
     [store_field (\<lambda>p k. p\<lparr>cp_Key := k\<rparr>) dec_bytes,
      store_field (\<lambda>p v. p\<lparr>cp_Value := v\<rparr>) dec_bytes,
      store_field (\<lambda>p n. p\<lparr>cp_ExpiresAtUnix := word_of_nat n\<rparr>) dec_uint]"

definition dec_pair :: "bytes \<Rightarrow> gerror + (commandPair \<times> bytes)" where
  "dec_pair bs = dec_struct pair_fields commandPair_zero bs"

text \<open>A \<open>commandPair\<close> takes 56 bytes in memory, a slice header 24.\<close>

definition command_fields :: "(command \<Rightarrow> bytes \<Rightarrow> gerror + (command \<times> bytes)) list" where
  "command_fields =
     [store_field (\<lambda>c ps. c\<lparr>cmd_Pairs := ps\<rparr>) (dec_slice 56 dec_pair),
      store_field (\<lambda>c ds. c\<lparr>cmd_Deletes := ds\<rparr>) (dec_slice 24 dec_bytes)]"

definition dec_command :: "bytes \<Rightarrow> gerror + (command \<times> bytes)" where
  "dec_command bs = dec_struct command_fields command_zero bs"

section \<open>Messages\<close>

record gob_registry =
  reg_types :: "(nat \<times> bytes) list"
  reg_command :: nat

definition message :: "bytes \<Rightarrow> bytes" where
  "message body = enc_uint (length body) @ body"

definition read_message :: "bytes \<Rightarrow> gerror + (bytes \<times> bytes)" where
  "read_message bs =
     (case dec_uint bs of
        Inl e \<Rightarrow> Inl e
      | Inr (n, rest) \<Rightarrow>
          if tooBig \<le> n then Inl (Plain ''gob: bad count'')
          else if length rest < n then Inl gob_unexpected_EOF
          else Inr (take n rest, drop n rest))"

fun enc_types :: "(nat \<times> bytes) list \<Rightarrow> bytes" where
  "enc_types [] = []"
| "enc_types ((i, d) # ts) = message (enc_int (- int i) @ d) @ enc_types ts"

definition encodeCommand :: "gob_registry \<Rightarrow> command \<Rightarrow> gerror + bytes" where
  "encodeCommand reg cmd =
     (let body = enc_int (int (reg_command reg)) @ enc_command cmd in
      if tooBig \<le> length body then
        Inl (Errorf ''honeybadger: encode command: %w'' [] (Plain ''gob: encoder: message too big''))
      else Inr (enc_types (reg_types reg) @ message body))"

lemma read_message_shorter:
  assumes "read_message bs = Inr (body, rest)"
  shows "length rest < length bs"
proof -
  have "length r < length bs" if "dec_uint bs = Inr (n, r)" for n r
    using that by (auto simp: dec_uint_def Let_def split: list.splits if_splits)
  with assms show ?thesis
    by (fastforce simp: read_message_def split: sum.splits if_splits prod.splits)
qed

function dec_stream :: "nat list \<Rightarrow> bytes \<Rightarrow> gerror + command" where
  "dec_stream known bs =
     (case read_message bs of
        Inl e \<Rightarrow> Inl e
      | Inr (body, rest) \<Rightarrow>
          (case dec_int body of
             Inl e \<Rightarrow> Inl e
           | Inr (i, payload) \<Rightarrow>
               if i < 0 then
                 (if nat (- i) \<in> set known then Inl (Plain ''gob: duplicate type received'')
                  else dec_stream (nat (- i) # known) rest)
               else if nat i \<notin> set known then Inl (Plain ''gob: unknown type id or corrupted data'')
               else map_sum (\<lambda>e. e) fst (dec_command payload)))"
  by pat_completeness auto
termination
  by (relation "measure (\<lambda>(known, bs). length bs)") (auto dest: read_message_shorter)

declare dec_stream.simps [simp del]

definition decodeCommand :: "bytes \<Rightarrow> gerror + command" where
  "decodeCommand data = dec_stream [] data"

section \<open>Decoding what was encoded\<close>

lemma from_big_endian_append:
  "from_big_endian acc (xs @ [x]) = 256 * from_big_endian acc xs + unat x"
  by (simp add: from_big_endian_def)

lemma unat_of_byte: "n < 256 \<Longrightarrow> unat (word_of_nat n :: byte) = n"
  by (simp add: unat_of_nat)

lemma from_big_endian_big_endian: "from_big_endian 0 (big_endian n) = n"
proof (induction n rule: big_endian.induct)
  case (1 n)
  show ?case
  proof (cases "n < 256")
    case True
    then show ?thesis
      by (simp add: big_endian.simps [of n] from_big_endian_def unat_of_byte)
  next
    case False
    with "1" show ?thesis
      by (simp add: big_endian.simps [of n] from_big_endian_append unat_of_byte)
  qed
qed

lemma length_big_endian: "n < 256 ^ Suc k \<Longrightarrow> length (big_endian n) \<le> Suc k"
proof (induction k arbitrary: n)
  case 0
  then show ?case by (simp add: big_endian.simps [of n])
next
  case (Suc k)
  have "length (big_endian (n div 256)) \<le> Suc k"
    by (rule Suc.IH) (use Suc.prems in \<open>simp add: div_less_iff_less_mult\<close>)
  then show ?case by (simp add: big_endian.simps [of n])
qed

lemma big_endian_pos: "0 < length (big_endian n)"
  by (simp add: big_endian.simps [of n])

lemma dec_enc_uint [simp]:
  assumes "n < 2 ^ 64"
  shows "dec_uint (enc_uint n @ rest) = Inr (n, rest)"
proof (cases "n \<le> 127")
  case True
  then show ?thesis by (simp add: enc_uint_def dec_uint_def unat_of_byte)
next
  case False
  have len: "length (big_endian n) \<le> 8"
    using length_big_endian [of n 7] assms by simp
  then have "unat (word_of_nat (256 - length (big_endian n)) :: byte) = 256 - length (big_endian n)"
    using big_endian_pos [of n] by (intro unat_of_byte) simp
  with False len show ?thesis
    by (simp add: enc_uint_def dec_uint_def Let_def from_big_endian_big_endian)
qed

lemma dec_enc_int:
  assumes "- (2 ^ 62) < i" and "i < 2 ^ 62"
  shows "dec_int (enc_int i @ rest) = Inr (i, rest)"
proof (cases "i < 0")
  case True
  then have u: "nat (2 * (- i - 1) + 1) = 2 * nat (- i - 1) + 1" by simp
  then have "nat (2 * (- i - 1) + 1) < 2 ^ 64" using True assms by simp
  with True u show ?thesis by (simp add: dec_int_def enc_int_def)
next
  case False
  then have "nat (2 * i) = 2 * nat i" and "nat (2 * i) < 2 ^ 64" using assms by simp_all
  with False show ?thesis by (simp add: dec_int_def enc_int_def)
qed

lemma dec_enc_bytes [simp]:
  "length b < tooBig \<Longrightarrow> dec_bytes (enc_bytes b @ rest) = Inr (b, rest)"
  by (simp add: dec_bytes_def enc_bytes_def tooBig_def)

lemma dec_elems_concat:
  "(\<And>x r. x \<in> set xs \<Longrightarrow> dec (enc x @ r) = Inr (x, r)) \<Longrightarrow>
     dec_elems dec (length xs) (concat (map enc xs) @ rest) = Inr (xs, rest)"
  by (induction xs arbitrary: rest) simp_all

lemma dec_enc_slice:
  assumes "\<And>x r. x \<in> set xs \<Longrightarrow> dec (enc x @ r) = Inr (x, r)"
    and "length xs * sz \<le> tooBig" and "0 < sz"
  shows "dec_slice sz dec (enc_slice enc xs @ rest) = Inr (xs, rest)"
proof -
  from assms(3) have "length xs \<le> length xs * sz" by (cases sz) simp_all
  also note assms(2)
  also have "tooBig < 2 ^ 64" by (simp add: tooBig_def)
  finally have "length xs < 2 ^ 64" .
  with assms(2) dec_elems_concat [OF assms(1)] show ?thesis
    by (simp add: dec_slice_def enc_slice_def)
qed

text \<open>
  One run of the struct decoder over the fields a struct encoder wrote: each field sent is
  read back, each field not sent keeps what the zero value has.
\<close>

fun field_run :: "('a \<Rightarrow> bytes \<Rightarrow> gerror + ('a \<times> bytes)) list \<Rightarrow> bytes option list \<Rightarrow> 'a \<Rightarrow> 'a \<Rightarrow> bool"
where
  "field_run [] [] x y = (x = y)"
| "field_run (r # rs) (None # fs) x y = field_run rs fs x y"
| "field_run (r # rs) (Some v # fs) x y =
     (\<exists>x'. (\<forall>rest. r x (v @ rest) = Inr (x', rest)) \<and> field_run rs fs x' y)"
| "field_run _ _ _ _ = False"

lemma dec_struct_enc_fields:
  "field_run rs fs x y \<Longrightarrow> Suc (length pre + length fs) < 2 ^ 64 \<Longrightarrow>
     dec_struct (pre @ rs) x (enc_fields (Suc (length pre)) fs @ rest) = Inr (y, rest)"
proof (induction rs fs x y arbitrary: pre rule: field_run.induct)
  case (1 x y)
  then show ?case by (subst dec_struct.simps) simp
next
  case (2 r rs fs x y)
  from "2.IH" [of "pre @ [r]"] "2.prems" show ?case by simp
next
  case (3 r rs v fs x y)
  then obtain x' where r: "\<And>rest. r x (v @ rest) = Inr (x', rest)" and run: "field_run rs fs x' y"
    by auto
  from "3.IH" [OF run, of "[]"] "3.prems"(2)
  have "dec_struct rs x' (enc_fields 1 fs @ rest) = Inr (y, rest)" by simp
  with "3.prems"(2) r show ?case by (subst dec_struct.simps) simp
qed auto

lemma dec_enc_struct:
  "field_run rs fs x y \<Longrightarrow> Suc (length fs) < 2 ^ 64 \<Longrightarrow>
     dec_struct rs x (enc_struct fs @ rest) = Inr (y, rest)"
  using dec_struct_enc_fields [of rs fs x y "[]" rest] by (simp add: enc_struct_def)

definition pair_fits :: "commandPair \<Rightarrow> bool" where
  "pair_fits p \<longleftrightarrow> length (cp_Key p) < tooBig \<and> length (cp_Value p) < tooBig"

lemma dec_enc_pair:
  assumes "pair_fits p"
  shows "dec_pair (enc_pair p @ rest) = Inr (p, rest)"
proof -
  have "unat (cp_ExpiresAtUnix p) < 2 ^ LENGTH(64)" by (rule unsigned_less)
  then have "unat (cp_ExpiresAtUnix p) < 2 ^ 64" by simp
  with assms show ?thesis
    unfolding dec_pair_def enc_pair_def
    by (intro dec_enc_struct)
      (simp_all add: pair_fits_def pair_fields_def commandPair_zero_def store_field_def)
qed

text \<open>
  What a command must satisfy for its encoding to be readable: the slices fit the decoder's
  memory limit. That every key and value does follows from the message's own limit.
\<close>

definition command_fits :: "command \<Rightarrow> bool" where
  "command_fits c \<longleftrightarrow>
     length (cmd_Pairs c) * 56 \<le> tooBig \<and> length (cmd_Deletes c) * 24 \<le> tooBig"

lemma length_enc_fields: "Some v \<in> set fs \<Longrightarrow> length v \<le> length (enc_fields d fs)"
  by (induction d fs rule: enc_fields.induct) auto

lemma length_enc_slice: "x \<in> set xs \<Longrightarrow> length (enc x) \<le> length (enc_slice enc xs)"
  by (auto simp: enc_slice_def dest!: split_list)

lemma length_enc_pair:
  "length (cp_Key p) \<le> length (enc_pair p)" "length (cp_Value p) \<le> length (enc_pair p)"
  by (simp_all add: enc_pair_def enc_struct_def enc_bytes_def)

lemma length_enc_command:
  assumes "p \<in> set (cmd_Pairs c)"
  shows "length (enc_pair p) \<le> length (enc_command c)"
proof -
  have "length (enc_pair p) \<le> length (enc_slice enc_pair (cmd_Pairs c))"
    using assms by (rule length_enc_slice)
  also have "\<dots> \<le> length (enc_command c)"
    unfolding enc_command_def enc_struct_def using assms
    by (intro length_enc_fields) auto
  finally show ?thesis .
qed

lemma length_enc_command_delete:
  assumes "k \<in> set (cmd_Deletes c)"
  shows "length k \<le> length (enc_command c)"
proof -
  have "length k \<le> length (enc_bytes k)" by (simp add: enc_bytes_def)
  also have "\<dots> \<le> length (enc_slice enc_bytes (cmd_Deletes c))"
    using assms by (rule length_enc_slice)
  also have "\<dots> \<le> length (enc_command c)"
    unfolding enc_command_def enc_struct_def using assms
    by (intro length_enc_fields) auto
  finally show ?thesis .
qed

lemma dec_enc_command:
  assumes "command_fits c" and "length (enc_command c) < tooBig"
  shows "dec_command (enc_command c @ rest) = Inr (c, rest)"
proof -
  have "pair_fits p" if "p \<in> set (cmd_Pairs c)" for p
    using length_enc_command [OF that] length_enc_pair [of p] assms(2) by (simp add: pair_fits_def)
  then have ps: "dec_slice 56 dec_pair (enc_slice enc_pair (cmd_Pairs c) @ r) = Inr (cmd_Pairs c, r)"
    for r
    using assms(1) by (intro dec_enc_slice) (auto simp: dec_enc_pair command_fits_def)
  have "length k < tooBig" if "k \<in> set (cmd_Deletes c)" for k
    using length_enc_command_delete [OF that] assms(2) by simp
  then have ds: "dec_slice 24 dec_bytes (enc_slice enc_bytes (cmd_Deletes c) @ r) = Inr (cmd_Deletes c, r)"
    for r
    using assms(1) by (intro dec_enc_slice) (auto simp: command_fits_def)
  from ps ds show ?thesis
    unfolding dec_command_def enc_command_def
    by (intro dec_enc_struct) (simp_all add: command_fields_def command_zero_def store_field_def)
qed

text \<open>A registry: distinct positive type numbers, the command's among them.\<close>

definition wf_registry :: "gob_registry \<Rightarrow> bool" where
  "wf_registry reg \<longleftrightarrow>
     distinct (map fst (reg_types reg)) \<and> reg_command reg \<in> fst ` set (reg_types reg) \<and>
     (\<forall>(i, d) \<in> set (reg_types reg).
        0 < i \<and> i < 2 ^ 62 \<and> length (enc_int (- int i) @ d) < tooBig)"

lemma read_message_message [simp]:
  "length body < tooBig \<Longrightarrow> read_message (message body @ rest) = Inr (body, rest)"
  by (simp add: read_message_def message_def tooBig_def)

lemma dec_stream_types:
  assumes "\<forall>(i, d) \<in> set ts. 0 < i \<and> i < 2 ^ 62 \<and> length (enc_int (- int i) @ d) < tooBig"
    and "distinct (map fst ts)" and "fst ` set ts \<inter> set known = {}"
  shows "dec_stream known (enc_types ts @ rest) = dec_stream (rev (map fst ts) @ known) rest"
  using assms
proof (induction ts arbitrary: known)
  case (Cons t ts)
  obtain i d where t: "t = (i, d)" by (cases t)
  with Cons.prems have i: "0 < i" "i < 2 ^ 62" "length (enc_int (- int i) @ d) < tooBig" by auto
  have "int i < 2 ^ 62" using i(2) by (metis of_nat_less_iff of_nat_numeral of_nat_power)
  then have "dec_int (enc_int (- int i) @ d) = Inr (- int i, d)"
    by (intro dec_enc_int) simp_all
  with i t Cons.prems have
    "dec_stream known (enc_types (t # ts) @ rest) = dec_stream (i # known) (enc_types ts @ rest)"
    by (subst dec_stream.simps) auto
  also have "\<dots> = dec_stream (rev (map fst ts) @ i # known) rest"
    by (rule Cons.IH) (use Cons.prems t in auto)
  finally show ?case by (simp add: t)
qed simp

lemma decode_encode:
  assumes "wf_registry reg" and "command_fits c" and "encodeCommand reg c = Inr data"
  shows "decodeCommand data = Inr c"
proof -
  let ?id = "enc_int (int (reg_command reg))"
  from assms(3) have small: "length (?id @ enc_command c) < tooBig"
    and data: "data = enc_types (reg_types reg) @ message (?id @ enc_command c) @ []"
    by (auto simp: encodeCommand_def Let_def split: if_splits)
  from assms(1) have mem: "reg_command reg \<in> fst ` set (reg_types reg)"
    and ts: "\<forall>(i, d) \<in> set (reg_types reg). 0 < i \<and> i < 2 ^ 62 \<and> length (enc_int (- int i) @ d) < tooBig"
    and dist: "distinct (map fst (reg_types reg))"
    by (auto simp: wf_registry_def)
  from mem ts have "reg_command reg < 2 ^ 62" by auto
  then have "int (reg_command reg) < 2 ^ 62"
    by (metis of_nat_less_iff of_nat_numeral of_nat_power)
  then have id: "dec_int (?id @ enc_command c) = Inr (int (reg_command reg), enc_command c)"
    by (intro dec_enc_int) simp_all
  have "decodeCommand data =
      dec_stream (rev (map fst (reg_types reg))) (message (?id @ enc_command c) @ [])"
    unfolding decodeCommand_def data by (subst dec_stream_types [OF ts dist]) auto
  also have "\<dots> = map_sum (\<lambda>e. e) fst (dec_command (enc_command c))"
    using read_message_message [OF small, of "[]"] id mem by (subst dec_stream.simps) simp
  also have "\<dots> = Inr c"
    using dec_enc_command [of c "[]"] assms(2) small by simp
  finally show ?thesis .
qed

section \<open>The codec interface\<close>

text \<open>
  What replication asks of a command format: what was encoded decodes to itself on any
  node.
\<close>

locale codec =
  fixes enc :: "'c \<Rightarrow> 'e + 'd"
    and dec :: "'d \<Rightarrow> 'e + 'c"
    and ok :: "'c \<Rightarrow> bool"
  assumes dec_enc: "ok c \<Longrightarrow> enc c = Inr d \<Longrightarrow> dec d = Inr c"
begin

lemma enc_inj: "ok c \<Longrightarrow> ok c' \<Longrightarrow> enc c = Inr d \<Longrightarrow> enc c' = Inr d \<Longrightarrow> c = c'"
  using dec_enc [of c d] dec_enc [of c' d] by simp

lemma dec_log:
  "list_all2 (\<lambda>c d. ok c \<and> enc c = Inr d) cs ds \<Longrightarrow> map dec ds = map Inr cs"
  by (induction rule: list_all2_induct) (auto simp: dec_enc)

end

interpretation gob: codec "encodeCommand reg" decodeCommand
    "\<lambda>c. wf_registry reg \<and> command_fits c" for reg
  by unfold_locales (auto intro: decode_encode)

text \<open>A registry with the four types of a command, for closed examples.\<close>

definition sample_registry :: gob_registry where
  "sample_registry =
     \<lparr>reg_types = [(65, []), (66, []), (67, []), (68, [])], reg_command = 65\<rparr>"

lemma wf_sample_registry: "wf_registry sample_registry"
  by (simp add: wf_registry_def sample_registry_def enc_int_def enc_uint_def tooBig_def
      big_endian.simps)

end
