(* ===== verification/Badger.thy ===== *)
theory Badger
  imports Config Gob
begin

text \<open>
  The Badger operations the sources call, as a parameter (\<open>badger_api\<close>): Badger is a
  dependency, so nothing here defines what it does. The contracts \<open>update_ok\<close> and
  \<open>view_ok\<close> state the documented behaviour the sources rely on, over a ghost reading of a
  handle as a map from keys to values with an absolute expiry; they are hypotheses of the
  theorems that need them. An in-memory reference instance satisfies both.
\<close>

section \<open>The operations\<close>

text \<open>
  An entry for \<open>SetEntry\<close>: key, value, and the expiry the caller assigned, if it assigned
  one to what \<open>NewEntry\<close> made.
\<close>

record bentry =
  be_Key :: bytes
  be_Value :: bytes
  be_ExpiresAt :: "uint64 option"

text \<open>
  Handles \<open>'b\<close>, write transactions \<open>'t\<close>, read transactions \<open>'v\<close>, iterators \<open>'i\<close>, items
  \<open>'m\<close>. \<open>b_Update\<close> is \<open>DB.Update\<close> with the callback's effect on the transaction;
  \<open>b_View\<close> opens the read transaction \<open>DB.View\<close> hands to its callback, at a clock reading;
  \<open>v_Seek\<close> is \<open>NewIterator\<close> followed by \<open>Seek\<close>.
\<close>

record ('b, 't, 'v, 'i, 'm) badger_api =
  b_Update :: "'b \<Rightarrow> ('t \<Rightarrow> gerror + 't) \<Rightarrow> 'b \<times> gerror option"
  t_SetEntry :: "'t \<Rightarrow> bentry \<Rightarrow> gerror + 't"
  t_Delete :: "'t \<Rightarrow> bytes \<Rightarrow> gerror + 't"
  b_View :: "time \<Rightarrow> 'b \<Rightarrow> gerror + 'v"
  v_Get :: "'v \<Rightarrow> bytes \<Rightarrow> gerror + 'm"
  v_Seek :: "'v \<Rightarrow> bytes \<Rightarrow> 'i"
  i_ValidForPrefix :: "'i \<Rightarrow> bytes \<Rightarrow> bool"
  i_Next :: "'i \<Rightarrow> 'i"
  i_Item :: "'i \<Rightarrow> 'm"
  m_Key :: "'m \<Rightarrow> bytes"
  m_Value :: "'m \<Rightarrow> gerror + bytes"

section \<open>The ghost reading\<close>

type_synonym kv = "bytes \<rightharpoonup> bytes \<times> uint64"

text \<open>What a reader sees at a clock reading: expired entries are gone, 0 never expires.\<close>

definition alive :: "time \<Rightarrow> uint64 \<Rightarrow> bool" where
  "alive now x \<longleftrightarrow> x = 0 \<or> unix_seconds now < uint x"

definition live :: "time \<Rightarrow> kv \<Rightarrow> (bytes \<rightharpoonup> bytes)" where
  "live now m k = (case m k of None \<Rightarrow> None | Some (v, x) \<Rightarrow> if alive now x then Some v else None)"

type_synonym writes = "bytes \<rightharpoonup> (bytes \<times> uint64) option"

definition apply_writes :: "writes \<Rightarrow> kv \<Rightarrow> kv" where
  "apply_writes w m k = (case w k of None \<Rightarrow> m k | Some x \<Rightarrow> x)"

record ('b, 't, 'v, 'i, 'm) badger_ghost =
  contents :: "'b \<Rightarrow> kv"
  begin_txn :: "'b \<Rightarrow> 't"
  writes_of :: "'t \<Rightarrow> writes"
  view_of :: "'v \<Rightarrow> (bytes \<rightharpoonup> bytes)"
  rest_of :: "'i \<Rightarrow> 'm list"

section \<open>The contracts\<close>

definition update_atomic :: "('b,'t,'v,'i,'m) badger_api \<Rightarrow> ('b,'t,'v,'i,'m) badger_ghost \<Rightarrow> bool" where
  "update_atomic B G \<longleftrightarrow>
     (\<forall>b fn b' e. b_Update B b fn = (b', Some e) \<longrightarrow> contents G b' = contents G b) \<and>
     (\<forall>b fn b'. b_Update B b fn = (b', None) \<longrightarrow>
        (\<exists>t. fn (begin_txn G b) = Inr t \<and>
             contents G b' = apply_writes (writes_of G t) (contents G b)))"

definition txn_buffers :: "('b,'t,'v,'i,'m) badger_api \<Rightarrow> ('b,'t,'v,'i,'m) badger_ghost \<Rightarrow> bool" where
  "txn_buffers B G \<longleftrightarrow>
     (\<forall>b. writes_of G (begin_txn G b) = Map.empty) \<and>
     (\<forall>t e t'. t_SetEntry B t e = Inr t' \<longrightarrow>
        writes_of G t' = (writes_of G t)(be_Key e \<mapsto>
          Some (be_Value e, case be_ExpiresAt e of None \<Rightarrow> 0 | Some x \<Rightarrow> x))) \<and>
     (\<forall>t k t'. t_Delete B t k = Inr t' \<longrightarrow> writes_of G t' = (writes_of G t)(k \<mapsto> None))"

text \<open>\<open>Update\<close> is all or nothing, and a transaction buffers the last write of each key.\<close>

definition update_ok :: "('b,'t,'v,'i,'m) badger_api \<Rightarrow> ('b,'t,'v,'i,'m) badger_ghost \<Rightarrow> bool" where
  "update_ok B G \<longleftrightarrow> update_atomic B G \<and> txn_buffers B G"

text \<open>An item stands for a key and a value; reading the value may fail.\<close>

definition item_is :: "('b,'t,'v,'i,'m) badger_api \<Rightarrow> 'm \<Rightarrow> bytes \<Rightarrow> bytes \<Rightarrow> bool" where
  "item_is B m k x \<longleftrightarrow> m_Key B m = k \<and> (\<forall>y. m_Value B m = Inr y \<longrightarrow> y = x)"

definition get_ok :: "('b,'t,'v,'i,'m) badger_api \<Rightarrow> ('b,'t,'v,'i,'m) badger_ghost \<Rightarrow> bool" where
  "get_ok B G \<longleftrightarrow>
     (\<forall>now b v. b_View B now b = Inr v \<longrightarrow> view_of G v = live now (contents G b)) \<and>
     (\<forall>v k m. v_Get B v k = Inr m \<longrightarrow> (\<exists>x. view_of G v k = Some x \<and> item_is B m k x)) \<and>
     (\<forall>v k e. v_Get B v k = Inl e \<longrightarrow> errors_is e Badger_ErrKeyNotFound \<longrightarrow> view_of G v k = None)"

text \<open>
  An iterator runs through the visible keys from the seek position on, in strictly
  ascending byte order, and stands for the items still to come.
\<close>

definition iter_ok :: "('b,'t,'v,'i,'m) badger_api \<Rightarrow> ('b,'t,'v,'i,'m) badger_ghost \<Rightarrow> bool" where
  "iter_ok B G \<longleftrightarrow>
     (\<forall>v p. sorted_wrt (\<lambda>m n. m_Key B m < m_Key B n) (rest_of G (v_Seek B v p)) \<and>
        m_Key B ` set (rest_of G (v_Seek B v p)) = {k \<in> dom (view_of G v). p \<le> k} \<and>
        (\<forall>m \<in> set (rest_of G (v_Seek B v p)). \<exists>x.
           view_of G v (m_Key B m) = Some x \<and> item_is B m (m_Key B m) x)) \<and>
     (\<forall>i p. i_ValidForPrefix B i p \<longleftrightarrow>
        rest_of G i \<noteq> [] \<and> prefix p (m_Key B (hd (rest_of G i)))) \<and>
     (\<forall>i. rest_of G i \<noteq> [] \<longrightarrow>
        i_Item B i = hd (rest_of G i) \<and> rest_of G (i_Next B i) = tl (rest_of G i))"

definition view_ok :: "('b,'t,'v,'i,'m) badger_api \<Rightarrow> ('b,'t,'v,'i,'m) badger_ghost \<Rightarrow> bool" where
  "view_ok B G \<longleftrightarrow> get_ok B G \<and> iter_ok B G"

section \<open>Lemmas\<close>

lemma live_Some_iff:
  "live now m k = Some v \<longleftrightarrow> (\<exists>x. m k = Some (v, x) \<and> alive now x)"
  by (auto simp: live_def split: option.splits if_splits)

lemma live_None_iff:
  "live now m k = None \<longleftrightarrow> (\<forall>v x. m k = Some (v, x) \<longrightarrow> \<not> alive now x)"
  by (auto simp: live_def split: option.splits if_splits)

lemma alive_antimono: "s \<le> t \<Longrightarrow> alive t x \<Longrightarrow> alive s x"
  using unix_seconds_mono [of s t] by (auto simp: alive_def)

lemma live_antimono: "s \<le> t \<Longrightarrow> live t m \<subseteq>\<^sub>m live s m"
  by (fastforce simp: map_le_def live_def intro: alive_antimono split: option.splits if_splits)

lemma update_ok_err:
  "update_ok B G \<Longrightarrow> b_Update B b fn = (b', Some e) \<Longrightarrow> contents G b' = contents G b"
  unfolding update_ok_def update_atomic_def by blast

lemma update_ok_commit:
  assumes "update_ok B G" and "b_Update B b fn = (b', None)"
  obtains t where "fn (begin_txn G b) = Inr t"
    and "contents G b' = apply_writes (writes_of G t) (contents G b)"
  using assms unfolding update_ok_def update_atomic_def by blast

lemma txn_begin: "update_ok B G \<Longrightarrow> writes_of G (begin_txn G b) = Map.empty"
  by (simp add: update_ok_def txn_buffers_def)

lemma txn_set:
  "update_ok B G \<Longrightarrow> t_SetEntry B t e = Inr t' \<Longrightarrow>
     writes_of G t' = (writes_of G t)(be_Key e \<mapsto>
       Some (be_Value e, case be_ExpiresAt e of None \<Rightarrow> 0 | Some x \<Rightarrow> x))"
  by (simp add: update_ok_def txn_buffers_def)

lemma txn_delete:
  "update_ok B G \<Longrightarrow> t_Delete B t k = Inr t' \<Longrightarrow> writes_of G t' = (writes_of G t)(k \<mapsto> None)"
  by (simp add: update_ok_def txn_buffers_def)

section \<open>A reference instance\<close>

text \<open>
  A store is an association list, a handle the options it was opened with and the store, a
  transaction the list of its writes, oldest first. It refuses the empty key and, as Badger
  documents, keys under its reserved prefix.
\<close>

type_synonym ref_store = "(bytes \<times> bytes \<times> uint64) list"
type_synonym ref_db = "unit badger_options \<times> ref_store"
type_synonym ref_txn = "(bytes \<times> (bytes \<times> uint64) option) list"
type_synonym ref_view = "(bytes \<times> bytes) list"

definition badger_prefix :: bytes where "badger_prefix = bytes_of ''!badger!''"

definition ref_reject :: "bytes \<Rightarrow> gerror option" where
  "ref_reject k =
     (if k = [] then Some (Plain ''Key cannot be empty'')
      else if prefix badger_prefix k then Some (Plain ''Key is using a reserved !badger! prefix'')
      else None)"

definition ref_write :: "bytes \<times> (bytes \<times> uint64) option \<Rightarrow> ref_store \<Rightarrow> ref_store" where
  "ref_write kw s =
     (case snd kw of None \<Rightarrow> filter (\<lambda>e. fst e \<noteq> fst kw) s | Some x \<Rightarrow> (fst kw, x) # s)"

definition ref_view_at :: "time \<Rightarrow> ref_store \<Rightarrow> ref_view" where
  "ref_view_at now s =
     List.map_filter (\<lambda>k. map_option (Pair k) (live now (map_of s) k)) (remdups (map fst s))"

definition ref_seek :: "ref_view \<Rightarrow> bytes \<Rightarrow> ref_view" where
  "ref_seek v p = map (\<lambda>k. (k, the (map_of v k))) (filter (\<lambda>k. p \<le> k) (sort (remdups (map fst v))))"

definition ref_badger :: "(ref_db, ref_txn, ref_view, ref_view, bytes \<times> bytes) badger_api" where
  "ref_badger =
     \<lparr>b_Update = (\<lambda>s fn. case fn [] of Inl e \<Rightarrow> (s, Some e)
         | Inr t \<Rightarrow> ((fst s, fold ref_write t (snd s)), None)),
      t_SetEntry = (\<lambda>t e. case ref_reject (be_Key e) of Some err \<Rightarrow> Inl err
         | None \<Rightarrow> Inr (t @ [(be_Key e, Some (be_Value e,
             case be_ExpiresAt e of None \<Rightarrow> 0 | Some x \<Rightarrow> x))])),
      t_Delete = (\<lambda>t k. case ref_reject k of Some err \<Rightarrow> Inl err | None \<Rightarrow> Inr (t @ [(k, None)])),
      b_View = (\<lambda>now s. Inr (ref_view_at now (snd s))),
      v_Get = (\<lambda>v k. case map_of v k of None \<Rightarrow> Inl (Sentinel Badger_ErrKeyNotFound)
         | Some x \<Rightarrow> Inr (k, x)),
      v_Seek = ref_seek,
      i_ValidForPrefix = (\<lambda>i p. i \<noteq> [] \<and> prefix p (fst (hd i))),
      i_Next = tl,
      i_Item = hd,
      m_Key = fst,
      m_Value = (\<lambda>m. Inr (snd m))\<rparr>"

definition ref_ghost :: "(ref_db, ref_txn, ref_view, ref_view, bytes \<times> bytes) badger_ghost" where
  "ref_ghost =
     \<lparr>contents = (\<lambda>s. map_of (snd s)), begin_txn = (\<lambda>_. []),
      writes_of = (\<lambda>t. map_of (rev t)), view_of = map_of, rest_of = (\<lambda>i. i)\<rparr>"

lemma map_of_ref_write: "map_of (ref_write kw s) = (map_of s)(fst kw := snd kw)"
proof -
  have "map_of (filter (\<lambda>e. fst e \<noteq> k) s) = (map_of s)(k := None)" for k
    by (induction s) auto
  then show ?thesis by (simp add: ref_write_def split: option.splits)
qed

lemma map_of_fold_ref_write:
  "map_of (fold ref_write t s) = apply_writes (map_of (rev t)) (map_of s)"
proof (induction t arbitrary: s)
  case (Cons kw t)
  show ?case
    by (rule ext)
      (auto simp: Cons.IH apply_writes_def map_of_ref_write map_add_def split: option.splits)
qed (simp add: apply_writes_def fun_eq_iff)

lemma ref_update_ok: "update_ok ref_badger ref_ghost"
  unfolding update_ok_def update_atomic_def txn_buffers_def
  by (auto simp: ref_badger_def ref_ghost_def map_of_fold_ref_write split: sum.splits option.splits)

lemma map_of_map_filter:
  "map_of (List.map_filter (\<lambda>k. map_option (Pair k) (f k)) ks) k = (if k \<in> set ks then f k else None)"
  by (induction ks) (auto simp: map_filter_simps split: option.splits)

lemma ref_view_at_live: "map_of (ref_view_at now s) = live now (map_of s)"
proof
  fix k
  have "k \<notin> fst ` set s \<Longrightarrow> live now (map_of s) k = None"
    by (metis live_None_iff map_of_eq_None_iff option.distinct(1))
  then show "map_of (ref_view_at now s) k = live now (map_of s) k"
    by (simp add: ref_view_at_def map_of_map_filter)
qed

lemma ref_seek_props:
  "sorted_wrt (\<lambda>m n. fst m < fst n) (ref_seek v p)"
  "fst ` set (ref_seek v p) = {k \<in> dom (map_of v). p \<le> k}"
  "m \<in> set (ref_seek v p) \<Longrightarrow> map_of v (fst m) = Some (snd m)"
proof -
  have "sorted_wrt (<) (sort (remdups (map fst v)))"
    by (simp add: strict_sorted_iff)
  then show "sorted_wrt (\<lambda>m n. fst m < fst n) (ref_seek v p)"
    by (simp add: ref_seek_def sorted_wrt_map sorted_wrt_filter)
  show "fst ` set (ref_seek v p) = {k \<in> dom (map_of v). p \<le> k}"
    by (force simp: ref_seek_def dom_map_of_conv_image_fst)
  show "m \<in> set (ref_seek v p) \<Longrightarrow> map_of v (fst m) = Some (snd m)"
    by (auto simp: ref_seek_def) (metis map_of_eq_None_iff option.exhaust_sel image_eqI fst_conv)
qed

lemma ref_view_ok: "view_ok ref_badger ref_ghost"
  unfolding view_ok_def get_ok_def iter_ok_def
  using ref_seek_props
  by (auto simp: ref_badger_def ref_ghost_def ref_view_at_live item_is_def split: option.splits)

end
