(* ===== verification/Storage.thy ===== *)
theory Storage
  imports Badger
begin

text \<open>
  The file system as the restore path uses it (\<open>os.RemoveAll\<close>, \<open>os.MkdirAll\<close>,
  \<open>os.Rename\<close> of Go's standard library on Unix), and Badger's operations on whole
  databases (\<open>Open\<close>, \<open>Close\<close>, \<open>Load\<close>, \<open>Backup\<close>) as a parameter (\<open>storage_api\<close>) with the
  contract \<open>storage_ok\<close>. Any system call may fail at any moment: the calls are numbered and
  an arbitrary schedule says which ones do.
\<close>

section \<open>Directories\<close>

text \<open>
  Only database directories are tracked, each with the files it directly holds (of type
  \<open>'d\<close>); their parents are taken to exist.
\<close>

type_synonym 'd fs = "path \<rightharpoonup> 'd"

definition under :: "path \<Rightarrow> path \<Rightarrow> bool" where
  "under p q \<longleftrightarrow> q = p \<or> prefix (p @ [slash]) q"

datatype fs_call = RemoveAll path | MkdirAll path | Rename path path

text \<open>
  A schedule of faults: the error of the call with this number, if it fails, and what a
  failed removal leaves of the tree.
\<close>

type_synonym 'd faults = "nat \<Rightarrow> fs_call \<Rightarrow> (gerror \<times> 'd fs) option"

record 'd world =
  w_fs :: "'d fs"
  w_tick :: nat

definition advance :: "'d world \<Rightarrow> 'd world" where
  "advance w = w\<lparr>w_tick := Suc (w_tick w)\<rparr>"

definition os_RemoveAll :: "'d faults \<Rightarrow> path \<Rightarrow> 'd world \<Rightarrow> 'd world \<times> gerror option" where
  "os_RemoveAll F p w =
     (case F (w_tick w) (RemoveAll p) of
        None \<Rightarrow> (advance (w\<lparr>w_fs := (\<lambda>q. if under p q then None else w_fs w q)\<rparr>), None)
      | Some (e, left) \<Rightarrow>
          (advance (w\<lparr>w_fs := (\<lambda>q. if under p q then left q else w_fs w q)\<rparr>), Some e))"

definition os_MkdirAll :: "'d faults \<Rightarrow> 'd \<Rightarrow> path \<Rightarrow> 'd world \<Rightarrow> 'd world \<times> gerror option" where
  "os_MkdirAll F d0 p w =
     (case F (w_tick w) (MkdirAll p) of
        None \<Rightarrow> (advance (case w_fs w p of None \<Rightarrow> w\<lparr>w_fs := (w_fs w)(p \<mapsto> d0)\<rparr> | Some _ \<Rightarrow> w), None)
      | Some (e, left) \<Rightarrow> (advance w, Some e))"

text \<open>
  A rename moves the whole tree; it fails when the source is missing, or when the target
  is an existing directory (Go refuses even an empty one).
\<close>

definition moved :: "path \<Rightarrow> path \<Rightarrow> 'd fs \<Rightarrow> 'd fs" where
  "moved a b fs q =
     (if under b q then fs (a @ drop (length b) q)
      else if under a q then None else fs q)"

definition os_Rename :: "'d faults \<Rightarrow> path \<Rightarrow> path \<Rightarrow> 'd world \<Rightarrow> 'd world \<times> gerror option" where
  "os_Rename F a b w =
     (case F (w_tick w) (Rename a b) of
        Some (e, left) \<Rightarrow> (advance w, Some e)
      | None \<Rightarrow>
          if w_fs w a = None then (advance w, Some (Plain ''no such file or directory''))
          else if w_fs w b \<noteq> None then (advance w, Some (Plain ''file exists''))
          else (advance (w\<lparr>w_fs := moved a b (w_fs w)\<rparr>), None))"

section \<open>Databases\<close>

text \<open>
  \<open>s_Open\<close> also sees the call number, so that it may fail once and succeed later. A
  snapshot stream has type \<open>'s\<close>. \<open>s_Kill\<close> is what the files are when the process dies with
  the database open; the number stands for the moment. \<open>s_Backup\<close> sees the clock, since Badger
  leaves out what has expired, and the version to start after (0 for everything).
\<close>

record ('b, 'o, 'd, 's) storage_api =
  s_empty :: 'd
  s_Open :: "nat \<Rightarrow> 'o badger_options \<Rightarrow> 'd fs \<Rightarrow> 'd fs \<times> (gerror + 'b)"
  s_Close :: "'b \<Rightarrow> 'd fs \<Rightarrow> 'd fs \<times> gerror option"
  s_Load :: "'b \<Rightarrow> 's \<Rightarrow> int \<Rightarrow> 'b \<times> gerror option"
  s_Backup :: "time \<Rightarrow> 'b \<Rightarrow> nat \<Rightarrow> gerror + 's"
  s_Kill :: "nat \<Rightarrow> 'b \<Rightarrow> 'd fs \<Rightarrow> 'd fs"

definition badger_Open ::
    "('b,'o,'d,'s) storage_api \<Rightarrow> 'o badger_options \<Rightarrow> 'd world \<Rightarrow> 'd world \<times> (gerror + 'b)" where
  "badger_Open S o' w =
     (let (fs', r) = s_Open S (w_tick w) o' (w_fs w) in (advance (w\<lparr>w_fs := fs'\<rparr>), r))"

definition badger_Close ::
    "('b,'o,'d,'s) storage_api \<Rightarrow> 'b \<Rightarrow> 'd world \<Rightarrow> 'd world \<times> gerror option" where
  "badger_Close S b w =
     (let (fs', r) = s_Close S b (w_fs w) in (advance (w\<lparr>w_fs := fs'\<rparr>), r))"

text \<open>The files that the next start finds after the process died with a handle open, or none.\<close>

definition killed :: "('b,'o,'d,'s) storage_api \<Rightarrow> nat \<Rightarrow> 'b option \<Rightarrow> 'd world \<Rightarrow> 'd fs" where
  "killed S n h w = (case h of None \<Rightarrow> w_fs w | Some b \<Rightarrow> s_Kill S n b (w_fs w))"

text \<open>
  The ghost reading: where a handle's database lives, what a directory tree holds as a
  database, what a stream holds, what an open database has held since it was opened;
  \<open>same_from t\<close> compares two contents by what readers see
  from time \<open>t\<close> on, since a backup may leave out what has already expired.
\<close>

record ('b, 'o, 'd, 's) storage_ghost =
  g_contents :: "'b \<Rightarrow> kv"
  g_opts :: "'b \<Rightarrow> 'o badger_options"
  g_image :: "'d \<Rightarrow> kv"
  g_stream :: "'s \<Rightarrow> kv"
  g_past :: "'b \<Rightarrow> kv set"

definition colocated :: "'o badger_options \<Rightarrow> bool" where
  "colocated o' \<longleftrightarrow> opt_ValueDir o' = opt_Dir o'"

definition same_from :: "time \<Rightarrow> kv \<Rightarrow> kv \<Rightarrow> bool" where
  "same_from t m m' \<longleftrightarrow> (\<forall>now \<ge> t. live now m = live now m')"

definition disk :: "('b,'o,'d,'s) storage_ghost \<Rightarrow> 'd fs \<Rightarrow> path \<Rightarrow> kv" where
  "disk G fs p = (case fs p of None \<Rightarrow> Map.empty | Some d \<Rightarrow> g_image G d)"

text \<open>What Badger touches on disk lies under the two directories of its options.\<close>

definition local_change :: "'o badger_options \<Rightarrow> 'd fs \<Rightarrow> 'd fs \<Rightarrow> bool" where
  "local_change o' fs fs' \<longleftrightarrow>
     (\<forall>q. \<not> under (opt_Dir o') q \<longrightarrow> \<not> under (opt_ValueDir o') q \<longrightarrow> fs' q = fs q)"

text \<open>
  Open and close of a database whose two directories coincide: open serves what the
  directory holds (nothing, for a missing or empty one, which it creates), and a clean close
  leaves there what the handle held. An open that fails changes no data.
\<close>

definition vacant :: "('b,'o,'d,'s) storage_api \<Rightarrow> 'd fs \<Rightarrow> path \<Rightarrow> bool" where
  "vacant S fs p \<longleftrightarrow> fs p = None \<or> fs p = Some (s_empty S)"

definition open_ok :: "('b,'o,'d,'s) storage_api \<Rightarrow> ('b,'o,'d,'s) storage_ghost \<Rightarrow> bool" where
  "open_ok S G \<longleftrightarrow>
     g_image G (s_empty S) = Map.empty \<and>
     (\<forall>n o' fs fs' b. s_Open S n o' fs = (fs', Inr b) \<longrightarrow>
        g_opts G b = o' \<and> local_change o' fs fs' \<and> fs' (opt_Dir o') \<noteq> None \<and>
        (colocated o' \<longrightarrow> g_contents G b = disk G fs (opt_Dir o')) \<and>
        (vacant S fs (opt_Dir o') \<and> vacant S fs (opt_ValueDir o') \<longrightarrow> g_contents G b = Map.empty)) \<and>
     (\<forall>n o' fs fs' e. s_Open S n o' fs = (fs', Inl e) \<longrightarrow>
        local_change o' fs fs' \<and>
        (colocated o' \<longrightarrow> disk G fs' (opt_Dir o') = disk G fs (opt_Dir o')))"

definition close_ok :: "('b,'o,'d,'s) storage_api \<Rightarrow> ('b,'o,'d,'s) storage_ghost \<Rightarrow> bool" where
  "close_ok S G \<longleftrightarrow>
     (\<forall>b fs fs' r. s_Close S b fs = (fs', r) \<longrightarrow>
        local_change (g_opts G b) fs fs' \<and> (fs (opt_Dir (g_opts G b)) \<noteq> None \<longrightarrow> fs' (opt_Dir (g_opts G b)) \<noteq> None) \<and>
        (r = None \<longrightarrow> colocated (g_opts G b) \<longrightarrow>
           disk G fs' (opt_Dir (g_opts G b)) = g_contents G b))"

text \<open>
  A loaded stream overrides what the database held; a full backup (since 0) shows readers
  what the database showed, for every clock from the time it was taken.
\<close>

definition load_ok :: "('b,'o,'d,'s) storage_api \<Rightarrow> ('b,'o,'d,'s) storage_ghost \<Rightarrow> bool" where
  "load_ok S G \<longleftrightarrow>
     (\<forall>b s n b' r. s_Load S b s n = (b', r) \<longrightarrow>
        g_opts G b' = g_opts G b \<and> (r = None \<longrightarrow> g_contents G b' = g_contents G b ++ g_stream G s))"

definition backup_ok ::
    "('b,'o,'d,'s) storage_api \<Rightarrow> ('b,'o,'d,'s) storage_ghost \<Rightarrow> bool" where
  "backup_ok S G \<longleftrightarrow>
     (\<forall>t b s. s_Backup S t b 0 = Inr s \<longrightarrow> same_from t (g_stream G s) (g_contents G b))"

text \<open>
  A database that has just been opened has held nothing else; one that is open when the process
  dies is found, when its files are opened again, as it was after one of its transactions, and
  nothing else has changed.
\<close>

definition kill_ok :: "('b,'o,'d,'s) storage_api \<Rightarrow> ('b,'o,'d,'s) storage_ghost \<Rightarrow> bool" where
  "kill_ok S G \<longleftrightarrow>
     (\<forall>n o' fs fs' b. s_Open S n o' fs = (fs', Inr b) \<longrightarrow> g_past G b \<subseteq> {g_contents G b}) \<and>
     (\<forall>n b fs. local_change (g_opts G b) fs (s_Kill S n b fs) \<and>
        (colocated (g_opts G b) \<longrightarrow> disk G (s_Kill S n b fs) (opt_Dir (g_opts G b)) \<in> g_past G b))"

definition storage_ok :: "('b,'o,'d,'s) storage_api \<Rightarrow> ('b,'o,'d,'s) storage_ghost \<Rightarrow> bool" where
  "storage_ok S G \<longleftrightarrow> open_ok S G \<and> close_ok S G \<and> load_ok S G"

section \<open>Lemmas\<close>

lemma advance_fs [simp]: "w_fs (advance w) = w_fs w"
  and advance_tick [simp]: "w_tick (advance w) = Suc (w_tick w)"
  by (simp_all add: advance_def)

lemma under_refl [simp]: "under p p"
  by (simp add: under_def)

lemma same_from_refl [simp]: "same_from t m m"
  and same_from_sym: "same_from t m m' \<Longrightarrow> same_from t m' m"
  and same_from_trans: "same_from t m m' \<Longrightarrow> same_from t m' m'' \<Longrightarrow> same_from t m m''"
  and same_from_later: "same_from s m m' \<Longrightarrow> s \<le> t \<Longrightarrow> same_from t m m'"
  by (simp_all add: same_from_def)

lemma openD:
  assumes "storage_ok S G" and "badger_Open S o' w = (w', Inr b)"
  shows "g_opts G b = o'" and "local_change o' (w_fs w) (w_fs w')"
    and "w_fs w' (opt_Dir o') \<noteq> None"
    and "colocated o' \<Longrightarrow> g_contents G b = disk G (w_fs w) (opt_Dir o')"
    and "vacant S (w_fs w) (opt_Dir o') \<Longrightarrow> vacant S (w_fs w) (opt_ValueDir o') \<Longrightarrow>
      g_contents G b = Map.empty"
  using assms by (auto simp: storage_ok_def open_ok_def badger_Open_def split: prod.splits)

lemma open_errD:
  assumes "storage_ok S G" and "badger_Open S o' w = (w', Inl e)"
  shows "local_change o' (w_fs w) (w_fs w')"
    and "colocated o' \<Longrightarrow> disk G (w_fs w') (opt_Dir o') = disk G (w_fs w) (opt_Dir o')"
proof -
  from assms(2) obtain fs' where "s_Open S (w_tick w) o' (w_fs w) = (fs', Inl e)" and "w_fs w' = fs'"
    by (auto simp: badger_Open_def split: prod.splits)
  with assms(1) show "local_change o' (w_fs w) (w_fs w')"
    and "colocated o' \<Longrightarrow> disk G (w_fs w') (opt_Dir o') = disk G (w_fs w) (opt_Dir o')"
    unfolding storage_ok_def open_ok_def by blast+
qed

lemma closeD:
  assumes "storage_ok S G" and "badger_Close S b w = (w', r)"
  shows "local_change (g_opts G b) (w_fs w) (w_fs w')"
    and "w_fs w (opt_Dir (g_opts G b)) \<noteq> None \<Longrightarrow> w_fs w' (opt_Dir (g_opts G b)) \<noteq> None"
    and "r = None \<Longrightarrow> colocated (g_opts G b) \<Longrightarrow>
           disk G (w_fs w') (opt_Dir (g_opts G b)) = g_contents G b"
  using assms by (auto simp: storage_ok_def close_ok_def badger_Close_def split: prod.splits)

lemma loadD:
  assumes "storage_ok S G" and "s_Load S b s n = (b', r)"
  shows "g_opts G b' = g_opts G b"
    and "r = None \<Longrightarrow> g_contents G b' = g_contents G b ++ g_stream G s"
  using assms by (auto simp: storage_ok_def load_ok_def)

lemma Open_fresh: "kill_ok S G \<Longrightarrow> badger_Open S o' w = (w', Inr b) \<Longrightarrow> g_past G b \<subseteq> {g_contents G b}"
  unfolding kill_ok_def badger_Open_def by (auto split: prod.splits)

lemma killD:
  assumes "kill_ok S G"
  shows "local_change (g_opts G b) fs (s_Kill S n b fs)"
    and "colocated (g_opts G b) \<Longrightarrow> disk G (s_Kill S n b fs) (opt_Dir (g_opts G b)) \<in> g_past G b"
  using assms unfolding kill_ok_def by blast+

section \<open>A reference instance\<close>

text \<open>
  A directory holds the store as a list; the stream is the store; nothing fails. The
  options' remainder is the unit type.
\<close>

definition ref_Open :: "nat \<Rightarrow> unit badger_options \<Rightarrow> ref_store fs \<Rightarrow> ref_store fs \<times> (gerror + ref_db)" where
  "ref_Open n o' fs =
     (let s = (case fs (opt_Dir o') of None \<Rightarrow> [] | Some s \<Rightarrow> s)
      in (fs(opt_Dir o' \<mapsto> s), Inr (o', s)))"

definition ref_storage :: "(ref_db, unit, ref_store, ref_store) storage_api" where
  "ref_storage =
     \<lparr>s_empty = [], s_Open = ref_Open,
      s_Close = (\<lambda>b fs. (fs(opt_Dir (fst b) \<mapsto> snd b), None)),
      s_Load = (\<lambda>b st n. ((fst b, st @ snd b), None)),
      s_Backup = (\<lambda>now b since. Inr (snd b)),
      s_Kill = (\<lambda>n b fs. fs(opt_Dir (fst b) \<mapsto> snd b))\<rparr>"

definition ref_storage_ghost :: "(ref_db, unit, ref_store, ref_store) storage_ghost" where
  "ref_storage_ghost =
     \<lparr>g_contents = (\<lambda>b. map_of (snd b)), g_opts = fst, g_image = map_of, g_stream = map_of,
      g_past = (\<lambda>b. {map_of (snd b)})\<rparr>"

lemma ref_storage_ok: "storage_ok ref_storage ref_storage_ghost"
  unfolding storage_ok_def open_ok_def close_ok_def load_ok_def
  by (auto simp: ref_storage_def ref_storage_ghost_def ref_Open_def disk_def local_change_def
      vacant_def Let_def map_of_append split: option.splits)

lemma ref_kill_ok: "kill_ok ref_storage ref_storage_ghost"
  by (auto simp: kill_ok_def ref_storage_def ref_storage_ghost_def disk_def ref_Open_def local_change_def Let_def)

lemma ref_backup_ok: "backup_ok ref_storage ref_storage_ghost"
  by (simp add: backup_ok_def ref_storage_def ref_storage_ghost_def)

definition no_faults :: "'d faults" where "no_faults = (\<lambda>n c. None)"

end
