(* ===== verification/Node.thy ===== *)
theory Node
  imports Storage
begin

text \<open>
  The \<open>DB\<close> struct of \<open>db.go\<close> and the accessors every operation goes through: \<open>checkOpen\<close>,
  \<open>withStore\<close>, \<open>closeStore\<close> and \<open>notLeaderErr\<close>; and the Raft operations the
  sources call, as a parameter (\<open>raft_api\<close>). A call into Raft may run the FSM on committed
  entries before it returns: its outcome lists them. Each API call is modelled as running
  alone but for those FSM applications; the locks around the store are the subject of
  \<open>Store_Lock\<close>.
\<close>

section \<open>Raft as a parameter\<close>

record raft_server =
  srv_Suffrage :: raft_suffrage
  srv_ID :: string
  srv_Address :: string

record raft_log =
  log_Index :: uint64
  log_Data :: bytes

text \<open>
  What a call that waits for Raft leaves: the Raft node, the entries its FSM goroutine was
  handed while the caller waited (for a successful apply up to and including the caller's
  own), and the future's error.
\<close>

record 'r raft_outcome =
  ro_raft :: 'r
  ro_logs :: "raft_log list"
  ro_err :: "gerror option"

text \<open>
  \<open>'r\<close> is the Raft node with its transport and log store. \<open>r_LeaderWithID\<close> returns the
  address, then the ID, as Raft does.
\<close>

record 'r raft_api =
  r_State :: "'r \<Rightarrow> raft_state"
  r_LeaderWithID :: "'r \<Rightarrow> string \<times> string"
  r_GetConfiguration :: "'r \<Rightarrow> gerror + raft_server list"
  r_Stats :: "'r \<Rightarrow> (string \<rightharpoonup> string)"
  r_LocalAddr :: "'r \<Rightarrow> string"
  r_Apply :: "'r \<Rightarrow> bytes \<Rightarrow> duration \<Rightarrow> 'r raft_outcome"
  r_Barrier :: "'r \<Rightarrow> duration \<Rightarrow> 'r raft_outcome"
  r_AddVoter :: "'r \<Rightarrow> string \<Rightarrow> string \<Rightarrow> nat \<Rightarrow> duration \<Rightarrow> 'r raft_outcome"
  r_RemoveServer :: "'r \<Rightarrow> string \<Rightarrow> nat \<Rightarrow> duration \<Rightarrow> 'r raft_outcome"
  r_Snapshot :: "'r \<Rightarrow> 'r raft_outcome"
  r_Shutdown :: "'r \<Rightarrow> 'r raft_outcome"
  r_TransportClose :: "'r \<Rightarrow> 'r \<times> gerror option"
  r_BoltClose :: "'r \<Rightarrow> 'r \<times> gerror option"

section \<open>The DB struct\<close>

text \<open>
  \<open>db_appliedIndex\<close> is the field of the one \<open>fsm\<close> the DB owns. \<open>db_logger\<close> holds the lines
  printed, oldest first. \<open>db_closeResult\<close> is \<open>closeOnce\<close> with \<open>closeErr\<close>: \<open>None\<close> until the
  first \<open>Close\<close> has run.
\<close>

record ('b, 'r, 'o) DB =
  db_cfg :: "'o Config"
  db_raft :: 'r
  db_store :: "'b option"
  db_appliedIndex :: uint64
  db_logger :: "gerror list"
  db_badgerOpts :: "'o badger_options"
  db_badgerDir :: path
  db_closed :: bool
  db_closeResult :: "gerror option option"

definition log_fsm :: "('b,'r,'o) DB \<Rightarrow> gerror \<Rightarrow> ('b,'r,'o) DB" where
  "log_fsm db err = db\<lparr>db_logger := db_logger db @ [Errorf ''fsm: %v'' [] err]\<rparr>"

definition checkOpen :: "('b,'r,'o) DB \<Rightarrow> gerror option" where
  "checkOpen db = (if db_closed db then Some (Sentinel ErrClosed) else None)"

definition withStore ::
    "('b,'r,'o) DB \<Rightarrow> ('b \<Rightarrow> 'b \<times> (gerror + 'a)) \<Rightarrow> ('b,'r,'o) DB \<times> (gerror + 'a)" where
  "withStore db fn =
     (case checkOpen db of
        Some e \<Rightarrow> (db, Inl e)
      | None \<Rightarrow>
          (case db_store db of
             None \<Rightarrow> (db, Inl (Sentinel ErrClosed))
           | Some b \<Rightarrow> let (b', r) = fn b in (db\<lparr>db_store := Some b'\<rparr>, r)))"

text \<open>Closing the store flushes it to its directories, which the world holds.\<close>

definition closeStore ::
    "('b,'o,'d,'s) storage_api \<Rightarrow> ('b,'r,'o) DB \<times> 'd world \<Rightarrow> (('b,'r,'o) DB \<times> 'd world) \<times> gerror option"
where
  "closeStore S dw =
     (let (db, w) = dw in
      case db_store db of
        None \<Rightarrow> ((db, w), None)
      | Some b \<Rightarrow>
          let (w', err) = badger_Close S b w in ((db\<lparr>db_store := None\<rparr>, w'), err))"

definition notLeaderErr :: "'r raft_api \<Rightarrow> ('b,'r,'o) DB \<Rightarrow> gerror" where
  "notLeaderErr R db =
     (let (leaderAddr, leaderID) = r_LeaderWithID R (db_raft db)
      in NotLeaderError leaderID leaderAddr)"

text \<open>The mapping of a Raft future's error every leader-only call shares.\<close>

definition raft_err :: "'r raft_api \<Rightarrow> ('b,'r,'o) DB \<Rightarrow> gerror \<Rightarrow> gerror" where
  "raft_err R db e = (if errors_is e Raft_ErrNotLeader then notLeaderErr R db else e)"

section \<open>Lemmas\<close>

lemma checkOpen_open [guard_simps]: "\<not> db_closed db \<Longrightarrow> checkOpen db = None"
  and checkOpen_closed [guard_simps]: "db_closed db \<Longrightarrow> checkOpen db = Some (Sentinel ErrClosed)"
  by (simp_all add: checkOpen_def)

lemma withStore_open [guard_simps]:
  "\<not> db_closed db \<Longrightarrow> db_store db = Some b \<Longrightarrow>
     withStore db fn = (db\<lparr>db_store := Some (fst (fn b))\<rparr>, snd (fn b))"
  by (simp add: withStore_def checkOpen_def split: prod.split)

lemma withStore_unavailable [guard_simps]:
  "db_closed db \<or> db_store db = None \<Longrightarrow> withStore db fn = (db, Inl (Sentinel ErrClosed))"
  by (auto simp: withStore_def checkOpen_def)

lemma withStore_cases:
  obtains (unavailable) "db_closed db \<or> db_store db = None"
      "withStore db fn = (db, Inl (Sentinel ErrClosed))"
  | (available) b where "\<not> db_closed db" "db_store db = Some b"
      "withStore db fn = (db\<lparr>db_store := Some (fst (fn b))\<rparr>, snd (fn b))"
  by (cases "db_closed db"; cases "db_store db") (auto simp: guard_simps)

text \<open>A callback that changes nothing leaves the node as it was.\<close>

lemma withStore_read:
  "fst (withStore db (\<lambda>b. (b, f b))) = db"
  by (cases rule: withStore_cases [of db "\<lambda>b. (b, f b)"]) simp_all

lemma log_fsm_frame [frame_simps]:
  "db_cfg (log_fsm db e) = db_cfg db" "db_raft (log_fsm db e) = db_raft db"
  "db_store (log_fsm db e) = db_store db" "db_appliedIndex (log_fsm db e) = db_appliedIndex db"
  "db_badgerOpts (log_fsm db e) = db_badgerOpts db" "db_badgerDir (log_fsm db e) = db_badgerDir db"
  "db_closed (log_fsm db e) = db_closed db" "db_closeResult (log_fsm db e) = db_closeResult db"
  by (simp_all add: log_fsm_def)

lemma notLeaderErr_is [simp]: "errors_is (notLeaderErr R db) s \<longleftrightarrow> s = ErrNotLeader"
  by (simp add: notLeaderErr_def split: prod.split)

lemma notLeaderErr_as:
  "errors_as_NotLeader (notLeaderErr R db) =
     Some (snd (r_LeaderWithID R (db_raft db)), fst (r_LeaderWithID R (db_raft db)))"
  by (simp add: notLeaderErr_def split: prod.split)

section \<open>Calls that need the leader\<close>

text \<open>
  The contract shared by every call that goes through Raft: with bad arguments it fails with
  \<open>ErrInvalidArgument\<close>, then on a closed node with \<open>ErrClosed\<close>, then on an open one that does
  not lead with a \<open>*NotLeaderError\<close> naming the leader; none of these changes the node.
\<close>

locale leader_call =
  fixes R :: "'r raft_api"
    and ok :: bool
    and call :: "('b,'r,'o) DB \<Rightarrow> ('b,'r,'o) DB \<times> gerror option"
  assumes invalid: "\<not> ok \<Longrightarrow> \<exists>e. call db = (db, Some e) \<and> errors_is e ErrInvalidArgument"
    and closed: "ok \<Longrightarrow> db_closed db \<Longrightarrow> call db = (db, Some (Sentinel ErrClosed))"
    and follower: "ok \<Longrightarrow> \<not> db_closed db \<Longrightarrow> r_State R (db_raft db) \<noteq> RS_Leader \<Longrightarrow>
      call db = (db, Some (notLeaderErr R db))"
begin

lemma success_leads:
  assumes "call db = (db', None)"
  shows "ok \<and> \<not> db_closed db \<and> r_State R (db_raft db) = RS_Leader"
  using assms invalid [of db] closed [of db] follower [of db] by fastforce

lemma refused:
  assumes "\<not> ok \<or> db_closed db \<or> r_State R (db_raft db) \<noteq> RS_Leader"
  obtains e where "call db = (db, Some e)" and "\<not> ok \<Longrightarrow> errors_is e ErrInvalidArgument"
    and "ok \<Longrightarrow> db_closed db \<Longrightarrow> e = Sentinel ErrClosed"
    and "ok \<Longrightarrow> \<not> db_closed db \<Longrightarrow> e = notLeaderErr R db"
  using assms invalid [of db] closed [of db] follower [of db] by metis

lemma redirect:
  assumes "ok" and "\<not> db_closed db" and "r_State R (db_raft db) \<noteq> RS_Leader"
  shows "\<exists>e. call db = (db, Some e) \<and> errors_is e ErrNotLeader \<and>
     errors_as_NotLeader e =
       Some (snd (r_LeaderWithID R (db_raft db)), fst (r_LeaderWithID R (db_raft db)))"
  using follower [OF assms] by (simp add: notLeaderErr_as)

end

section \<open>A reference cluster of one node\<close>

text \<open>
  A Raft node that knows its state, the leader, the servers and the index of its last
  entry; what it accepts is applied at once.
\<close>

record ref_raft_node =
  rn_State :: raft_state
  rn_Leader :: "string \<times> string"
  rn_Servers :: "raft_server list"
  rn_Last :: nat

definition ref_submit :: "ref_raft_node \<Rightarrow> (nat \<Rightarrow> ref_raft_node \<times> raft_log list) \<Rightarrow> ref_raft_node raft_outcome" where
  "ref_submit r f =
     (if rn_State r = RS_Leader then
        (case f (Suc (rn_Last r)) of
           (r', ls) \<Rightarrow> \<lparr>ro_raft = r'\<lparr>rn_Last := Suc (rn_Last r)\<rparr>, ro_logs = ls, ro_err = None\<rparr>)
      else \<lparr>ro_raft = r, ro_logs = [], ro_err = Some (Sentinel Raft_ErrNotLeader)\<rparr>)"

definition ref_raft :: "ref_raft_node raft_api" where
  "ref_raft =
     \<lparr>r_State = rn_State, r_LeaderWithID = rn_Leader,
      r_GetConfiguration = (\<lambda>r. Inr (rn_Servers r)), r_Stats = (\<lambda>r. Map.empty),
      r_LocalAddr = (\<lambda>r. ''127.0.0.1:7001''),
      r_Apply = (\<lambda>r data t. ref_submit r (\<lambda>i. (r, [\<lparr>log_Index = of_nat i, log_Data = data\<rparr>]))),
      r_Barrier = (\<lambda>r t. ref_submit r (\<lambda>i. (r, []))),
      r_AddVoter = (\<lambda>r i a prev t. ref_submit r (\<lambda>n.
        (r\<lparr>rn_Servers := rn_Servers r @ [\<lparr>srv_Suffrage = RV_Voter, srv_ID = i, srv_Address = a\<rparr>]\<rparr>, []))),
      r_RemoveServer = (\<lambda>r i prev t. ref_submit r (\<lambda>n.
        (r\<lparr>rn_Servers := filter (\<lambda>s. srv_ID s \<noteq> i) (rn_Servers r)\<rparr>, []))),
      r_Snapshot = (\<lambda>r. \<lparr>ro_raft = r, ro_logs = [], ro_err = None\<rparr>),
      r_Shutdown = (\<lambda>r. \<lparr>ro_raft = r\<lparr>rn_State := RS_Shutdown, rn_Leader := ([], [])\<rparr>,
        ro_logs = [], ro_err = None\<rparr>),
      r_TransportClose = (\<lambda>r. (r, None)), r_BoltClose = (\<lambda>r. (r, None))\<rparr>"

definition sample_leader :: ref_raft_node where
  "sample_leader =
     \<lparr>rn_State = RS_Leader, rn_Leader = (''127.0.0.1:7001'', ''n1''),
      rn_Servers = [\<lparr>srv_Suffrage = RV_Voter, srv_ID = ''n1'', srv_Address = ''127.0.0.1:7001''\<rparr>],
      rn_Last = 1\<rparr>"

definition sample_config :: "unit Config" where
  "sample_config = setDefaults
     \<lparr>cfg_NodeID = ''n1'', cfg_RaftBind = ''127.0.0.1:7001'', cfg_DataDir = ''/d'',
      cfg_Advanced = \<lparr>adv_ApplyTimeout = 0, adv_SnapshotThreshold = 0, adv_RaftAdvertise = [],
        adv_BadgerOptions = None, adv_LogOutput = None\<rparr>\<rparr>"

definition sample_options :: "unit badger_options" where
  "sample_options = \<lparr>opt_Dir = ''/d/badger'', opt_ValueDir = ''/d/badger'', opt_rest = ()\<rparr>"

text \<open>An open node over the reference instances, with a given store and Raft node.\<close>

definition sample_node :: "ref_store \<Rightarrow> ref_raft_node \<Rightarrow> (ref_db, ref_raft_node, unit) DB" where
  "sample_node s r =
     \<lparr>db_cfg = sample_config, db_raft = r, db_store = Some (sample_options, s), db_appliedIndex = 0,
      db_logger = [], db_badgerOpts = sample_options, db_badgerDir = ''/d/badger'',
      db_closed = False, db_closeResult = None\<rparr>"

lemma sample_node_fields [simp]:
  "db_cfg (sample_node s r) = sample_config" "db_raft (sample_node s r) = r"
  "db_store (sample_node s r) = Some (sample_options, s)" "db_appliedIndex (sample_node s r) = 0"
  "db_badgerOpts (sample_node s r) = sample_options" "db_badgerDir (sample_node s r) = ''/d/badger''"
  "db_closed (sample_node s r) = False" "db_closeResult (sample_node s r) = None"
  "db_logger (sample_node s r) = []"
  by (simp_all add: sample_node_def)

lemma sample_leader_fields [simp]:
  "rn_State sample_leader = RS_Leader" "r_State ref_raft sample_leader = RS_Leader"
  "rn_Leader sample_leader = (''127.0.0.1:7001'', ''n1'')"
  by (simp_all add: sample_leader_def ref_raft_def)

end
