(* ===== verification/FSM.thy ===== *)
theory FSM
  imports Node
begin

text \<open>
  \<open>fsm.Apply\<close> of \<open>fsm.go\<close>: one committed log entry, decoded and executed in one Badger
  transaction, and the run of the FSM over a sequence of entries. Its specification is
  \<open>apply_command\<close>, a function on the abstract key-value map; \<open>Apply\<close> refines it. Commands
  are blind writes: locale \<open>blind_writes\<close> derives from that alone that replaying a part of
  the log over a later state ends in the same state, which is what snapshots rely on.
\<close>

section \<open>Apply\<close>

text \<open>The two loops inside the transaction; the first error ends it.\<close>

definition pair_entry :: "commandPair \<Rightarrow> bentry" where
  "pair_entry p =
     \<lparr>be_Key = cp_Key p, be_Value = cp_Value p,
      be_ExpiresAt = (if cp_ExpiresAtUnix p > 0 then Some (cp_ExpiresAtUnix p) else None)\<rparr>"

fun txn_sets :: "('b,'t,'v,'i,'m) badger_api \<Rightarrow> commandPair list \<Rightarrow> 't \<Rightarrow> gerror + 't" where
  "txn_sets B [] txn = Inr txn"
| "txn_sets B (p # ps) txn =
     (case t_SetEntry B txn (pair_entry p) of Inl e \<Rightarrow> Inl e | Inr txn' \<Rightarrow> txn_sets B ps txn')"

fun txn_deletes :: "('b,'t,'v,'i,'m) badger_api \<Rightarrow> bytes list \<Rightarrow> 't \<Rightarrow> gerror + 't" where
  "txn_deletes B [] txn = Inr txn"
| "txn_deletes B (key # keys) txn =
     (case t_Delete B txn key of Inl e \<Rightarrow> Inl e | Inr txn' \<Rightarrow> txn_deletes B keys txn')"

definition command_txn :: "('b,'t,'v,'i,'m) badger_api \<Rightarrow> command \<Rightarrow> 't \<Rightarrow> gerror + 't" where
  "command_txn B cmd txn =
     (case txn_sets B (cmd_Pairs cmd) txn of
        Inl e \<Rightarrow> Inl e
      | Inr txn' \<Rightarrow> txn_deletes B (cmd_Deletes cmd) txn')"

text \<open>The two wrapped errors, with the entry's index.\<close>

definition decode_error :: "raft_log \<Rightarrow> gerror \<Rightarrow> gerror" where
  "decode_error log e =
     Errorf ''honeybadger: decode command at index %d: %w'' [FInt (uint (log_Index log))] e"

definition apply_error :: "raft_log \<Rightarrow> gerror \<Rightarrow> gerror" where
  "apply_error log e =
     Errorf ''honeybadger: apply command at index %d: %w'' [FInt (uint (log_Index log))] e"

lemma errors_is_wrapped [simp]:
  "errors_is (decode_error l e) s = errors_is e s"
  "errors_is (apply_error l e) s = errors_is e s"
  by (simp_all add: decode_error_def apply_error_def)

definition fsm_Apply ::
    "('b,'t,'v,'i,'m) badger_api \<Rightarrow> ('b,'r,'o) DB \<Rightarrow> raft_log \<Rightarrow> ('b,'r,'o) DB \<times> gerror option" where
  "fsm_Apply B db log =
     (case decodeCommand (log_Data log) of
        Inl e \<Rightarrow>
          let err = decode_error log e in (log_fsm db err, Some err)
      | Inr cmd \<Rightarrow>
          let (db', r) = withStore db (\<lambda>b.
                let (b', e) = b_Update B b (command_txn B cmd) in (b', of_err e))
          in (case r of
                Inl e \<Rightarrow>
                  let err = apply_error log e
                  in (if \<not> errors_is err ErrClosed then log_fsm db' err else db', Some err)
              | Inr _ \<Rightarrow> (db'\<lparr>db_appliedIndex := log_Index log\<rparr>, None)))"

text \<open>The FSM goroutine over consecutive entries, with the response of each.\<close>

fun fsm_run ::
    "('b,'t,'v,'i,'m) badger_api \<Rightarrow> ('b,'r,'o) DB \<Rightarrow> raft_log list \<Rightarrow>
     ('b,'r,'o) DB \<times> gerror option list" where
  "fsm_run B db [] = (db, [])"
| "fsm_run B db (l # ls) =
     (let (db1, r) = fsm_Apply B db l; (db2, rs) = fsm_run B db1 ls in (db2, r # rs))"

section \<open>The specification of a command\<close>

definition apply_pairs :: "commandPair list \<Rightarrow> kv \<Rightarrow> kv" where
  "apply_pairs ps m = fold (\<lambda>p m. m(cp_Key p \<mapsto> (cp_Value p, cp_ExpiresAtUnix p))) ps m"

definition apply_deletes :: "bytes list \<Rightarrow> kv \<Rightarrow> kv" where
  "apply_deletes ks m = fold (\<lambda>k m. m(k := None)) ks m"

definition apply_command :: "command \<Rightarrow> kv \<Rightarrow> kv" where
  "apply_command c m = apply_deletes (cmd_Deletes c) (apply_pairs (cmd_Pairs c) m)"

text \<open>
  A command's effect on one key: none, or the entry (or absence) it leaves there whatever
  was there before.
\<close>

definition pair_effect :: "commandPair list \<Rightarrow> bytes \<Rightarrow> (bytes \<times> uint64) option" where
  "pair_effect ps k =
     (case find (\<lambda>p. cp_Key p = k) (rev ps) of
        None \<Rightarrow> None | Some p \<Rightarrow> Some (cp_Value p, cp_ExpiresAtUnix p))"

definition effect :: "command \<Rightarrow> writes" where
  "effect c k =
     (if k \<in> set (cmd_Deletes c) then Some None
      else (case pair_effect (cmd_Pairs c) k of None \<Rightarrow> None | Some x \<Rightarrow> Some (Some x)))"

lemma apply_pairs_effect:
  "apply_pairs ps m k = (case pair_effect ps k of None \<Rightarrow> m k | Some x \<Rightarrow> Some x)"
  by (induction ps arbitrary: m rule: rev_induct)
    (auto simp: apply_pairs_def pair_effect_def)

lemma find_append: "find P (xs @ ys) = (case find P xs of None \<Rightarrow> find P ys | Some x \<Rightarrow> Some x)"
  by (induction xs) auto

lemma apply_deletes_effect: "apply_deletes ks m k = (if k \<in> set ks then None else m k)"
  by (induction ks arbitrary: m) (auto simp: apply_deletes_def)

lemma apply_command_effect: "apply_command c m = apply_writes (effect c) m"
  by (rule ext)
    (simp add: apply_command_def apply_deletes_effect apply_pairs_effect apply_writes_def
      effect_def split: option.split)

section \<open>A transaction buffers the command's effect\<close>

lemma txn_sets_writes:
  assumes "update_ok B G" and "txn_sets B ps t = Inr t'"
  shows "writes_of G t' = (\<lambda>k. case pair_effect ps k of None \<Rightarrow> writes_of G t k | Some x \<Rightarrow> Some (Some x))"
  using assms(2)
proof (induction ps arbitrary: t)
  case Nil
  then show ?case by (simp add: pair_effect_def)
next
  case (Cons p ps)
  then obtain t1 where t1: "t_SetEntry B t (pair_entry p) = Inr t1" and rest: "txn_sets B ps t1 = Inr t'"
    by (auto split: sum.splits)
  have x: "(case be_ExpiresAt (pair_entry p) of None \<Rightarrow> 0 | Some x \<Rightarrow> x) = cp_ExpiresAtUnix p"
    by (simp add: pair_entry_def word_gt_0)
  have "writes_of G t1 = (writes_of G t)(cp_Key p \<mapsto> Some (cp_Value p, cp_ExpiresAtUnix p))"
    using txn_set [OF assms(1) t1] x by (simp add: pair_entry_def)
  moreover have "pair_effect (p # ps) k =
      (case pair_effect ps k of
         None \<Rightarrow> if cp_Key p = k then Some (cp_Value p, cp_ExpiresAtUnix p) else None
       | Some x \<Rightarrow> Some x)" for k
    by (auto simp: pair_effect_def find_append split: option.split)
  ultimately show ?case
    using Cons.IH [OF rest] by (auto simp: fun_eq_iff split: option.split)
qed

lemma txn_deletes_writes:
  assumes "update_ok B G" and "txn_deletes B ks t = Inr t'"
  shows "writes_of G t' = (\<lambda>k. if k \<in> set ks then Some None else writes_of G t k)"
  using assms(2)
proof (induction ks arbitrary: t)
  case (Cons key ks)
  then obtain t1 where t1: "t_Delete B t key = Inr t1" and rest: "txn_deletes B ks t1 = Inr t'"
    by (auto split: sum.splits)
  from Cons.IH [OF rest] txn_delete [OF assms(1) t1] show ?case by (auto simp: fun_eq_iff)
qed auto

lemma command_txn_writes:
  assumes "update_ok B G" and "command_txn B cmd (begin_txn G b) = Inr t"
  shows "writes_of G t = effect cmd"
proof -
  from assms(2) obtain t1 where s: "txn_sets B (cmd_Pairs cmd) (begin_txn G b) = Inr t1"
    and d: "txn_deletes B (cmd_Deletes cmd) t1 = Inr t"
    by (auto simp: command_txn_def split: sum.splits)
  from txn_deletes_writes [OF assms(1) d] txn_sets_writes [OF assms(1) s] txn_begin [OF assms(1), of b]
  show ?thesis by (auto simp: effect_def fun_eq_iff split: option.split)
qed

section \<open>Apply refines its specification\<close>

definition node_contents :: "('b,'t,'v,'i,'m) badger_ghost \<Rightarrow> ('b,'r,'o) DB \<Rightarrow> kv option" where
  "node_contents G db = map_option (contents G) (db_store db)"

text \<open>Apply fails on an entry that does not decode, or when the store or Badger refuses.\<close>

lemma fsm_Apply_cases:
  obtains (undecodable) e where "decodeCommand (log_Data l) = Inl e"
      "fsm_Apply B db l = (log_fsm db (decode_error l e), Some (decode_error l e))"
  | (unavailable) c where "decodeCommand (log_Data l) = Inr c" "db_closed db \<or> db_store db = None"
      "fsm_Apply B db l = (db, Some (apply_error l (Sentinel ErrClosed)))"
  | (failed_silent) c b b' e where "decodeCommand (log_Data l) = Inr c" "\<not> db_closed db"
      "db_store db = Some b" "b_Update B b (command_txn B c) = (b', Some e)" "errors_is e ErrClosed"
      "fsm_Apply B db l = (db\<lparr>db_store := Some b'\<rparr>, Some (apply_error l e))"
  | (failed) c b b' e where "decodeCommand (log_Data l) = Inr c" "\<not> db_closed db"
      "db_store db = Some b" "b_Update B b (command_txn B c) = (b', Some e)" "\<not> errors_is e ErrClosed"
      "fsm_Apply B db l =
         (log_fsm (db\<lparr>db_store := Some b'\<rparr>) (apply_error l e), Some (apply_error l e))"
  | (applied) c b b' where "decodeCommand (log_Data l) = Inr c" "\<not> db_closed db"
      "db_store db = Some b" "b_Update B b (command_txn B c) = (b', None)"
      "fsm_Apply B db l = (db\<lparr>db_store := Some b', db_appliedIndex := log_Index l\<rparr>, None)"
proof (cases "decodeCommand (log_Data l)")
  case (Inl e)
  then show ?thesis by (intro undecodable) (simp_all add: fsm_Apply_def Let_def)
next
  case (Inr c)
  show ?thesis
  proof (cases "db_closed db \<or> db_store db = None")
    case True
    with Inr show ?thesis
      by (intro unavailable) (simp_all add: fsm_Apply_def withStore_unavailable Let_def)
  next
    case False
    then obtain b where b: "\<not> db_closed db" "db_store db = Some b" by auto
    obtain b' r where u: "b_Update B b (command_txn B c) = (b', r)" by fastforce
    show ?thesis
    proof (cases r)
      case None
      with Inr b u show ?thesis
        by (intro applied) (simp_all add: fsm_Apply_def withStore_open Let_def)
    next
      case (Some e)
      with Inr b u show ?thesis
        by (cases "errors_is e ErrClosed"; intro failed_silent failed)
          (simp_all add: fsm_Apply_def withStore_open Let_def)
    qed
  qed
qed

lemma fsm_Apply_frame:
  assumes "fsm_Apply B db l = (db', r)"
  shows "db_closed db' = db_closed db" "db_cfg db' = db_cfg db" "db_raft db' = db_raft db"
    "db_badgerOpts db' = db_badgerOpts db" "db_badgerDir db' = db_badgerDir db"
    "db_closeResult db' = db_closeResult db" "(db_store db' = None) = (db_store db = None)"
  by (cases rule: fsm_Apply_cases [of l B db]; use assms in \<open>clarsimp simp: frame_simps\<close>)+

lemma fsm_Apply_appliedIndex:
  "fsm_Apply B db l = (db', r) \<Longrightarrow>
     db_appliedIndex db' = (if r = None then log_Index l else db_appliedIndex db)"
  by (cases rule: fsm_Apply_cases [of l B db]) (clarsimp simp: frame_simps)+

lemma fsm_Apply_error:
  assumes "update_ok B G" and "fsm_Apply B db l = (db', Some e)"
  shows "node_contents G db' = node_contents G db"
  using assms(2)
  by (cases rule: fsm_Apply_cases [of l B db])
    (auto simp: frame_simps node_contents_def dest: update_ok_err [OF assms(1)] split: if_splits)

lemma fsm_Apply_success:
  assumes "update_ok B G" and "fsm_Apply B db l = (db', None)"
  obtains c where "decodeCommand (log_Data l) = Inr c" and "\<not> db_closed db" and "db_store db \<noteq> None"
    and "node_contents G db' = map_option (apply_command c) (node_contents G db)"
  using assms(2)
proof (cases rule: fsm_Apply_cases [of l B db])
  case (applied c b b')
  from applied(4) obtain t where "command_txn B c (begin_txn G b) = Inr t"
    and "contents G b' = apply_writes (writes_of G t) (contents G b)"
    by (rule update_ok_commit [OF assms(1)])
  then have "contents G b' = apply_command c (contents G b)"
    using command_txn_writes [OF assms(1)] by (simp add: apply_command_effect)
  with applied assms(2) show ?thesis
    by (intro that [of c]) (auto simp: node_contents_def)
qed auto

lemma fsm_Apply_committed:
  assumes "fsm_Apply B db l = (db', None)" and "decodeCommand (log_Data l) = Inr c"
  shows "\<exists>b b'. b_Update B b (command_txn B c) = (b', None)"
  by (cases rule: fsm_Apply_cases [of l B db]; use assms in auto)

section \<open>Runs of the FSM\<close>

text \<open>The commands of a run that took effect: those whose response was nil.\<close>

fun effective :: "raft_log list \<Rightarrow> gerror option list \<Rightarrow> command list" where
  "effective (l # ls) (r # rs) =
     (case decodeCommand (log_Data l) of
        Inr c \<Rightarrow> if r = None then c # effective ls rs else effective ls rs
      | Inl e \<Rightarrow> effective ls rs)"
| "effective _ _ = []"

lemma length_fsm_run: "fsm_run B db ls = (db', rs) \<Longrightarrow> length rs = length ls"
  by (induction ls arbitrary: db db' rs) (auto split: prod.splits)

lemma fsm_run_frame:
  assumes "fsm_run B db ls = (db', rs)"
  shows "db_closed db' = db_closed db" "db_cfg db' = db_cfg db" "db_raft db' = db_raft db"
    "db_badgerOpts db' = db_badgerOpts db" "db_badgerDir db' = db_badgerDir db"
    "db_closeResult db' = db_closeResult db" "(db_store db' = None) = (db_store db = None)"
  using assms
  by (induction ls arbitrary: db db' rs; fastforce split: prod.splits dest: fsm_Apply_frame)+

lemma fsm_run_contents:
  "update_ok B G \<Longrightarrow> fsm_run B db ls = (db', rs) \<Longrightarrow>
     node_contents G db' = map_option (fold apply_command (effective ls rs)) (node_contents G db)"
proof (induction ls arbitrary: db db' rs)
  case Nil
  then show ?case by (simp add: option.map_id0 [unfolded id_def] id_def)
next
  case (Cons l ls)
  then obtain db1 r rs' where one: "fsm_Apply B db l = (db1, r)"
    and more: "fsm_run B db1 ls = (db', rs')" and rs: "rs = r # rs'"
    by (auto split: prod.splits)
  have IH: "node_contents G db' = map_option (fold apply_command (effective ls rs')) (node_contents G db1)"
    using Cons.IH [OF Cons.prems(1) more] .
  show ?case
  proof (cases r)
    case None
    with one fsm_Apply_success [OF Cons.prems(1)] obtain c where
      "decodeCommand (log_Data l) = Inr c"
      "node_contents G db1 = map_option (apply_command c) (node_contents G db)" by metis
    with IH None rs show ?thesis by (simp add: option.map_comp comp_def)
  next
    case (Some e)
    with one fsm_Apply_error [OF Cons.prems(1)] have "node_contents G db1 = node_contents G db" by blast
    with IH Some rs show ?thesis by (simp split: sum.split)
  qed
qed

lemma fsm_run_append:
  "fsm_run B db (xs @ ys) =
     (let (db1, rs) = fsm_run B db xs; (db2, rs') = fsm_run B db1 ys in (db2, rs @ rs'))"
  by (induction xs arbitrary: db) (auto simp: Let_def split: prod.splits)

lemma effective_append:
  "length rs = length xs \<Longrightarrow> effective (xs @ ys) (rs @ rs') = effective xs rs @ effective ys rs'"
  by (induction xs rs rule: effective.induct) (auto split: sum.splits)

lemma effective_all:
  "length rs = length ls \<Longrightarrow> \<forall>r \<in> set rs. r = None \<Longrightarrow> map (\<lambda>l. decodeCommand (log_Data l)) ls = map Inr cs \<Longrightarrow>
     effective ls rs = cs"
  by (induction ls rs arbitrary: cs rule: effective.induct) auto

section \<open>Blind writes converge under replay\<close>

text \<open>
  The interface snapshots need from commands: on each key a command either leaves the value
  or sets one that does not depend on the state.
\<close>

fun last_effect :: "('c \<Rightarrow> 'k \<Rightarrow> 'v option) \<Rightarrow> 'c list \<Rightarrow> 'k \<Rightarrow> 'v option" where
  "last_effect eff [] k = None"
| "last_effect eff (c # cs) k =
     (case last_effect eff cs k of None \<Rightarrow> eff c k | Some x \<Rightarrow> Some x)"

lemma last_effect_append:
  "last_effect eff (xs @ ys) k =
     (case last_effect eff ys k of None \<Rightarrow> last_effect eff xs k | Some x \<Rightarrow> Some x)"
  by (induction xs) (auto split: option.splits)

locale blind_writes =
  fixes step :: "'c \<Rightarrow> ('k \<Rightarrow> 'v) \<Rightarrow> ('k \<Rightarrow> 'v)"
    and eff :: "'c \<Rightarrow> 'k \<Rightarrow> 'v option"
  assumes blind: "step c m k = (case eff c k of None \<Rightarrow> m k | Some x \<Rightarrow> x)"
begin

lemma run_eff: "fold step cs m k = (case last_effect eff cs k of None \<Rightarrow> m k | Some x \<Rightarrow> x)"
  by (induction cs arbitrary: m) (auto simp: blind split: option.splits)

text \<open>A suffix replayed over any state that already contains a part of it.\<close>

lemma replay_overlap:
  "fold step (ys @ zs) (fold step (xs @ ys) m) = fold step (xs @ ys @ zs) m"
  by (rule ext) (auto simp: run_eff last_effect_append split: option.splits)

lemma replay_index:
  assumes "i \<le> j"
  shows "fold step (drop i log) (fold step (take j log) m) = fold step log m"
proof -
  have t: "take j log = take i log @ drop i (take j log)"
    using assms by (metis append_take_drop_id min.absorb1 take_take)
  have d: "drop i log = drop i (take j log) @ drop j log"
    using assms by (metis append_take_drop_id drop_append drop_take le_add_diff_inverse2 drop_drop)
  have l: "log = take i log @ drop i (take j log) @ drop j log"
    by (metis d append_take_drop_id)
  show ?thesis
    using replay_overlap [of "drop i (take j log)" "drop j log" "take i log" m] t d l by simp
qed

lemma run_idem: "fold step cs (fold step cs m) = fold step cs m"
  using replay_overlap [of cs "[]" "[]" m] by simp

text \<open>A pointwise relation that holds between equals survives a run.\<close>

lemma run_rel:
  assumes "\<And>x. R x x" and "\<And>k. R (m k) (m' k)"
  shows "R (fold step cs m k) (fold step cs m' k)"
  using assms by (auto simp: run_eff split: option.split)

end

interpretation cmds: blind_writes apply_command effect
  by unfold_locales (simp add: apply_command_effect apply_writes_def)

lemma same_from_run:
  assumes "same_from t m m'"
  shows "same_from t (fold apply_command cs m) (fold apply_command cs m')"
proof -
  define R :: "(bytes \<times> uint64) option \<Rightarrow> (bytes \<times> uint64) option \<Rightarrow> bool" where
    "R a b \<longleftrightarrow> (\<forall>now \<ge> t. live now (\<lambda>_::bytes. a) [] = live now (\<lambda>_::bytes. b) [])" for a b
  have "live now f k = live now (\<lambda>_. f k) []" for now k and f :: kv
    by (simp add: live_def)
  then have eq: "same_from t f g \<longleftrightarrow> (\<forall>k. R (f k) (g k))" for f g :: kv
    by (auto simp: same_from_def R_def fun_eq_iff)
  have "R x x" for x by (simp add: R_def)
  with assms cmds.run_rel [of R m m'] show ?thesis by (simp add: eq)
qed

end
