(* ===== verification/Write.thy ===== *)
theory Write
  imports FSM
begin

text \<open>
  The write path: \<open>DB.apply\<close> of \<open>db.go\<close> and \<open>write.go\<close>. A write is validated, encoded, given
  to Raft, and applied by the FSM before the call returns. A batch is checked and split into
  the sets and the deletes of one command; its specification runs the mutations in the order
  they were given.
\<close>

section \<open>apply\<close>

text \<open>
  The future's response is what the FSM returned for the caller's own entry, the last one
  delivered.
\<close>

definition DB_apply ::
    "('b,'t,'v,'i,'m) badger_api \<Rightarrow> 'r raft_api \<Rightarrow> gob_registry \<Rightarrow> ('b,'r,'o) DB \<Rightarrow> command \<Rightarrow>
     ('b,'r,'o) DB \<times> gerror option" where
  "DB_apply B R reg db cmd =
     (case checkOpen db of
        Some e \<Rightarrow> (db, Some e)
      | None \<Rightarrow>
          if r_State R (db_raft db) \<noteq> RS_Leader then (db, Some (notLeaderErr R db))
          else (case encodeCommand reg cmd of
                  Inl e \<Rightarrow> (db, Some e)
                | Inr data \<Rightarrow>
                    let out = r_Apply R (db_raft db) data (adv_ApplyTimeout (cfg_Advanced (db_cfg db)));
                        (db', resps) = fsm_run B (db\<lparr>db_raft := ro_raft out\<rparr>) (ro_logs out)
                    in (case ro_err out of
                          Some e \<Rightarrow> (db', Some (raft_err R db' e))
                        | None \<Rightarrow> (db', if resps = [] then None else last resps))))"

section \<open>Single writes\<close>

definition empty_key_error :: gerror where
  "empty_key_error = Errorf ''%w: key must not be empty'' [] (Sentinel ErrInvalidArgument)"

definition SetBytes ::
    "('b,'t,'v,'i,'m) badger_api \<Rightarrow> 'r raft_api \<Rightarrow> gob_registry \<Rightarrow> time \<Rightarrow> ('b,'r,'o) DB \<Rightarrow>
     bytes \<Rightarrow> bytes \<Rightarrow> SetOption list \<Rightarrow> ('b,'r,'o) DB \<times> gerror option" where
  "SetBytes B R reg now db key value opts =
     (if key = [] then (db, Some empty_key_error)
      else (case resolveSetOptions now opts of
              Inl e \<Rightarrow> (db, Some e)
            | Inr expiresAt \<Rightarrow>
                DB_apply B R reg db
                  \<lparr>cmd_Pairs = [\<lparr>cp_Key = key, cp_Value = value, cp_ExpiresAtUnix = expiresAt\<rparr>],
                   cmd_Deletes = []\<rparr>))"

definition DB_Set ::
    "('b,'t,'v,'i,'m) badger_api \<Rightarrow> 'r raft_api \<Rightarrow> gob_registry \<Rightarrow> time \<Rightarrow> ('b,'r,'o) DB \<Rightarrow>
     string \<Rightarrow> string \<Rightarrow> SetOption list \<Rightarrow> ('b,'r,'o) DB \<times> gerror option" where
  "DB_Set B R reg now db key value opts = SetBytes B R reg now db (bytes_of key) (bytes_of value) opts"

definition DeleteBytes ::
    "('b,'t,'v,'i,'m) badger_api \<Rightarrow> 'r raft_api \<Rightarrow> gob_registry \<Rightarrow> ('b,'r,'o) DB \<Rightarrow> bytes \<Rightarrow>
     ('b,'r,'o) DB \<times> gerror option" where
  "DeleteBytes B R reg db key =
     (if key = [] then (db, Some empty_key_error)
      else DB_apply B R reg db \<lparr>cmd_Pairs = [], cmd_Deletes = [key]\<rparr>)"

definition DB_Delete ::
    "('b,'t,'v,'i,'m) badger_api \<Rightarrow> 'r raft_api \<Rightarrow> gob_registry \<Rightarrow> ('b,'r,'o) DB \<Rightarrow> string \<Rightarrow>
     ('b,'r,'o) DB \<times> gerror option" where
  "DB_Delete B R reg db key = DeleteBytes B R reg db (bytes_of key)"

section \<open>Batches\<close>

text \<open>
  The loop of \<open>Batch\<close>: \<open>i\<close> is the position, \<open>seen\<close> the keys so far, and each set reads
  the clock anew. The first offence ends it.
\<close>

fun batch_loop ::
    "(nat \<Rightarrow> time) \<Rightarrow> nat \<Rightarrow> bytes set \<Rightarrow> commandPair list \<Rightarrow> bytes list \<Rightarrow> Mutation list \<Rightarrow>
     gerror + command" where
  "batch_loop clock i seen setPairs deleteKeys [] =
     Inr \<lparr>cmd_Pairs = setPairs, cmd_Deletes = deleteKeys\<rparr>"
| "batch_loop clock i seen setPairs deleteKeys (m # ms) =
     (if mut_key m = [] then
        Inl (Errorf ''%w: batch mutation %d: key must not be empty'' [FInt (int i)]
               (Sentinel ErrInvalidArgument))
      else if mut_key m \<in> seen then
        Inl (Errorf ''%w: batch mutation %d: duplicate key %q'' [FInt (int i), FBytes (mut_key m)]
               (Sentinel ErrInvalidArgument))
      else if mut_kind m = mutSet then
        (case resolveSetOptions (clock i) (mut_opts m) of
           Inl e \<Rightarrow> Inl (Errorf ''batch mutation %d: %w'' [FInt (int i)] e)
         | Inr expiresAt \<Rightarrow>
             batch_loop clock (Suc i) (insert (mut_key m) seen)
               (setPairs @ [\<lparr>cp_Key = mut_key m, cp_Value = mut_value m, cp_ExpiresAtUnix = expiresAt\<rparr>])
               deleteKeys ms)
      else if mut_kind m = mutDelete then
        batch_loop clock (Suc i) (insert (mut_key m) seen) setPairs (deleteKeys @ [mut_key m]) ms
      else
        Inl (Errorf ''%w: batch mutation %d: not created by SetOp/SetBytesOp/DeleteOp/DeleteBytesOp''
               [FInt (int i)] (Sentinel ErrInvalidArgument)))"

definition batch_command :: "(nat \<Rightarrow> time) \<Rightarrow> Mutation list \<Rightarrow> gerror + command" where
  "batch_command clock mutations = batch_loop clock 0 {} [] [] mutations"

definition Batch ::
    "('b,'t,'v,'i,'m) badger_api \<Rightarrow> 'r raft_api \<Rightarrow> gob_registry \<Rightarrow> (nat \<Rightarrow> time) \<Rightarrow> ('b,'r,'o) DB \<Rightarrow>
     Mutation list \<Rightarrow> ('b,'r,'o) DB \<times> gerror option" where
  "Batch B R reg clock db mutations =
     (case checkOpen db of
        Some e \<Rightarrow> (db, Some e)
      | None \<Rightarrow>
          if mutations = [] then (db, None)
          else (case batch_command clock mutations of
                  Inl e \<Rightarrow> (db, Some e)
                | Inr cmd \<Rightarrow> DB_apply B R reg db cmd))"

section \<open>The specification of a batch\<close>

text \<open>One mutation on the map, and a list of them one after the other.\<close>

definition mutation_expiry :: "time \<Rightarrow> Mutation \<Rightarrow> uint64" where
  "mutation_expiry now m = (case resolveSetOptions now (mut_opts m) of Inl e \<Rightarrow> 0 | Inr x \<Rightarrow> x)"

definition mutate :: "time \<Rightarrow> Mutation \<Rightarrow> kv \<Rightarrow> kv" where
  "mutate now m s =
     (if mut_kind m = mutSet then s(mut_key m \<mapsto> (mut_value m, mutation_expiry now m))
      else s(mut_key m := None))"

fun mutate_all :: "(nat \<Rightarrow> time) \<Rightarrow> nat \<Rightarrow> Mutation list \<Rightarrow> kv \<Rightarrow> kv" where
  "mutate_all clock i [] s = s"
| "mutate_all clock i (m # ms) s = mutate_all clock (Suc i) ms (mutate (clock i) m s)"

text \<open>What \<open>Batch\<close> demands of its mutations.\<close>

definition valid_mutation :: "Mutation \<Rightarrow> bool" where
  "valid_mutation m \<longleftrightarrow>
     mut_key m \<noteq> [] \<and>
     (mut_kind m = mutSet \<and> (\<exists>x. resolveSetOptions 0 (mut_opts m) = Inr x) \<or> mut_kind m = mutDelete)"

definition valid_batch :: "Mutation list \<Rightarrow> bool" where
  "valid_batch ms \<longleftrightarrow> list_all valid_mutation ms \<and> distinct (map mut_key ms)"

lemma resolveSetOptions_clock:
  "(\<exists>x. resolveSetOptions s opts = Inr x) \<longleftrightarrow> (\<exists>x. resolveSetOptions t opts = Inr x)"
  by (auto simp: resolveSetOptions_def split: sum.splits prod.splits if_splits)

lemma mutKinds_distinct [simp]: "mutSet \<noteq> mutDelete" "mutDelete \<noteq> mutSet"
  by (simp_all add: mutSet_def mutDelete_def)

lemma apply_command_snoc_pair:
  "cp_Key p \<notin> set ds \<Longrightarrow>
     apply_command \<lparr>cmd_Pairs = ps @ [p], cmd_Deletes = ds\<rparr> s =
     (apply_command \<lparr>cmd_Pairs = ps, cmd_Deletes = ds\<rparr> s)(cp_Key p \<mapsto> (cp_Value p, cp_ExpiresAtUnix p))"
  by (rule ext) (auto simp: apply_command_def apply_deletes_effect apply_pairs_def)

lemma apply_command_snoc_delete:
  "apply_command \<lparr>cmd_Pairs = ps, cmd_Deletes = ds @ [k]\<rparr> s =
     (apply_command \<lparr>cmd_Pairs = ps, cmd_Deletes = ds\<rparr> s)(k := None)"
  by (rule ext) (auto simp: apply_command_def apply_deletes_effect)

text \<open>
  The split into sets and deletes keeps the meaning of the sequence, because no key occurs
  twice.
\<close>

lemma batch_loop_sequential:
  "batch_loop clock i seen ps ds ms = Inr cmd \<Longrightarrow> set ds \<subseteq> seen \<Longrightarrow>
     apply_command cmd s = mutate_all clock i ms (apply_command \<lparr>cmd_Pairs = ps, cmd_Deletes = ds\<rparr> s)"
proof (induction clock i seen ps ds ms rule: batch_loop.induct)
  case (2 clock i seen ps ds m ms)
  from "2.prems" have ok: "mut_key m \<noteq> []" "mut_key m \<notin> seen" by (auto split: if_splits)
  show ?case
  proof (cases "mut_kind m = mutSet")
    case True
    with "2.prems" ok obtain x where x: "resolveSetOptions (clock i) (mut_opts m) = Inr x"
      by (auto split: sum.splits)
    let ?p = "\<lparr>cp_Key = mut_key m, cp_Value = mut_value m, cp_ExpiresAtUnix = x\<rparr>"
    have "apply_command cmd s =
        mutate_all clock (Suc i) ms (apply_command \<lparr>cmd_Pairs = ps @ [?p], cmd_Deletes = ds\<rparr> s)"
      by (rule "2.IH"(1) [OF ok True x]) (use "2.prems" ok True x in auto)
    moreover have "mut_key m \<notin> set ds" using ok "2.prems"(2) by blast
    ultimately show ?thesis
      using True x by (simp add: apply_command_snoc_pair mutate_def mutation_expiry_def)
  next
    case False
    with "2.prems" ok have kind: "mut_kind m = mutDelete" by (auto split: if_splits)
    have "apply_command cmd s =
        mutate_all clock (Suc i) ms (apply_command \<lparr>cmd_Pairs = ps, cmd_Deletes = ds @ [mut_key m]\<rparr> s)"
      by (rule "2.IH"(2) [OF ok False kind]) (use "2.prems" ok False kind in auto)
    with kind show ?thesis by (simp add: apply_command_snoc_delete mutate_def)
  qed
qed simp

lemma apply_command_nil [simp]: "apply_command \<lparr>cmd_Pairs = [], cmd_Deletes = []\<rparr> s = s"
  by (simp add: apply_command_def apply_deletes_def apply_pairs_def)

lemma batch_loop_Inr:
  "(\<exists>cmd. batch_loop clock i seen ps ds ms = Inr cmd) \<longleftrightarrow>
     list_all valid_mutation ms \<and> distinct (map mut_key ms) \<and> mut_key ` set ms \<inter> seen = {}"
proof (induction clock i seen ps ds ms rule: batch_loop.induct)
  case (2 clock i seen ps ds m ms)
  show ?case
  proof (cases "mut_key m = [] \<or> mut_key m \<in> seen")
    case True
    then show ?thesis by (auto simp: valid_mutation_def)
  next
    case False
    then have ok: "mut_key m \<noteq> []" "mut_key m \<notin> seen" by auto
    consider "mut_kind m = mutSet" | "mut_kind m = mutDelete"
      | "mut_kind m \<noteq> mutSet" "mut_kind m \<noteq> mutDelete" by blast
    then show ?thesis
    proof cases
      case 1
      show ?thesis
      proof (cases "resolveSetOptions (clock i) (mut_opts m)")
        case (Inl e)
        then have "\<not> valid_mutation m"
          using 1 resolveSetOptions_clock [of 0 "mut_opts m" "clock i"] by (simp add: valid_mutation_def)
        with 1 Inl ok show ?thesis by simp
      next
        case (Inr x)
        then have "valid_mutation m"
          using 1 ok resolveSetOptions_clock [of 0 "mut_opts m" "clock i"] by (simp add: valid_mutation_def)
        with 1 Inr ok "2.IH"(1) [OF ok 1 Inr] show ?thesis by auto
      qed
    next
      case 2
      then have kind: "mut_kind m \<noteq> mutSet" by simp
      from 2 ok have "valid_mutation m" by (simp add: valid_mutation_def)
      with 2 ok "2.IH"(2) [OF ok kind 2] show ?thesis by auto
    next
      case 3
      with ok show ?thesis by (simp add: valid_mutation_def)
    qed
  qed
qed simp

lemma batch_loop_Inl:
  "batch_loop clock i seen ps ds ms = Inl e \<Longrightarrow> errors_is e ErrInvalidArgument"
  by (induction clock i seen ps ds ms rule: batch_loop.induct)
    (auto split: if_splits sum.splits dest: resolveSetOptions_Inl)

lemma batch_loop_length:
  "batch_loop clock i seen ps ds ms = Inr cmd \<Longrightarrow>
     length (cmd_Pairs cmd) + length (cmd_Deletes cmd) = length ps + length ds + length ms"
  by (induction clock i seen ps ds ms rule: batch_loop.induct) (auto split: if_splits sum.splits)

section \<open>What a write does\<close>

text \<open>
  Raft's promise to the caller of a successful apply: the last entry its FSM goroutine was
  handed meanwhile is the caller's.
\<close>

definition raft_apply_ok :: "'r raft_api \<Rightarrow> bool" where
  "raft_apply_ok R \<longleftrightarrow>
     (\<forall>r data t. ro_err (r_Apply R r data t) = None \<longrightarrow>
        ro_logs (r_Apply R r data t) \<noteq> [] \<and> log_Data (last (ro_logs (r_Apply R r data t))) = data)"

lemma DB_apply_closed [guard_simps]:
  "db_closed db \<Longrightarrow> DB_apply B R reg db cmd = (db, Some (Sentinel ErrClosed))"
  by (simp add: DB_apply_def guard_simps)

lemma DB_apply_follower [guard_simps]:
  "\<not> db_closed db \<Longrightarrow> r_State R (db_raft db) \<noteq> RS_Leader \<Longrightarrow>
     DB_apply B R reg db cmd = (db, Some (notLeaderErr R db))"
  by (simp add: DB_apply_def guard_simps)

lemma DB_apply_success:
  assumes "update_ok B G" and "raft_apply_ok R" and "wf_registry reg" and "command_fits cmd"
    and "DB_apply B R reg db cmd = (db', None)"
  obtains cs where "\<not> db_closed db" and "r_State R (db_raft db) = RS_Leader" and "db_store db \<noteq> None"
    and "node_contents G db' =
      map_option (apply_command cmd \<circ> fold apply_command cs) (node_contents G db)"
    and "\<exists>b b'. b_Update B b (command_txn B cmd) = (b', None)"
proof -
  have open': "\<not> db_closed db"
    using assms(5) by (cases "db_closed db") (simp_all add: DB_apply_closed)
  have leader: "r_State R (db_raft db) = RS_Leader"
    using assms(5) open'
    by (cases "r_State R (db_raft db) = RS_Leader") (simp_all add: DB_apply_follower)
  with open' obtain data where data: "encodeCommand reg cmd = Inr data"
    using assms(5) by (auto simp: DB_apply_def guard_simps split: sum.splits)
  define out where "out = r_Apply R (db_raft db) data (adv_ApplyTimeout (cfg_Advanced (db_cfg db)))"
  obtain db1 rs where run: "fsm_run B (db\<lparr>db_raft := ro_raft out\<rparr>) (ro_logs out) = (db1, rs)"
    by fastforce
  from assms(5) open' leader data run have ok: "ro_err out = None" "db1 = db'" "rs = [] \<or> last rs = None"
    by (auto simp: DB_apply_def guard_simps out_def [symmetric] Let_def split: option.splits if_splits)
  from assms(2) ok(1) have "ro_logs out \<noteq> []" and own: "log_Data (last (ro_logs out)) = data"
    by (auto simp: raft_apply_ok_def out_def)
  then obtain ls l where logs: "ro_logs out = ls @ [l]" and l: "log_Data l = data"
    by (metis append_butlast_last_id)
  obtain db2 rs2 where run1: "fsm_run B (db\<lparr>db_raft := ro_raft out\<rparr>) ls = (db2, rs2)" by fastforce
  obtain r where one: "fsm_Apply B db2 l = (db', r)" and rs: "rs = rs2 @ [r]"
    using run run1 ok(2) by (auto simp: logs fsm_run_append split: prod.splits)
  from ok(3) rs have "r = None" by simp
  with one obtain c where c: "decodeCommand (log_Data l) = Inr c" "db_store db2 \<noteq> None"
    "node_contents G db' = map_option (apply_command c) (node_contents G db2)"
    using fsm_Apply_success [OF assms(1), of db2 l db'] by metis
  have "c = cmd"
    using c(1) l decode_encode [OF assms(3,4) data] by simp
  moreover have "node_contents G db2 =
      map_option (fold apply_command (effective ls rs2)) (node_contents G db)"
    using fsm_run_contents [OF assms(1) run1] by (simp add: node_contents_def)
  moreover have "db_store db \<noteq> None"
    using fsm_run_frame(7) [OF run1] c(2) by simp
  moreover have "\<exists>b b'. b_Update B b (command_txn B c) = (b', None)"
    by (rule fsm_Apply_committed [OF _ c(1)]) (use one \<open>r = None\<close> in simp)
  ultimately show ?thesis
    using c(3) open' leader by (intro that) (auto simp: option.map_comp)
qed

section \<open>Writes are leader calls\<close>

interpretation apply_call: leader_call R True "\<lambda>db. DB_apply B R reg db cmd" for B R reg cmd
  by unfold_locales (simp_all add: guard_simps)

definition valid_set :: "bytes \<Rightarrow> SetOption list \<Rightarrow> bool" where
  "valid_set key opts \<longleftrightarrow> key \<noteq> [] \<and> (\<exists>x. resolveSetOptions 0 opts = Inr x)"

lemma SetBytes_valid:
  assumes "valid_set key opts"
  obtains x where "resolveSetOptions now opts = Inr x"
    and "SetBytes B R reg now db key value opts =
      DB_apply B R reg db
        \<lparr>cmd_Pairs = [\<lparr>cp_Key = key, cp_Value = value, cp_ExpiresAtUnix = x\<rparr>], cmd_Deletes = []\<rparr>"
proof -
  from assms obtain x where "resolveSetOptions now opts = Inr x"
    using resolveSetOptions_clock [of 0 opts now] by (auto simp: valid_set_def)
  with assms that show ?thesis by (simp add: SetBytes_def valid_set_def)
qed

lemma SetBytes_invalid:
  assumes "\<not> valid_set key opts"
  shows "\<exists>e. SetBytes B R reg now db key value opts = (db, Some e) \<and> errors_is e ErrInvalidArgument"
proof (cases "key = []")
  case True
  then show ?thesis by (simp add: SetBytes_def empty_key_error_def)
next
  case False
  with assms obtain e where "resolveSetOptions now opts = Inl e"
    using resolveSetOptions_clock [of 0 opts now]
    by (cases "resolveSetOptions now opts") (auto simp: valid_set_def)
  with False show ?thesis by (simp add: SetBytes_def resolveSetOptions_Inl)
qed

lemma SetBytes_closed:
  "valid_set key opts \<Longrightarrow> db_closed db \<Longrightarrow>
     SetBytes B R reg now db key v opts = (db, Some (Sentinel ErrClosed))"
  by (rule SetBytes_valid [of key opts now B R reg db v]) (simp_all add: guard_simps)

lemma SetBytes_follower:
  "valid_set key opts \<Longrightarrow> \<not> db_closed db \<Longrightarrow> r_State R (db_raft db) \<noteq> RS_Leader \<Longrightarrow>
     SetBytes B R reg now db key v opts = (db, Some (notLeaderErr R db))"
  by (rule SetBytes_valid [of key opts now B R reg db v]) (simp_all add: guard_simps)

interpretation set_call: leader_call R "valid_set key opts"
    "\<lambda>db. SetBytes B R reg now db key v opts" for B R reg now key v opts
  by unfold_locales (fact SetBytes_invalid SetBytes_closed SetBytes_follower)+

interpretation delete_call: leader_call R "key \<noteq> []"
    "\<lambda>db. DeleteBytes B R reg db key" for B R reg key
  by unfold_locales (simp_all add: DeleteBytes_def empty_key_error_def guard_simps)

text \<open>A batch checks that the node is open first, and an empty one needs no leader.\<close>

lemma Batch_invalid:
  assumes "\<not> db_closed db" and "\<not> valid_batch ms"
  shows "\<exists>e. Batch B R reg clock db ms = (db, Some e) \<and> errors_is e ErrInvalidArgument"
proof -
  from assms(2) have "ms \<noteq> []" by (auto simp: valid_batch_def)
  moreover obtain e where "batch_command clock ms = Inl e"
    using assms(2) batch_loop_Inr [of clock 0 "{}" "[]" "[]" ms]
    by (cases "batch_command clock ms") (auto simp: batch_command_def valid_batch_def)
  ultimately show ?thesis
    using assms(1) by (auto simp: Batch_def guard_simps batch_command_def dest: batch_loop_Inl)
qed

lemma Batch_valid:
  assumes "\<not> db_closed db" and "valid_batch ms" and "ms \<noteq> []"
  obtains cmd where "batch_command clock ms = Inr cmd"
    and "Batch B R reg clock db ms = DB_apply B R reg db cmd"
    and "\<And>s. apply_command cmd s = mutate_all clock 0 ms s"
proof -
  from assms(2) obtain cmd where c: "batch_command clock ms = Inr cmd"
    using batch_loop_Inr [of clock 0 "{}" "[]" "[]" ms]
    by (auto simp: batch_command_def valid_batch_def)
  have "apply_command cmd s = mutate_all clock 0 ms s" for s
    using batch_loop_sequential [OF c [unfolded batch_command_def]] by simp
  with c assms(1,3) show ?thesis by (intro that) (simp_all add: Batch_def guard_simps)
qed

end
