(* ===== verification/Read.thy ===== *)
theory Read
  imports FSM
begin

text \<open>
  \<open>read.go\<close>: \<open>prepareRead\<close> and \<open>Barrier\<close>, the point reads, the prefix scan and
  \<open>ViewBadger\<close>. The scan's loop runs over Badger's iterator and may in principle not end, so
  it is a partial function; under the iterator contract it returns the least keys with the
  prefix, in order.
\<close>

section \<open>Barrier and prepareRead\<close>

definition Barrier ::
    "('b,'t,'v,'i,'m) badger_api \<Rightarrow> 'r raft_api \<Rightarrow> ('b,'r,'o) DB \<Rightarrow> duration \<Rightarrow>
     ('b,'r,'o) DB \<times> gerror option" where
  "Barrier B R db timeout =
     (case checkOpen db of
        Some e \<Rightarrow> (db, Some e)
      | None \<Rightarrow>
          let out = r_Barrier R (db_raft db) timeout;
              (db', resps) = fsm_run B (db\<lparr>db_raft := ro_raft out\<rparr>) (ro_logs out)
          in (db', map_option (raft_err R db') (ro_err out)))"

definition prepareRead ::
    "('b,'t,'v,'i,'m) badger_api \<Rightarrow> 'r raft_api \<Rightarrow> ('b,'r,'o) DB \<Rightarrow> ReadOptions \<Rightarrow>
     ('b,'r,'o) DB \<times> gerror option" where
  "prepareRead B R db ro =
     (if ro_Timeout ro < 0 then
        (db, Some (Errorf ''%w: negative read timeout %s'' [FDur (ro_Timeout ro)]
                     (Sentinel ErrInvalidArgument)))
      else if ro_Mode ro = ReadLinearizable then
        (case checkOpen db of
           Some e \<Rightarrow> (db, Some e)
         | None \<Rightarrow>
             if r_State R (db_raft db) \<noteq> RS_Leader then (db, Some (notLeaderErr R db))
             else Barrier B R db (timeoutOr ro (adv_ApplyTimeout (cfg_Advanced (db_cfg db)))))
      else if ro_Mode ro = ReadLocal then (db, checkOpen db)
      else (db, Some (Errorf ''%w: unknown read mode %d'' [FInt (uint (ro_Mode ro))]
                        (Sentinel ErrInvalidArgument))))"

section \<open>Point reads\<close>

definition getBytes ::
    "('b,'t,'v,'i,'m) badger_api \<Rightarrow> time \<Rightarrow> ('b,'r,'o) DB \<Rightarrow> bytes \<Rightarrow> gerror + bytes" where
  "getBytes B now db key =
     snd (withStore db (\<lambda>b. (b,
       case b_View B now b of
         Inl e \<Rightarrow> Inl e
       | Inr txn \<Rightarrow>
           (case v_Get B txn key of
              Inl e \<Rightarrow> if errors_is e Badger_ErrKeyNotFound then Inl (Sentinel ErrKeyNotFound) else Inl e
            | Inr item \<Rightarrow> m_Value B item))))"

definition GetBytes ::
    "('b,'t,'v,'i,'m) badger_api \<Rightarrow> 'r raft_api \<Rightarrow> time \<Rightarrow> ('b,'r,'o) DB \<Rightarrow> bytes \<Rightarrow> ReadOptions \<Rightarrow>
     ('b,'r,'o) DB \<times> (gerror + bytes)" where
  "GetBytes B R now db key ro =
     (if key = [] then
        (db, Inl (Errorf ''%w: key must not be empty'' [] (Sentinel ErrInvalidArgument)))
      else
        let (db', e) = prepareRead B R db ro in
        case e of
          Some err \<Rightarrow> (db', Inl err)
        | None \<Rightarrow> (db', getBytes B now db' key))"

definition GetWithOptions ::
    "('b,'t,'v,'i,'m) badger_api \<Rightarrow> 'r raft_api \<Rightarrow> time \<Rightarrow> ('b,'r,'o) DB \<Rightarrow> string \<Rightarrow> ReadOptions \<Rightarrow>
     ('b,'r,'o) DB \<times> (gerror + string)" where
  "GetWithOptions B R now db key ro =
     (let (db', r) = GetBytes B R now db (bytes_of key) ro in
      case r of Inl e \<Rightarrow> (db', Inl e) | Inr value \<Rightarrow> (db', Inr (string_of value)))"

definition DB_Get ::
    "('b,'t,'v,'i,'m) badger_api \<Rightarrow> 'r raft_api \<Rightarrow> time \<Rightarrow> ('b,'r,'o) DB \<Rightarrow> string \<Rightarrow>
     ('b,'r,'o) DB \<times> (gerror + string)" where
  "DB_Get B R now db key = GetWithOptions B R now db key ReadOptions_zero"

section \<open>Scans\<close>

partial_function (option) scan_loop ::
    "('b,'t,'v,'i,'m) badger_api \<Rightarrow> int \<Rightarrow> bytes \<Rightarrow> 'i \<Rightarrow> Entry list \<Rightarrow> (gerror + Entry list) option" where
  "scan_loop B limit pre it entries =
     (if i_ValidForPrefix B it pre then
        if limit > 0 \<and> int (length entries) \<ge> limit then Some (Inr entries)
        else (case m_Value B (i_Item B it) of
                Inl e \<Rightarrow> Some (Inl e)
              | Inr value \<Rightarrow>
                  scan_loop B limit pre (i_Next B it)
                    (entries @ [\<lparr>entry_Key = m_Key B (i_Item B it), entry_Value = value\<rparr>]))
      else Some (Inr entries))"

definition scan_store ::
    "('b,'t,'v,'i,'m) badger_api \<Rightarrow> time \<Rightarrow> int \<Rightarrow> bytes \<Rightarrow> 'b \<Rightarrow> (gerror + Entry list) option" where
  "scan_store B now limit pre b =
     (case b_View B now b of
        Inl e \<Rightarrow> Some (Inl e)
      | Inr txn \<Rightarrow> scan_loop B limit pre (v_Seek B txn pre) [])"

text \<open>The outer option of the result is \<open>None\<close> where the call does not return.\<close>

definition ScanPrefixBytes ::
    "('b,'t,'v,'i,'m) badger_api \<Rightarrow> 'r raft_api \<Rightarrow> time \<Rightarrow> ('b,'r,'o) DB \<Rightarrow> bytes \<Rightarrow> ScanOptions \<Rightarrow>
     ('b,'r,'o) DB \<times> (gerror + Entry list) option" where
  "ScanPrefixBytes B R now db pre opts =
     (case resolveLimit opts of
        Inl e \<Rightarrow> (db, Some (Inl e))
      | Inr limit \<Rightarrow>
          let (db', e) = prepareRead B R db (so_Read opts) in
          case e of
            Some err \<Rightarrow> (db', Some (Inl err))
          | None \<Rightarrow>
              (db', case snd (withStore db' (\<lambda>b. (b, Inr (scan_store B now limit pre b)))) of
                      Inl e \<Rightarrow> Some (Inl e)
                    | Inr r \<Rightarrow> r))"

section \<open>ViewBadger\<close>

text \<open>The callback, when it is not nil, computes an error from the read transaction.\<close>

definition ViewBadger ::
    "('b,'t,'v,'i,'m) badger_api \<Rightarrow> 'r raft_api \<Rightarrow> time \<Rightarrow> ('b,'r,'o) DB \<Rightarrow> ReadOptions \<Rightarrow>
     ('v \<Rightarrow> gerror option) option \<Rightarrow> ('b,'r,'o) DB \<times> gerror option" where
  "ViewBadger B R now db ro fn =
     (case fn of
        None \<Rightarrow> (db, Some (Errorf ''%w: nil ViewBadger callback'' [] (Sentinel ErrInvalidArgument)))
      | Some f \<Rightarrow>
          let (db', e) = prepareRead B R db ro in
          case e of
            Some err \<Rightarrow> (db', Some err)
          | None \<Rightarrow>
              (db', err_of (snd (withStore db' (\<lambda>b. (b,
                 case b_View B now b of Inl e \<Rightarrow> Inl e | Inr txn \<Rightarrow> of_err (f txn)))))))"

section \<open>Guards\<close>

lemma Barrier_closed [guard_simps]:
  "db_closed db \<Longrightarrow> Barrier B R db timeout = (db, Some (Sentinel ErrClosed))"
  by (simp add: Barrier_def guard_simps)

lemma prepareRead_negative [guard_simps]:
  "ro_Timeout ro < 0 \<Longrightarrow> \<exists>e. prepareRead B R db ro = (db, Some e) \<and> errors_is e ErrInvalidArgument"
  by (simp add: prepareRead_def)

lemma prepareRead_unknown:
  "ro_Mode ro \<noteq> ReadLinearizable \<Longrightarrow> ro_Mode ro \<noteq> ReadLocal \<Longrightarrow>
     \<exists>e. prepareRead B R db ro = (db, Some e) \<and> errors_is e ErrInvalidArgument"
  by (simp add: prepareRead_def)

lemma prepareRead_closed [guard_simps]:
  "db_closed db \<Longrightarrow> 0 \<le> ro_Timeout ro \<Longrightarrow> ro_Mode ro \<in> {ReadLinearizable, ReadLocal} \<Longrightarrow>
     prepareRead B R db ro = (db, Some (Sentinel ErrClosed))"
  by (auto simp: prepareRead_def guard_simps)

lemma prepareRead_follower [guard_simps]:
  "\<not> db_closed db \<Longrightarrow> 0 \<le> ro_Timeout ro \<Longrightarrow> ro_Mode ro = ReadLinearizable \<Longrightarrow>
     r_State R (db_raft db) \<noteq> RS_Leader \<Longrightarrow> prepareRead B R db ro = (db, Some (notLeaderErr R db))"
  by (simp add: prepareRead_def guard_simps)

lemma prepareRead_local [guard_simps]:
  "\<not> db_closed db \<Longrightarrow> 0 \<le> ro_Timeout ro \<Longrightarrow> ro_Mode ro = ReadLocal \<Longrightarrow>
     prepareRead B R db ro = (db, None)"
  by (simp add: prepareRead_def guard_simps mode_defs)

lemma prepareRead_linearizable:
  "prepareRead B R db ro = (db', None) \<Longrightarrow> ro_Mode ro = ReadLinearizable \<Longrightarrow>
     \<not> db_closed db \<and> r_State R (db_raft db) = RS_Leader \<and>
     Barrier B R db (timeoutOr ro (adv_ApplyTimeout (cfg_Advanced (db_cfg db)))) = (db', None)"
  by (auto simp: prepareRead_def checkOpen_def split: if_splits)

text \<open>A read that passes the guard is one of the two kinds.\<close>

lemma prepareRead_None_cases:
  assumes "prepareRead B R db ro = (db', None)"
  obtains (local) "ro_Mode ro = ReadLocal" "db' = db" "\<not> db_closed db"
  | (linearizable) "ro_Mode ro = ReadLinearizable" "\<not> db_closed db" "r_State R (db_raft db) = RS_Leader"
      "Barrier B R db (timeoutOr ro (adv_ApplyTimeout (cfg_Advanced (db_cfg db)))) = (db', None)"
  using assms by (auto simp: prepareRead_def checkOpen_def split: if_splits)

lemma Barrier_run:
  assumes "Barrier B R db timeout = (db', r)" and "\<not> db_closed db"
  obtains rs where
    "fsm_run B (db\<lparr>db_raft := ro_raft (r_Barrier R (db_raft db) timeout)\<rparr>)
       (ro_logs (r_Barrier R (db_raft db) timeout)) = (db', rs)"
    and "r = map_option (raft_err R db') (ro_err (r_Barrier R (db_raft db) timeout))"
  using assms by (auto simp: Barrier_def guard_simps Let_def split: prod.splits)

lemma Barrier_frame:
  assumes "Barrier B R db timeout = (db', r)"
  shows "db_closed db' = db_closed db" and "(db_store db' = None) = (db_store db = None)"
proof -
  have "db_closed db' = db_closed db \<and> (db_store db' = None) = (db_store db = None)"
  proof (cases "db_closed db")
    case True
    with assms show ?thesis by (simp add: guard_simps)
  next
    case False
    from assms False obtain rs where "fsm_run B (db\<lparr>db_raft := ro_raft (r_Barrier R (db_raft db) timeout)\<rparr>)
       (ro_logs (r_Barrier R (db_raft db) timeout)) = (db', rs)" by (rule Barrier_run)
    from fsm_run_frame(1) [OF this] fsm_run_frame(7) [OF this] show ?thesis by simp
  qed
  then show "db_closed db' = db_closed db" and "(db_store db' = None) = (db_store db = None)" by auto
qed

interpretation linearizable: leader_call R "0 \<le> t"
    "\<lambda>db. prepareRead B R db \<lparr>ro_Mode = ReadLinearizable, ro_Timeout = t\<rparr>" for B R t
  by unfold_locales (simp_all add: prepareRead_def guard_simps)

section \<open>What a point read returns\<close>

lemma getBytes_open:
  assumes "\<not> db_closed db" and "db_store db = Some b"
  shows "getBytes B now db key =
     (case b_View B now b of
        Inl e \<Rightarrow> Inl e
      | Inr txn \<Rightarrow>
          (case v_Get B txn key of
             Inl e \<Rightarrow> if errors_is e Badger_ErrKeyNotFound then Inl (Sentinel ErrKeyNotFound) else Inl e
           | Inr item \<Rightarrow> m_Value B item))"
  using assms by (simp add: getBytes_def guard_simps)

lemma getBytes_unavailable [guard_simps]:
  "db_closed db \<or> db_store db = None \<Longrightarrow> getBytes B now db key = Inl (Sentinel ErrClosed)"
  by (simp add: getBytes_def withStore_unavailable)

lemma getBytes_value:
  assumes "get_ok B G" and "getBytes B now db key = Inr x"
  obtains m where "node_contents G db = Some m" and "live now m key = Some x" and "\<not> db_closed db"
proof -
  from assms(2) obtain b where b: "\<not> db_closed db" "db_store db = Some b"
    by (cases "db_closed db"; cases "db_store db") (auto simp: guard_simps)
  with assms(2) obtain txn item where v: "b_View B now b = Inr txn" and g: "v_Get B txn key = Inr item"
    and x: "m_Value B item = Inr x"
    by (auto simp: getBytes_open split: sum.splits if_splits)
  from assms(1) v have "view_of G txn = live now (contents G b)"
    unfolding get_ok_def by blast
  moreover from assms(1) g obtain y where "view_of G txn key = Some y" "item_is B item key y"
    unfolding get_ok_def by blast
  ultimately show ?thesis
    using that [of "contents G b"] x b by (auto simp: item_is_def node_contents_def)
qed

text \<open>
  A dependency's errors never carry a given sentinel of this package (Badger cannot know
  them).
\<close>

definition foreign_errors :: "('b,'t,'v,'i,'m) badger_api \<Rightarrow> sentinel \<Rightarrow> bool" where
  "foreign_errors B s \<longleftrightarrow>
     (\<forall>now b e. b_View B now b = Inl e \<longrightarrow> \<not> errors_is e s) \<and>
     (\<forall>v k e. v_Get B v k = Inl e \<longrightarrow> \<not> errors_is e s) \<and>
     (\<forall>m e. m_Value B m = Inl e \<longrightarrow> \<not> errors_is e s)"

text \<open>Then a missing-key result means that the key is not visible.\<close>

lemma getBytes_missing:
  assumes "get_ok B G" and "foreign_errors B ErrKeyNotFound" and "node_contents G db = Some m"
    and "getBytes B now db key = Inl e" and "errors_is e ErrKeyNotFound"
  shows "live now m key = None"
proof -
  from assms(3) obtain b where b: "db_store db = Some b" "m = contents G b"
    by (auto simp: node_contents_def)
  have "\<not> db_closed db" using assms(4,5) by (cases "db_closed db") (auto simp: guard_simps)
  with assms(2,4,5) b obtain txn e' where v: "b_View B now b = Inr txn" and g: "v_Get B txn key = Inl e'"
    and e': "errors_is e' Badger_ErrKeyNotFound"
    by (auto simp: getBytes_open foreign_errors_def split: sum.splits if_splits)
  from assms(1) v have "view_of G txn = live now (contents G b)" unfolding get_ok_def by blast
  moreover from assms(1) g e' have "view_of G txn key = None" unfolding get_ok_def by blast
  ultimately show ?thesis using b by simp
qed

section \<open>What a scan returns\<close>

text \<open>The loop over the items still to come.\<close>

fun scan_list ::
    "('b,'t,'v,'i,'m) badger_api \<Rightarrow> int \<Rightarrow> bytes \<Rightarrow> 'm list \<Rightarrow> Entry list \<Rightarrow> gerror + Entry list" where
  "scan_list B limit pre [] entries = Inr entries"
| "scan_list B limit pre (m # ms) entries =
     (if prefix pre (m_Key B m) then
        if limit > 0 \<and> int (length entries) \<ge> limit then Inr entries
        else (case m_Value B m of
                Inl e \<Rightarrow> Inl e
              | Inr v \<Rightarrow> scan_list B limit pre ms (entries @ [\<lparr>entry_Key = m_Key B m, entry_Value = v\<rparr>]))
      else Inr entries)"

lemma scan_loop_list:
  assumes "iter_ok B G"
  shows "scan_loop B limit pre it entries = Some (scan_list B limit pre (rest_of G it) entries)"
proof (induction "rest_of G it" arbitrary: it entries)
  case Nil
  with assms have "\<not> i_ValidForPrefix B it pre" unfolding iter_ok_def by auto
  with Nil show ?case by (subst scan_loop.simps) (simp flip: Nil)
next
  case (Cons m ms)
  from assms have v: "i_ValidForPrefix B it pre \<longleftrightarrow> prefix pre (m_Key B m)"
    unfolding iter_ok_def by (metis Cons.hyps(2) list.distinct(1) list.sel(1))
  from assms Cons.hyps(2) have i: "i_Item B it = m" and n: "rest_of G (i_Next B it) = ms"
    unfolding iter_ok_def by (metis list.distinct(1) list.sel(1), metis list.distinct(1) list.sel(3))
  from Cons.hyps(1) [OF n [symmetric]] v i n show ?case
    by (subst scan_loop.simps) (auto simp: Cons.hyps(2) [symmetric] split: sum.split)
qed

text \<open>The entries of items, and the items the loop takes.\<close>

definition scan_take :: "int \<Rightarrow> 'a list \<Rightarrow> 'a list" where
  "scan_take limit xs = (if limit > 0 then take (nat limit) xs else xs)"

lemma scan_list_Inr:
  assumes "scan_list B limit pre ms entries = Inr es" and "limit > 0 \<longrightarrow> int (length entries) \<le> limit"
  shows "\<exists>new. es = entries @ new \<and>
     map entry_Key new = map (m_Key B) (scan_take (limit - int (length entries))
        (if limit > 0 \<and> int (length entries) = limit then [] else takeWhile (\<lambda>m. prefix pre (m_Key B m)) ms)) \<and>
     (\<forall>e \<in> set new. \<exists>m \<in> set ms. m_Key B m = entry_Key e \<and> m_Value B m = Inr (entry_Value e))"
  using assms
proof (induction ms arbitrary: entries)
  case Nil
  then show ?case by (auto simp: scan_take_def)
next
  case (Cons m ms)
  show ?case
  proof (cases "prefix pre (m_Key B m) \<and> \<not> (limit > 0 \<and> int (length entries) = limit)")
    case False
    with Cons.prems show ?thesis by (auto simp: scan_take_def split: if_splits)
  next
    case True
    let ?n = "int (length entries)"
    from True Cons.prems(2) have lt: "limit > 0 \<longrightarrow> ?n < limit" by auto
    from True Cons.prems lt obtain v where v: "m_Value B m = Inr v"
      and rec: "scan_list B limit pre ms (entries @ [\<lparr>entry_Key = m_Key B m, entry_Value = v\<rparr>]) = Inr es"
      by (auto split: sum.splits if_splits)
    from Cons.IH [OF rec] lt obtain new where es: "es = entries @ \<lparr>entry_Key = m_Key B m, entry_Value = v\<rparr> # new"
      and keys: "map entry_Key new = map (m_Key B) (scan_take (limit - ?n - 1)
        (if limit > 0 \<and> ?n + 1 = limit then [] else takeWhile (\<lambda>m. prefix pre (m_Key B m)) ms))"
      and vals: "\<forall>e \<in> set new. \<exists>m \<in> set ms. m_Key B m = entry_Key e \<and> m_Value B m = Inr (entry_Value e)"
      by (auto simp: algebra_simps)
    have "scan_take (limit - ?n) (m # takeWhile (\<lambda>m. prefix pre (m_Key B m)) ms) =
        m # scan_take (limit - ?n - 1)
          (if limit > 0 \<and> ?n + 1 = limit then [] else takeWhile (\<lambda>m. prefix pre (m_Key B m)) ms)"
    proof (cases "limit > 0")
      case True
      with lt have "nat (limit - ?n) = Suc (nat (limit - ?n - 1))" by simp
      with True lt show ?thesis by (auto simp: scan_take_def)
    next
      case False
      then show ?thesis by (simp add: scan_take_def)
    qed
    with True es keys vals v show ?thesis by fastforce
  qed
qed

text \<open>
  In the byte order the keys with a given prefix follow the prefix without a gap.
\<close>

lemma prefix_le: "prefix (p :: 'a::linorder list) k \<Longrightarrow> p \<le> k"
  by (induction p k rule: list_induct2') auto

lemma prefix_contiguous:
  "(p :: 'a::linorder list) \<le> k \<Longrightarrow> k < k' \<Longrightarrow> prefix p k' \<Longrightarrow> prefix p k"
proof (induction p arbitrary: k k')
  case (Cons a p)
  from Cons.prems(3) obtain ks where k': "k' = a # ks" "prefix p ks" by (cases k') auto
  with Cons.prems(1,2) obtain b bs where k: "k = b # bs" by (cases k) auto
  with k' Cons.prems(1,2) have "b = a" "p \<le> bs" "bs < ks" by auto
  with Cons.IH k k'(2) show ?case by simp
qed simp

lemma takeWhile_prefix_filter:
  assumes "sorted_wrt (\<lambda>m n. key m < key n) ms" and "\<forall>m \<in> set ms. (p :: 'a::linorder list) \<le> key m"
  shows "takeWhile (\<lambda>m. prefix p (key m)) ms = filter (\<lambda>m. prefix p (key m)) ms"
  using assms
proof (induction ms)
  case (Cons m ms)
  show ?case
  proof (cases "prefix p (key m)")
    case False
    then have "\<forall>n \<in> set ms. \<not> prefix p (key n)"
      using Cons.prems prefix_contiguous [of p "key m"] by auto
    with False show ?thesis by (simp add: filter_empty_conv)
  next
    case True
    with Cons show ?thesis by simp
  qed
qed simp

text \<open>The visible keys with a prefix, and what the scan makes of them.\<close>

definition prefix_keys :: "bytes \<Rightarrow> (bytes \<rightharpoonup> bytes) \<Rightarrow> bytes set" where
  "prefix_keys pre m = {k \<in> dom m. prefix pre k}"

lemma iter_prefix_keys:
  assumes "iter_ok B G"
  shows "map (m_Key B) (takeWhile (\<lambda>m. prefix pre (m_Key B m)) (rest_of G (v_Seek B v pre))) =
     sorted_list_of_set (prefix_keys pre (view_of G v))"
proof -
  let ?ms = "rest_of G (v_Seek B v pre)"
  from assms have srt: "sorted_wrt (\<lambda>m n. m_Key B m < m_Key B n) ?ms"
    and keys: "m_Key B ` set ?ms = {k \<in> dom (view_of G v). pre \<le> k}"
    unfolding iter_ok_def by blast+
  have all: "\<forall>m \<in> set ?ms. pre \<le> m_Key B m" using keys by blast
  let ?fs = "filter (\<lambda>m. prefix pre (m_Key B m)) ?ms"
  have strict: "sorted_wrt (<) (map (m_Key B) ?fs)"
    using srt by (simp add: sorted_wrt_map sorted_wrt_filter)
  have "set (map (m_Key B) ?fs) = {k \<in> m_Key B ` set ?ms. prefix pre k}" by auto
  also have "\<dots> = prefix_keys pre (view_of G v)"
    unfolding keys prefix_keys_def using prefix_le by blast
  finally have "set (map (m_Key B) ?fs) = prefix_keys pre (view_of G v)" .
  then have "sorted_list_of_set (prefix_keys pre (view_of G v)) = map (m_Key B) ?fs"
    using strict by (metis sorted_list_of_set.idem_if_sorted_distinct strict_sorted_iff)
  then show ?thesis by (simp add: takeWhile_prefix_filter [OF srt all])
qed

lemma scan_store_returns:
  "iter_ok B G \<Longrightarrow> \<exists>r. scan_store B now limit pre b = Some r"
  by (auto simp: scan_store_def scan_loop_list split: sum.split)

lemma scan_store_Inr:
  assumes "view_ok B G" and "scan_store B now limit pre b = Some (Inr es)"
  shows "map entry_Key es =
       scan_take limit (sorted_list_of_set (prefix_keys pre (live now (contents G b))))"
    and "\<forall>e \<in> set es. live now (contents G b) (entry_Key e) = Some (entry_Value e)"
proof -
  from assms have it: "iter_ok B G" and gt: "get_ok B G" by (auto simp: view_ok_def)
  from assms(2) obtain v where v: "b_View B now b = Inr v"
    and l: "scan_list B limit pre (rest_of G (v_Seek B v pre)) [] = Inr es"
    by (auto simp: scan_store_def scan_loop_list [OF it] split: sum.splits)
  from gt v have view: "view_of G v = live now (contents G b)" unfolding get_ok_def by blast
  from scan_list_Inr [OF l]
  have keys: "map entry_Key es =
      map (m_Key B) (scan_take limit (takeWhile (\<lambda>m. prefix pre (m_Key B m)) (rest_of G (v_Seek B v pre))))"
    and vals: "\<forall>e \<in> set es. \<exists>m \<in> set (rest_of G (v_Seek B v pre)).
      m_Key B m = entry_Key e \<and> m_Value B m = Inr (entry_Value e)"
    by (auto split: if_splits)
  have "map f (scan_take n xs) = scan_take n (map f xs)" for f :: "'e \<Rightarrow> bytes" and n xs
    by (simp add: scan_take_def take_map)
  with keys show "map entry_Key es =
       scan_take limit (sorted_list_of_set (prefix_keys pre (live now (contents G b))))"
    by (simp add: iter_prefix_keys [OF it] view)
  show "\<forall>e \<in> set es. live now (contents G b) (entry_Key e) = Some (entry_Value e)"
  proof
    fix e assume "e \<in> set es"
    with vals obtain m where m: "m \<in> set (rest_of G (v_Seek B v pre))" "m_Key B m = entry_Key e"
      "m_Value B m = Inr (entry_Value e)" by blast
    with it obtain x where "view_of G v (m_Key B m) = Some x" "item_is B m (m_Key B m) x"
      unfolding iter_ok_def by blast
    with m view show "live now (contents G b) (entry_Key e) = Some (entry_Value e)"
      by (auto simp: item_is_def)
  qed
qed

end
