(* ===== verification/Restore.thy ===== *)
theory Restore
  imports FSM
begin

text \<open>
  The snapshot half of \<open>fsm.go\<close>: \<open>Snapshot\<close>, \<open>Persist\<close>, and \<open>Restore\<close> with its staged and
  its in-place path, rollback and reopening included. A restore acts on the node and on the
  file system; a step that fails is reported with its name, as the code's \<open>restoreErr\<close> does.
\<close>

section \<open>Snapshot and Persist\<close>

text \<open>The snapshot keeps no state: it stands for the \<open>*DB\<close>.\<close>

datatype fsmSnapshot = FsmSnapshot

definition fsm_Snapshot :: "('b,'r,'o) DB \<Rightarrow> gerror + fsmSnapshot" where
  "fsm_Snapshot db = Inr FsmSnapshot"

text \<open>What becomes of the sink: closed with the stream written, or cancelled.\<close>

datatype 's sink = SinkClosed 's | SinkCancelled

definition Persist ::
    "('b,'o,'d,'s) storage_api \<Rightarrow> time \<Rightarrow> fsmSnapshot \<Rightarrow> ('b,'r,'o) DB \<Rightarrow> gerror option \<Rightarrow> gerror option \<Rightarrow>
     's sink \<times> gerror option" where
  "Persist S now snap db cancelErr closeErr =
     (case db_store db of
        None \<Rightarrow> (SinkCancelled, Some (case cancelErr of Some e \<Rightarrow> e | None \<Rightarrow> Sentinel ErrClosed))
      | Some b \<Rightarrow>
          (case s_Backup S now b 0 of
             Inl e \<Rightarrow>
               (SinkCancelled, Some (case cancelErr of
                   Some ce \<Rightarrow> ce
                 | None \<Rightarrow> Errorf ''honeybadger: backup badger into snapshot: %w'' [] e))
           | Inr s \<Rightarrow> (SinkClosed s, closeErr)))"

text \<open>Releasing a snapshot does nothing: it owns no resources.\<close>

definition Release :: "fsmSnapshot \<Rightarrow> ('b,'r,'o) DB \<Rightarrow> ('b,'r,'o) DB" where
  "Release snap db = db"

section \<open>Restore\<close>

definition snapshotLoadMaxPendingWrites :: int where "snapshotLoadMaxPendingWrites = 256"

definition log_printf :: "('b,'r,'o) DB \<Rightarrow> string \<Rightarrow> gerror \<Rightarrow> ('b,'r,'o) DB" where
  "log_printf db fmt err = db\<lparr>db_logger := db_logger db @ [Errorf fmt [] err]\<rparr>"

definition restore_error :: "string \<Rightarrow> gerror \<Rightarrow> gerror" where
  "restore_error step err = Errorf ''honeybadger: restore: %s: %w'' [FStr step] err"

definition restoreErr :: "('b,'r,'o) DB \<Rightarrow> string \<Rightarrow> gerror \<Rightarrow> ('b,'r,'o) DB \<times> gerror" where
  "restoreErr db step err = (log_fsm db (restore_error step err), restore_error step err)"

definition reopenLocked ::
    "('b,'o,'d,'s) storage_api \<Rightarrow> ('b,'r,'o) DB \<times> 'd world \<Rightarrow> ('b,'r,'o) DB \<times> 'd world" where
  "reopenLocked S dw =
     (let (db, w) = dw; (w', r) = badger_Open S (db_badgerOpts db) w in
      case r of
        Inl err \<Rightarrow>
          ((log_printf db ''fsm: reopen badger after failed restore: %v'' err)\<lparr>db_store := None\<rparr>, w')
      | Inr store \<Rightarrow> (db\<lparr>db_store := Some store\<rparr>, w'))"

definition rollbackAndReopenLocked ::
    "('b,'o,'d,'s) storage_api \<Rightarrow> 'd faults \<Rightarrow> path \<Rightarrow> path \<Rightarrow> ('b,'r,'o) DB \<times> 'd world \<Rightarrow>
     ('b,'r,'o) DB \<times> 'd world" where
  "rollbackAndReopenLocked S F backupDir liveDir dw =
     (let (db, w) = dw; (w', e) = os_Rename F backupDir liveDir w;
          db' = (case e of
                   None \<Rightarrow> db
                 | Some err \<Rightarrow> log_printf db ''fsm: roll back badger dir after failed restore: %v'' err)
      in reopenLocked S (db', w'))"

text \<open>The staging phase: the world it leaves, and the step that failed, if one did.\<close>

definition staging_opts :: "'o badger_options \<Rightarrow> path \<Rightarrow> 'o badger_options" where
  "staging_opts opts stagingDir = opts\<lparr>opt_Dir := stagingDir, opt_ValueDir := stagingDir\<rparr>"

definition restore_stage ::
    "('b,'o,'d,'s) storage_api \<Rightarrow> 'd faults \<Rightarrow> 'o badger_options \<Rightarrow> path \<Rightarrow> 'd world \<Rightarrow> 's \<Rightarrow>
     'd world \<times> (string \<times> gerror) option" where
  "restore_stage S F opts stagingDir w rc =
     (let (w1, e1) = os_RemoveAll F stagingDir w in
      case e1 of Some err \<Rightarrow> (w1, Some (''clean staging dir'', err)) | None \<Rightarrow>
      let (w2, e2) = os_MkdirAll F (s_empty S) stagingDir w1 in
      case e2 of Some err \<Rightarrow> (w2, Some (''create staging dir'', err)) | None \<Rightarrow>
      let (w3, r) = badger_Open S (staging_opts opts stagingDir) w2 in
      case r of
        Inl err \<Rightarrow> (fst (os_RemoveAll F stagingDir w3), Some (''open staging badger'', err))
      | Inr stage \<Rightarrow>
          let (stage', e3) = s_Load S stage rc snapshotLoadMaxPendingWrites in
          case e3 of
            Some err \<Rightarrow>
              let (w4, _) = badger_Close S stage' w3 in
              (fst (os_RemoveAll F stagingDir w4), Some (''load snapshot into staging badger'', err))
          | None \<Rightarrow>
              let (w4, e4) = badger_Close S stage' w3 in
              case e4 of
                Some err \<Rightarrow> (fst (os_RemoveAll F stagingDir w4), Some (''close staging badger'', err))
              | None \<Rightarrow> (w4, None))"

text \<open>The swap phase, under the exclusive lock.\<close>

definition close_for_swap ::
    "('b,'o,'d,'s) storage_api \<Rightarrow> ('b,'r,'o) DB \<times> 'd world \<Rightarrow> ('b,'r,'o) DB \<times> 'd world" where
  "close_for_swap S dw =
     (let (db, w) = dw in
      case db_store db of
        None \<Rightarrow> (db, w)
      | Some b \<Rightarrow>
          let (w', e) = badger_Close S b w;
              db' = (case e of
                       None \<Rightarrow> db
                     | Some err \<Rightarrow> log_printf db ''fsm: close badger for restore swap: %v'' err)
          in (db'\<lparr>db_store := None\<rparr>, w'))"

definition restore_swap ::
    "('b,'o,'d,'s) storage_api \<Rightarrow> 'd faults \<Rightarrow> path \<Rightarrow> path \<Rightarrow> path \<Rightarrow> ('b,'r,'o) DB \<times> 'd world \<Rightarrow>
     (('b,'r,'o) DB \<times> 'd world) \<times> (string \<times> gerror) option" where
  "restore_swap S F liveDir stagingDir backupDir dw =
     (let (db, w) = dw;
          (w1, _) = os_RemoveAll F backupDir w;
          (db1, w2) = close_for_swap S (db, w1);
          (w3, e3) = os_Rename F liveDir backupDir w2 in
      case e3 of
        Some err \<Rightarrow> (reopenLocked S (db1, w3), Some (''move live dir aside'', err))
      | None \<Rightarrow>
      let (w4, e4) = os_Rename F stagingDir liveDir w3 in
      case e4 of
        Some err \<Rightarrow>
          (rollbackAndReopenLocked S F backupDir liveDir (db1, w4),
           Some (''move staging dir into place'', err))
      | None \<Rightarrow>
      let (w5, r) = badger_Open S (db_badgerOpts db1) w4 in
      case r of
        Inl err \<Rightarrow>
          let (w6, _) = os_RemoveAll F liveDir w5 in
          (rollbackAndReopenLocked S F backupDir liveDir (db1, w6), Some (''open restored badger'', err))
      | Inr store \<Rightarrow>
          let (w6, _) = os_RemoveAll F backupDir w5 in
          ((db1\<lparr>db_store := Some store, db_appliedIndex := 0\<rparr>, w6), None))"

text \<open>
  The in-place path: the two directories are wiped and recreated one after the other.
\<close>

fun wipe_dirs ::
    "('b,'o,'d,'s) storage_api \<Rightarrow> 'd faults \<Rightarrow> path list \<Rightarrow> 'd world \<Rightarrow> 'd world \<times> (string \<times> gerror) option"
where
  "wipe_dirs S F [] w = (w, None)"
| "wipe_dirs S F (dir # dirs) w =
     (let (w1, e1) = os_RemoveAll F dir w in
      case e1 of Some err \<Rightarrow> (w1, Some (''wipe badger dir'', err)) | None \<Rightarrow>
      let (w2, e2) = os_MkdirAll F (s_empty S) dir w1 in
      case e2 of Some err \<Rightarrow> (w2, Some (''recreate badger dir'', err)) | None \<Rightarrow>
      wipe_dirs S F dirs w2)"

definition restoreInPlace ::
    "('b,'o,'d,'s) storage_api \<Rightarrow> 'd faults \<Rightarrow> ('b,'r,'o) DB \<times> 'd world \<Rightarrow> 's \<Rightarrow>
     (('b,'r,'o) DB \<times> 'd world) \<times> (string \<times> gerror) option" where
  "restoreInPlace S F dw rc =
     (let (db, w) = dw;
          (w1, e1) = (case db_store db of None \<Rightarrow> (w, None) | Some b \<Rightarrow> badger_Close S b w);
          db1 = db\<lparr>db_store := None\<rparr> in
      case e1 of Some err \<Rightarrow> ((db1, w1), Some (''close badger'', err)) | None \<Rightarrow>
      let (w2, e2) = wipe_dirs S F [db_badgerDir db, opt_ValueDir (db_badgerOpts db)] w1 in
      case e2 of Some (step, err) \<Rightarrow> ((db1, w2), Some (step, err)) | None \<Rightarrow>
      let (w3, r) = badger_Open S (db_badgerOpts db) w2 in
      case r of
        Inl err \<Rightarrow> ((db1, w3), Some (''reopen badger'', err))
      | Inr store \<Rightarrow>
          let (store', e3) = s_Load S store rc snapshotLoadMaxPendingWrites in
          case e3 of
            Some err \<Rightarrow>
              let (w4, _) = badger_Close S store' w3 in ((db1, w4), Some (''load snapshot'', err))
          | None \<Rightarrow> ((db1\<lparr>db_store := Some store', db_appliedIndex := 0\<rparr>, w3), None))"

definition stagingDir_of :: "path \<Rightarrow> path" where "stagingDir_of liveDir = liveDir @ ''.restore-tmp''"
definition backupDir_of :: "path \<Rightarrow> path" where "backupDir_of liveDir = liveDir @ ''.restore-old''"

definition in_place :: "('b,'r,'o) DB \<Rightarrow> bool" where
  "in_place db \<longleftrightarrow>
     opt_ValueDir (db_badgerOpts db) \<noteq> [] \<and> opt_ValueDir (db_badgerOpts db) \<noteq> db_badgerDir db"

text \<open>A failed step is logged and wrapped on the way out.\<close>

definition report ::
    "(('b,'r,'o) DB \<times> 'd world) \<times> (string \<times> gerror) option \<Rightarrow> (('b,'r,'o) DB \<times> 'd world) \<times> gerror option" where
  "report x =
     (case x of
        ((db, w), None) \<Rightarrow> ((db, w), None)
      | ((db, w), Some (step, err)) \<Rightarrow>
          let (db', err') = restoreErr db step err in ((db', w), Some err'))"

definition fsm_Restore ::
    "('b,'o,'d,'s) storage_api \<Rightarrow> 'd faults \<Rightarrow> ('b,'r,'o) DB \<times> 'd world \<Rightarrow> 's \<Rightarrow>
     (('b,'r,'o) DB \<times> 'd world) \<times> gerror option" where
  "fsm_Restore S F dw rc =
     (let (db, w) = dw; liveDir = db_badgerDir db in
      if in_place db then report (restoreInPlace S F (db, w) rc)
      else
        let (w1, failed) = restore_stage S F (db_badgerOpts db) (stagingDir_of liveDir) w rc in
        case failed of
          Some (step, err) \<Rightarrow> report ((db, w1), Some (step, err))
        | None \<Rightarrow>
            report (restore_swap S F liveDir (stagingDir_of liveDir) (backupDir_of liveDir) (db, w1)))"

section \<open>The file system under the restore\<close>

lemma siblings_apart [simp]:
  "\<not> under p (stagingDir_of p)" "\<not> under p (backupDir_of p)"
  "\<not> under (stagingDir_of p) p" "\<not> under (backupDir_of p) p"
  "\<not> under (stagingDir_of p) (backupDir_of p)" "\<not> under (backupDir_of p) (stagingDir_of p)"
  by (auto simp: under_def stagingDir_of_def backupDir_of_def dest: prefix_length_le)

text \<open>A step that changes nothing outside a directory.\<close>

definition confined :: "path \<Rightarrow> 'd world \<Rightarrow> 'd world \<Rightarrow> bool" where
  "confined p w w' \<longleftrightarrow> (\<forall>q. \<not> under p q \<longrightarrow> w_fs w' q = w_fs w q)"

lemma confined_refl [simp]: "confined p w w"
  and confined_trans [trans]: "confined p w w' \<Longrightarrow> confined p w' w'' \<Longrightarrow> confined p w w''"
  and confinedD: "confined p w w' \<Longrightarrow> \<not> under p q \<Longrightarrow> w_fs w' q = w_fs w q"
  by (simp_all add: confined_def)

lemma RemoveAll_confined: "os_RemoveAll F p w = (w', r) \<Longrightarrow> confined p w w'"
  by (auto simp: os_RemoveAll_def confined_def split: option.splits)

lemma RemoveAll_gone: "os_RemoveAll F p w = (w', None) \<Longrightarrow> under p q \<Longrightarrow> w_fs w' q = None"
  by (auto simp: os_RemoveAll_def split: option.splits)

lemma MkdirAll_confined: "os_MkdirAll F d0 p w = (w', r) \<Longrightarrow> confined p w w'"
  by (auto simp: os_MkdirAll_def confined_def split: option.splits)

lemma MkdirAll_made:
  "os_MkdirAll F d0 p w = (w', None) \<Longrightarrow> w_fs w p = None \<Longrightarrow> w_fs w' p = Some d0"
  by (auto simp: os_MkdirAll_def split: option.splits)

lemma Rename_ok:
  "os_Rename F a b w = (w', None) \<Longrightarrow>
     w_fs w a \<noteq> None \<and> w_fs w b = None \<and> w_fs w' = moved a b (w_fs w)"
  by (auto simp: os_Rename_def split: option.splits if_splits)

lemma Rename_err: "os_Rename F a b w = (w', Some e) \<Longrightarrow> w_fs w' = w_fs w"
  by (auto simp: os_Rename_def split: option.splits if_splits)

text \<open>A rename fails only by a fault or for a missing source or an existing target.\<close>

lemma Rename_succeeds:
  "F (w_tick w) (Rename a b) = None \<Longrightarrow> w_fs w a \<noteq> None \<Longrightarrow> w_fs w b = None \<Longrightarrow>
     \<exists>w'. os_Rename F a b w = (w', None) \<and> w_fs w' = moved a b (w_fs w)"
  by (auto simp: os_Rename_def)

lemma moved_target [simp]: "moved a b fs b = fs a"
  by (simp add: moved_def)

lemma moved_source: "\<not> under b a \<Longrightarrow> moved a b fs a = None"
  by (simp add: moved_def)

lemma moved_other: "\<not> under b q \<Longrightarrow> \<not> under a q \<Longrightarrow> moved a b fs q = fs q"
  by (simp add: moved_def)

lemma disk_cong: "fs p = fs' p \<Longrightarrow> disk G fs p = disk G fs' p"
  by (simp add: disk_def)

lemma local_change_confined:
  "local_change o' (w_fs w) (w_fs w') \<Longrightarrow> colocated o' \<Longrightarrow> confined (opt_Dir o') w w'"
  by (simp add: local_change_def colocated_def confined_def)

lemma Open_confined:
  assumes "storage_ok S G" and "badger_Open S o' w = (w', r)" and "colocated o'"
  shows "confined (opt_Dir o') w w'"
proof (cases r)
  case (Inl e)
  show ?thesis
    by (rule local_change_confined [OF open_errD(1) [OF assms(1) assms(2) [unfolded Inl]] assms(3)])
next
  case (Inr b)
  show ?thesis
    by (rule local_change_confined [OF openD(2) [OF assms(1) assms(2) [unfolded Inr]] assms(3)])
qed

lemma Close_confined:
  assumes "storage_ok S G" and "badger_Close S b w = (w', r)" and "colocated (g_opts G b)"
  shows "confined (opt_Dir (g_opts G b)) w w'"
  by (rule local_change_confined [OF closeD(1) [OF assms(1,2)] assms(3)])

section \<open>Staging\<close>

lemma staging_opts_fields [simp]:
  "opt_Dir (staging_opts o' p) = p" "opt_ValueDir (staging_opts o' p) = p"
  "colocated (staging_opts o' p)"
  by (simp_all add: staging_opts_def colocated_def)

text \<open>Whatever happens while staging stays inside the staging directory.\<close>

lemma restore_stage_confined:
  assumes ok: "storage_ok S G" and run: "restore_stage S F o' p w rc = (w', r)"
  shows "confined p w w'"
proof -
  obtain w1 e1 where s1: "os_RemoveAll F p w = (w1, e1)" by fastforce
  obtain w2 e2 where s2: "os_MkdirAll F (s_empty S) p w1 = (w2, e2)" by fastforce
  obtain w3 r3 where s3: "badger_Open S (staging_opts o' p) w2 = (w3, r3)" by fastforce
  have c1: "confined p w w1" by (rule RemoveAll_confined [OF s1])
  have c2: "confined p w w2" using c1 MkdirAll_confined [OF s2] by (rule confined_trans)
  have c3: "confined p w w3" using c2 Open_confined [OF ok s3] by (auto intro: confined_trans)
  have rm: "confined p w (fst (os_RemoveAll F p v))" if "confined p w v" for v
    using that RemoveAll_confined [of F p v] by (metis confined_trans prod.collapse)
  have cl: "confined p w v'" if "badger_Close S b w3 = (v', x)" "g_opts G b = staging_opts o' p" for b v' x
    using c3 Close_confined [OF ok that(1)] that(2) by (auto intro: confined_trans)
  show ?thesis
  proof (cases "e1 \<noteq> None \<or> e2 \<noteq> None \<or> (\<exists>e. r3 = Inl e)")
    case True
    with run s1 s2 s3 c1 c2 rm [OF c3] show ?thesis
      by (auto simp: restore_stage_def split: option.splits sum.splits)
  next
    case False
    then obtain b where b: "e1 = None" "e2 = None" "r3 = Inr b" by (cases r3) auto
    obtain b' e3 where s4: "s_Load S b rc snapshotLoadMaxPendingWrites = (b', e3)" by fastforce
    obtain w4 e4 where s5: "badger_Close S b' w3 = (w4, e4)" by fastforce
    have "g_opts G b' = staging_opts o' p"
      using loadD(1) [OF ok s4] openD(1) [OF ok] s3 b(3) by simp
    with s5 have c4: "confined p w w4" by (rule cl)
    with run s1 s2 s3 s4 s5 b rm [OF c4] show ?thesis
      by (auto simp: restore_stage_def split: option.splits)
  qed
qed

text \<open>When it succeeds, the staging directory holds the snapshot.\<close>

lemma restore_stage_success:
  assumes ok: "storage_ok S G" and run: "restore_stage S F o' p w rc = (w', None)"
  shows "disk G (w_fs w') p = g_stream G rc" and "w_fs w' p \<noteq> None"
proof -
  from run obtain w1 w2 w3 b b' where s1: "os_RemoveAll F p w = (w1, None)"
    and s2: "os_MkdirAll F (s_empty S) p w1 = (w2, None)"
    and s3: "badger_Open S (staging_opts o' p) w2 = (w3, Inr b)"
    and s4: "s_Load S b rc snapshotLoadMaxPendingWrites = (b', None)"
    and s5: "badger_Close S b' w3 = (w', None)"
    unfolding restore_stage_def
    by (auto simp: Let_def split: option.splits sum.splits prod.splits)
  have "w_fs w2 p = Some (s_empty S)"
    using MkdirAll_made [OF s2] RemoveAll_gone [OF s1, of p] by simp
  then have "g_contents G b = Map.empty"
    using openD(5) [OF ok s3] by (simp add: vacant_def)
  then have "g_contents G b' = g_stream G rc"
    using loadD(2) [OF ok s4] by simp
  moreover have opts: "g_opts G b' = staging_opts o' p"
    using loadD(1) [OF ok s4] openD(1) [OF ok s3] by simp
  ultimately show "disk G (w_fs w') p = g_stream G rc"
    using closeD(3) [OF ok s5] by simp
  show "w_fs w' p \<noteq> None"
    using closeD(2) [OF ok s5] openD(3) [OF ok s3] opts by simp
qed

section \<open>The swap\<close>

text \<open>
  The staged path is for databases with both directories in one place, the live directory,
  which the open handle was opened on.
\<close>

definition staged_layout :: "('b,'o,'d,'s) storage_ghost \<Rightarrow> ('b,'r,'o) DB \<Rightarrow> bool" where
  "staged_layout G db \<longleftrightarrow>
     opt_Dir (db_badgerOpts db) = db_badgerDir db \<and> colocated (db_badgerOpts db) \<and>
     (\<forall>b. db_store db = Some b \<longrightarrow> g_opts G b = db_badgerOpts db)"

lemma staged_layoutD:
  assumes "staged_layout G db"
  shows "opt_Dir (db_badgerOpts db) = db_badgerDir db" and "colocated (db_badgerOpts db)"
    and "db_store db = Some b \<Longrightarrow> g_opts G b = db_badgerOpts db" and "\<not> in_place db"
  using assms by (simp_all add: staged_layout_def in_place_def colocated_def)

text \<open>The node serves a map, or is down with that map in its directory.\<close>

definition serves ::
    "('b,'o,'d,'s) storage_ghost \<Rightarrow> ('b,'r,'o) DB \<Rightarrow> 'd world \<Rightarrow> kv \<Rightarrow> bool" where
  "serves G db w m \<longleftrightarrow>
     (case db_store db of None \<Rightarrow> disk G (w_fs w) (db_badgerDir db) = m | Some b \<Rightarrow> g_contents G b = m)"

text \<open>A step that changes nothing of the node but its store and its log.\<close>

definition kept :: "('b,'r,'o) DB \<Rightarrow> ('b,'r,'o) DB \<Rightarrow> bool" where
  "kept db db' \<longleftrightarrow>
     db_badgerOpts db' = db_badgerOpts db \<and> db_badgerDir db' = db_badgerDir db \<and>
     db_appliedIndex db' = db_appliedIndex db \<and> db_closed db' = db_closed db \<and>
     db_cfg db' = db_cfg db \<and> db_raft db' = db_raft db \<and> db_closeResult db' = db_closeResult db"

lemma keptD:
  assumes "kept db db'"
  shows "db_badgerOpts db' = db_badgerOpts db" "db_badgerDir db' = db_badgerDir db"
    "db_appliedIndex db' = db_appliedIndex db" "db_closed db' = db_closed db"
    "db_cfg db' = db_cfg db" "db_raft db' = db_raft db" "db_closeResult db' = db_closeResult db"
  using assms by (simp_all add: kept_def)

lemma kept_refl [simp]: "kept db db"
  and kept_trans [trans]: "kept db db' \<Longrightarrow> kept db' db'' \<Longrightarrow> kept db db''"
  and kept_store [simp]: "kept db (db'\<lparr>db_store := s\<rparr>) = kept db db'"
  and kept_log_printf [simp]: "kept db (log_printf db' f e) = kept db db'"
    "kept (log_printf db f e) db' = kept db db'"
  and kept_log_fsm [simp]: "kept db (log_fsm db' e) = kept db db'"
  by (simp_all add: kept_def log_printf_def log_fsm_def)

lemma log_printf_frame [frame_simps]:
  "db_store (log_printf db f e) = db_store db" "db_badgerOpts (log_printf db f e) = db_badgerOpts db"
  "db_badgerDir (log_printf db f e) = db_badgerDir db"
  by (simp_all add: log_printf_def)

lemma reopen_kept:
  assumes "reopenLocked S (db, w) = (db', w')"
  shows "kept db db'"
  using assms
  by (auto simp: reopenLocked_def split: prod.splits sum.splits)

lemma reopen_serves:
  assumes ok: "storage_ok S G" and run: "reopenLocked S (db, w) = (db', w')"
    and dir: "opt_Dir (db_badgerOpts db) = db_badgerDir db" and co: "colocated (db_badgerOpts db)"
  shows "serves G db' w' (disk G (w_fs w) (db_badgerDir db))"
proof -
  obtain v r where op: "badger_Open S (db_badgerOpts db) w = (v, r)" by fastforce
  show ?thesis
  proof (cases r)
    case (Inl e)
    from open_errD(2) [OF ok op [unfolded Inl] co] run op Inl dir show ?thesis
      by (auto simp: reopenLocked_def serves_def frame_simps)
  next
    case (Inr b)
    from openD(4) [OF ok op [unfolded Inr] co] run op Inr dir show ?thesis
      by (auto simp: reopenLocked_def serves_def)
  qed
qed

lemma reopen_confined:
  assumes "storage_ok S G" and "reopenLocked S (db, w) = (db', w')" and "colocated (db_badgerOpts db)"
  shows "confined (opt_Dir (db_badgerOpts db)) w w'"
proof -
  obtain v r where "badger_Open S (db_badgerOpts db) w = (v, r)" by fastforce
  with assms Open_confined [OF assms(1) _ assms(3)] show ?thesis
    by (auto simp: reopenLocked_def split: sum.splits)
qed

lemma close_for_swap_kept:
  assumes "close_for_swap S (db, w) = (db', w')"
  shows "kept db db'" and "db_store db' = None"
  using assms
  by (auto simp: close_for_swap_def split: prod.splits option.splits)

lemma close_for_swap_confined:
  assumes ok: "storage_ok S G" and wf: "staged_layout G db"
    and run: "close_for_swap S (db, w) = (db', w')"
  shows "confined (db_badgerDir db) w w'"
proof (cases "db_store db")
  case None
  with run show ?thesis by (simp add: close_for_swap_def)
next
  case (Some b)
  obtain v r where cl: "badger_Close S b w = (v, r)" by fastforce
  with run Some have "w' = v" by (simp add: close_for_swap_def Let_def)
  with Close_confined [OF ok cl] staged_layoutD [OF wf] Some show ?thesis by simp
qed

text \<open>A clean close leaves what the store held in the live directory.\<close>

lemma close_for_swap_disk:
  assumes ok: "storage_ok S G" and wf: "staged_layout G db" and b: "db_store db = Some b"
    and clean: "\<And>fs. snd (s_Close S b fs) = None"
    and run: "close_for_swap S (db, w) = (db', w')"
  shows "disk G (w_fs w') (db_badgerDir db) = g_contents G b"
proof -
  obtain v r where cl: "badger_Close S b w = (v, r)" by fastforce
  moreover from cl clean [of "w_fs w"] have "r = None"
    by (auto simp: badger_Close_def split: prod.splits)
  moreover from run b cl have "w' = v" by (simp add: close_for_swap_def Let_def)
  ultimately show ?thesis
    using closeD(3) [OF ok cl] staged_layoutD [OF wf] b by simp
qed

text \<open>How a swap ends: published, or failed at one of its three steps.\<close>

lemma restore_swap_cases:
  fixes S :: "('b,'o,'d,'s) storage_api" and db :: "('b,'r,'o) DB"
  assumes "close_for_swap S (db, fst (os_RemoveAll F bk w)) = (db1, w2)"
  obtains
    (published) w3 w4 w5 b where "os_Rename F lv bk w2 = (w3, None)"
      "os_Rename F stg lv w3 = (w4, None)" "badger_Open S (db_badgerOpts db) w4 = (w5, Inr b)"
      "restore_swap S F lv stg bk (db, w) =
         ((db1\<lparr>db_store := Some b, db_appliedIndex := 0\<rparr>, fst (os_RemoveAll F bk w5)), None)"
  | (not_aside) w3 e where "os_Rename F lv bk w2 = (w3, Some e)"
      "restore_swap S F lv stg bk (db, w) =
         (reopenLocked S (db1, w3), Some (''move live dir aside'', e))"
  | (not_moved) w3 w4 e where "os_Rename F lv bk w2 = (w3, None)"
      "os_Rename F stg lv w3 = (w4, Some e)"
      "restore_swap S F lv stg bk (db, w) =
         (rollbackAndReopenLocked S F bk lv (db1, w4), Some (''move staging dir into place'', e))"
  | (not_opened) w3 w4 w5 e where "os_Rename F lv bk w2 = (w3, None)"
      "os_Rename F stg lv w3 = (w4, None)" "badger_Open S (db_badgerOpts db) w4 = (w5, Inl e)"
      "restore_swap S F lv stg bk (db, w) =
         (rollbackAndReopenLocked S F bk lv (db1, fst (os_RemoveAll F lv w5)),
          Some (''open restored badger'', e))"
proof -
  have opts: "db_badgerOpts db1 = db_badgerOpts db"
    using keptD [OF close_for_swap_kept(1) [OF assms(1)]] by simp
  obtain w3 e3 where r3: "os_Rename F lv bk w2 = (w3, e3)" by fastforce
  obtain w4 e4 where r4: "os_Rename F stg lv w3 = (w4, e4)" by fastforce
  obtain w5 r5 where r5: "badger_Open S (db_badgerOpts db) w4 = (w5, r5)" by fastforce
  obtain w1 e1 where r1: "os_RemoveAll F bk w = (w1, e1)" by fastforce
  have cl: "close_for_swap S (db, w1) = (db1, w2)" using assms(1) r1 by simp
  note run = restore_swap_def Let_def r1 cl r3 r4 r5 opts
  show ?thesis
  proof (cases e3)
    case (Some e)
    with r3 show ?thesis by (intro not_aside) (simp_all add: run case_prod_beta)
  next
    case e3: None
    show ?thesis
    proof (cases e4)
      case (Some e)
      with r3 r4 e3 show ?thesis
        by (intro not_moved [of w3 w4 e]) (simp_all add: run case_prod_beta)
    next
      case e4: None
      show ?thesis
      proof (cases r5)
        case (Inl e)
        with r3 r4 r5 e3 e4 show ?thesis
          by (intro not_opened [of w3 w4 w5 e]) (simp_all add: run case_prod_beta)
      next
        case (Inr b)
        with r3 r4 r5 e3 e4 show ?thesis
          by (intro published [of w3 w4 w5 b]) (simp_all add: run case_prod_beta)
      qed
    qed
  qed
qed

text \<open>The world when the swap starts to rename: only the backup and live trees were touched.\<close>

lemma before_renames:
  assumes ok: "storage_ok S G" and wf: "staged_layout G db"
    and run: "close_for_swap S (db, fst (os_RemoveAll F (backupDir_of (db_badgerDir db)) w)) = (db1, w2)"
  shows "w_fs w2 (stagingDir_of (db_badgerDir db)) = w_fs w (stagingDir_of (db_badgerDir db))"
proof -
  let ?bk = "backupDir_of (db_badgerDir db)"
  have "confined ?bk w (fst (os_RemoveAll F ?bk w))"
    using RemoveAll_confined [of F ?bk w] by (metis prod.collapse)
  then show ?thesis
    using confinedD [OF close_for_swap_confined [OF ok wf run]] by (simp add: confinedD)
qed

lemma restore_swap_published:
  assumes ok: "storage_ok S G" and wf: "staged_layout G db"
    and run: "restore_swap S F (db_badgerDir db) (stagingDir_of (db_badgerDir db))
                (backupDir_of (db_badgerDir db)) (db, w) = ((db', w'), None)"
  shows "\<exists>b. db_store db' = Some b \<and>
           g_contents G b = disk G (w_fs w) (stagingDir_of (db_badgerDir db)) \<and>
           g_opts G b = db_badgerOpts db'"
    and "db_appliedIndex db' = 0" and "staged_layout G db'"
proof -
  let ?lv = "db_badgerDir db" and ?stg = "stagingDir_of (db_badgerDir db)"
    and ?bk = "backupDir_of (db_badgerDir db)"
  obtain db1 w2 where cl: "close_for_swap S (db, fst (os_RemoveAll F ?bk w)) = (db1, w2)" by fastforce
  note fr = keptD [OF close_for_swap_kept(1) [OF cl]] and L = staged_layoutD [OF wf]
  have "\<exists>b. db_store db' = Some b \<and> g_contents G b = disk G (w_fs w) ?stg \<and>
      g_opts G b = db_badgerOpts db' \<and> db_appliedIndex db' = 0 \<and> staged_layout G db'"
    using cl
  proof (cases rule: restore_swap_cases [where lv = ?lv and stg = ?stg])
    case (published w3 w4 w5 b)
    have "w_fs w4 ?lv = w_fs w3 ?stg" using Rename_ok [OF published(2)] by simp
    also have "\<dots> = w_fs w2 ?stg" using Rename_ok [OF published(1)] by (simp add: moved_other)
    also have "\<dots> = w_fs w ?stg" by (rule before_renames [OF ok wf cl])
    finally have "disk G (w_fs w4) ?lv = disk G (w_fs w) ?stg" by (simp add: disk_def)
    moreover have "g_opts G b = db_badgerOpts db" by (rule openD(1) [OF ok published(3)])
    ultimately show ?thesis
      using published(4) run openD(4) [OF ok published(3) L(2)] L(1,2) fr
      by (auto simp: staged_layout_def)
  qed (use run in auto)
  then show "\<exists>b. db_store db' = Some b \<and> g_contents G b = disk G (w_fs w) ?stg \<and>
      g_opts G b = db_badgerOpts db'" and "db_appliedIndex db' = 0" and "staged_layout G db'" by blast+
qed

text \<open>After a failure the node serves what the rollback put in the live directory.\<close>

lemma rollback_fails_serves:
  assumes ok: "storage_ok S G"
    and dir: "opt_Dir (db_badgerOpts db) = db_badgerDir db" and co: "colocated (db_badgerOpts db)"
    and ren: "os_Rename F bk (db_badgerDir db) w = (v, Some e)"
    and run: "rollbackAndReopenLocked S F bk (db_badgerDir db) (db, w) = (db', w')"
  shows "serves G db' w' (disk G (w_fs w) (db_badgerDir db))"
    and "\<not> under (db_badgerDir db) q \<Longrightarrow> w_fs w' q = w_fs w q"
proof -
  let ?db = "log_printf db ''fsm: roll back badger dir after failed restore: %v'' e"
  from run ren have re: "reopenLocked S (?db, v) = (db', w')"
    by (simp add: rollbackAndReopenLocked_def)
  have "opt_Dir (db_badgerOpts ?db) = db_badgerDir ?db" "colocated (db_badgerOpts ?db)"
    using dir co by (simp_all add: frame_simps)
  from reopen_serves [OF ok re this] show "serves G db' w' (disk G (w_fs w) (db_badgerDir db))"
    by (simp add: frame_simps Rename_err [OF ren])
  show "\<not> under (db_badgerDir db) q \<Longrightarrow> w_fs w' q = w_fs w q"
    using reopen_confined [OF ok re] co dir Rename_err [OF ren] by (auto simp: frame_simps confined_def)
qed

lemma rollback_kept:
  assumes "rollbackAndReopenLocked S F bk lv (db, w) = (db', w')"
  shows "kept db db'"
proof -
  obtain v e where "os_Rename F bk lv w = (v, e)" by fastforce
  with assms show ?thesis
    by (cases e) (auto simp: rollbackAndReopenLocked_def dest!: reopen_kept)
qed

lemma restore_swap_failed_kept:
  assumes "restore_swap S F lv stg bk (db, w) = ((db', w'), Some se)"
  shows "kept db db'"
proof -
  obtain db1 w2 where cl: "close_for_swap S (db, fst (os_RemoveAll F bk w)) = (db1, w2)" by fastforce
  have "kept db1 db'"
    using cl
  proof (cases rule: restore_swap_cases [where lv = lv and stg = stg])
    case not_aside
    with assms show ?thesis by (auto dest: reopen_kept)
  next
    case not_moved
    with assms show ?thesis by (auto dest: rollback_kept)
  next
    case not_opened
    with assms show ?thesis by (auto dest: rollback_kept)
  qed (use assms in auto)
  with close_for_swap_kept(1) [OF cl] show ?thesis by (rule kept_trans)
qed

section \<open>The whole restore\<close>

lemma report_simps [simp]:
  "report ((db, w), None) = ((db, w), None)"
  "report ((db, w), Some (step, err)) =
     ((log_fsm db (restore_error step err), w), Some (restore_error step err))"
  by (simp_all add: report_def restoreErr_def)

lemma report_ok: "report x = ((db, w), None) \<longleftrightarrow> x = ((db, w), None)"
  by (cases x; cases "fst x"; cases "snd x") auto

lemma report_failed:
  assumes "report x = ((db', w'), Some err)"
  obtains db step e where "x = ((db, w'), Some (step, e))" and "err = restore_error step e"
    and "db' = log_fsm db err"
  using assms by (cases x; cases "fst x"; cases "snd x") auto

lemma serves_log [simp]: "serves G (log_fsm db e) w m = serves G db w m"
  by (cases "db_store db") (simp_all add: serves_def frame_simps)

lemma fsm_Restore_staged:
  assumes "\<not> in_place db"
  shows "fsm_Restore S F (db, w) rc =
     (case restore_stage S F (db_badgerOpts db) (stagingDir_of (db_badgerDir db)) w rc of
        (w1, Some se) \<Rightarrow> report ((db, w1), Some se)
      | (w1, None) \<Rightarrow>
          report (restore_swap S F (db_badgerDir db) (stagingDir_of (db_badgerDir db))
                    (backupDir_of (db_badgerDir db)) (db, w1)))"
  using assms by (simp add: fsm_Restore_def Let_def split: prod.splits option.splits)

lemma fsm_Restore_staged_cases:
  assumes "\<not> in_place db" and run: "fsm_Restore S F (db, w) rc = ((db', w'), r)"
  obtains
    (stage_failed) step e where "restore_stage S F (db_badgerOpts db) (stagingDir_of (db_badgerDir db)) w rc =
        (w', Some (step, e))" "r = Some (restore_error step e)" "db' = log_fsm db (restore_error step e)"
  | (swap_failed) w1 db1 step e where
      "restore_stage S F (db_badgerOpts db) (stagingDir_of (db_badgerDir db)) w rc = (w1, None)"
      "restore_swap S F (db_badgerDir db) (stagingDir_of (db_badgerDir db))
         (backupDir_of (db_badgerDir db)) (db, w1) = ((db1, w'), Some (step, e))"
      "r = Some (restore_error step e)" "db' = log_fsm db1 (restore_error step e)"
  | (restored) w1 where
      "restore_stage S F (db_badgerOpts db) (stagingDir_of (db_badgerDir db)) w rc = (w1, None)"
      "restore_swap S F (db_badgerDir db) (stagingDir_of (db_badgerDir db))
         (backupDir_of (db_badgerDir db)) (db, w1) = ((db', w'), None)" "r = None"
proof -
  obtain w1 f where st: "restore_stage S F (db_badgerOpts db) (stagingDir_of (db_badgerDir db)) w rc = (w1, f)"
    by fastforce
  note R = run [unfolded fsm_Restore_staged [OF assms(1)] st prod.case]
  show ?thesis
  proof (cases f)
    case (Some se)
    with R st show ?thesis by (cases se) (auto intro: stage_failed)
  next
    case None
    note st = st [unfolded None] and R = R [unfolded None option.case]
    show ?thesis
    proof (cases r)
      case None
      with R st show ?thesis by (intro restored) (simp_all add: report_ok)
    next
      case (Some err)
      show ?thesis
        by (rule report_failed [OF R [unfolded Some]], rule swap_failed [OF st]) (simp_all add: Some)
    qed
  qed
qed

lemma restore_staged_success:
  assumes ok: "storage_ok S G" and wf: "staged_layout G db"
    and run: "fsm_Restore S F (db, w) rc = ((db', w'), None)"
  shows "\<exists>b. db_store db' = Some b \<and> g_contents G b = g_stream G rc"
    and "db_appliedIndex db' = 0" and "staged_layout G db'"
proof -
  have "(\<exists>b. db_store db' = Some b \<and> g_contents G b = g_stream G rc) \<and> db_appliedIndex db' = 0 \<and>
      staged_layout G db'"
    using staged_layoutD(4) [OF wf] run
  proof (cases rule: fsm_Restore_staged_cases)
    case (restored w1)
    from restore_stage_success(1) [OF ok restored(1)] restore_swap_published [OF ok wf restored(2)]
    show ?thesis by auto
  qed auto
  then show "\<exists>b. db_store db' = Some b \<and> g_contents G b = g_stream G rc"
    and "db_appliedIndex db' = 0" and "staged_layout G db'" by blast+
qed

section \<open>The in-place path\<close>

lemma wipe_dirs_failed: "wipe_dirs S F ds w = (w', Some (step, e)) \<Longrightarrow>
    step = ''wipe badger dir'' \<or> step = ''recreate badger dir''"
  by (induction ds arbitrary: w) (auto simp: Let_def split: prod.splits option.splits)

lemma wipe_dirs_two:
  assumes "wipe_dirs S F [p, q] w = (w', None)" and "\<not> under p q" and "\<not> under q p"
  shows "vacant S (w_fs w') p" and "vacant S (w_fs w') q"
proof -
  from assms(1) obtain w1 w2 w3 where s: "os_RemoveAll F p w = (w1, None)"
      "os_MkdirAll F (s_empty S) p w1 = (w2, None)" "os_RemoveAll F q w2 = (w3, None)"
      "os_MkdirAll F (s_empty S) q w3 = (w', None)"
    by (auto simp: Let_def split: prod.splits option.splits)
  have "w_fs w2 p = Some (s_empty S)"
    using MkdirAll_made [OF s(2)] RemoveAll_gone [OF s(1), of p] by simp
  then show "vacant S (w_fs w') p"
    using confinedD [OF RemoveAll_confined [OF s(3)] assms(3)]
      confinedD [OF MkdirAll_confined [OF s(4)] assms(3)] by (simp add: vacant_def)
  show "vacant S (w_fs w') q"
    using MkdirAll_made [OF s(4)] RemoveAll_gone [OF s(3), of q] by (simp add: vacant_def)
qed

lemma restoreInPlace_success:
  assumes ok: "storage_ok S G"
    and dir: "opt_Dir (db_badgerOpts db) = db_badgerDir db"
    and apart: "\<not> under (db_badgerDir db) (opt_ValueDir (db_badgerOpts db))"
      "\<not> under (opt_ValueDir (db_badgerOpts db)) (db_badgerDir db)"
    and run: "restoreInPlace S F (db, w) rc = ((db', w'), None)"
  shows "\<exists>b. db_store db' = Some b \<and> g_contents G b = g_stream G rc" and "db_appliedIndex db' = 0"
proof -
  from run obtain w1 w2 w3 b b' where wipe:
      "wipe_dirs S F [db_badgerDir db, opt_ValueDir (db_badgerOpts db)] w1 = (w2, None)"
    and op: "badger_Open S (db_badgerOpts db) w2 = (w3, Inr b)"
    and ld: "s_Load S b rc snapshotLoadMaxPendingWrites = (b', None)"
    and db': "db' = db\<lparr>db_store := Some b', db_appliedIndex := 0\<rparr>"
    unfolding restoreInPlace_def
    by (auto simp: Let_def simp del: wipe_dirs.simps split: prod.splits option.splits sum.splits)
  have "g_contents G b = Map.empty"
    using openD(5) [OF ok op] wipe_dirs_two [OF wipe apart] dir by simp
  then show "\<exists>b. db_store db' = Some b \<and> g_contents G b = g_stream G rc" and "db_appliedIndex db' = 0"
    using loadD(2) [OF ok ld] db' by simp_all
qed

lemma restoreInPlace_failed:
  assumes "restoreInPlace S F (db, w) rc = ((db', w'), Some se)"
  shows "db' = db\<lparr>db_store := None\<rparr>"
  using assms unfolding restoreInPlace_def
  by (auto simp: Let_def simp del: wipe_dirs.simps split: prod.splits option.splits sum.splits)

lemma fsm_Restore_in_place:
  "in_place db \<Longrightarrow> fsm_Restore S F (db, w) rc = report (restoreInPlace S F (db, w) rc)"
  by (simp add: fsm_Restore_def Let_def)

section \<open>What a restore leaves alone\<close>

lemma fsm_Restore_frame:
  assumes "fsm_Restore S F (db, w) rc = ((db', w'), r)"
  shows "db_closed db' = db_closed db" "db_cfg db' = db_cfg db" "db_raft db' = db_raft db"
    "db_badgerOpts db' = db_badgerOpts db" "db_badgerDir db' = db_badgerDir db"
    "db_closeResult db' = db_closeResult db"
    "db_appliedIndex db' = (if r = None then 0 else db_appliedIndex db)"
proof -
  have "kept db (db'\<lparr>db_appliedIndex := db_appliedIndex db\<rparr>) \<and>
      db_appliedIndex db' = (if r = None then 0 else db_appliedIndex db)"
  proof (cases "in_place db")
    case True
    note R = assms [unfolded fsm_Restore_in_place [OF True]]
    show ?thesis
    proof (cases r)
      case None
      with R show ?thesis
        unfolding report_ok restoreInPlace_def kept_def
        by (auto simp: Let_def report_ok simp del: wipe_dirs.simps split: prod.splits option.splits sum.splits)
    next
      case (Some err)
      show ?thesis
        by (rule report_failed [OF R [unfolded Some]])
          (auto simp: Some kept_def frame_simps dest!: restoreInPlace_failed)
    qed
  next
    case False
    then show ?thesis
      using assms
    proof (cases rule: fsm_Restore_staged_cases)
      case stage_failed
      then show ?thesis by (simp add: kept_def frame_simps)
    next
      case (swap_failed w1 db1 step e)
      from restore_swap_failed_kept [OF swap_failed(2)] swap_failed(3,4) show ?thesis
        by (simp add: kept_def frame_simps)
    next
      case (restored w1)
      let ?bk = "backupDir_of (db_badgerDir db)"
      obtain db1 w2 where cl: "close_for_swap S (db, fst (os_RemoveAll F ?bk w1)) = (db1, w2)" by fastforce
      have "kept db db1" by (rule close_for_swap_kept(1) [OF cl])
      with cl show ?thesis
        by (cases rule: restore_swap_cases
              [where lv = "db_badgerDir db" and stg = "stagingDir_of (db_badgerDir db)"])
          (use restored in \<open>auto simp: kept_def\<close>)
    qed
  qed
  then show "db_closed db' = db_closed db" "db_cfg db' = db_cfg db" "db_raft db' = db_raft db"
    "db_badgerOpts db' = db_badgerOpts db" "db_badgerDir db' = db_badgerDir db"
    "db_closeResult db' = db_closeResult db"
    "db_appliedIndex db' = (if r = None then 0 else db_appliedIndex db)"
    by (simp_all add: kept_def)
qed

end
