(* ===== verification/Cluster.thy ===== *)
theory Cluster
  imports FSM
begin

text \<open>
  \<open>cluster.go\<close> and \<open>status.go\<close>: membership changes, the list of members, the forced
  snapshot, the wait for a leader, and the two introspection calls. \<open>waitForLeader\<close> is a
  loop that sleeps and polls; it runs over a stream of observations of the node and of the
  clock, and locale \<open>poller\<close> derives when it returns, and with what.
\<close>

section \<open>Membership\<close>

definition AddVoter ::
    "('b,'t,'v,'i,'m) badger_api \<Rightarrow> 'r raft_api \<Rightarrow> Node \<Rightarrow> ('b,'r,'o) DB \<Rightarrow>
     ('b,'r,'o) DB \<times> gerror option" where
  "AddVoter B R node db =
     (if node_ID node = [] then
        (db, Some (Errorf ''%w: AddVoter: node ID must not be empty'' [] (Sentinel ErrInvalidArgument)))
      else if node_RaftAddr node = [] then
        (db, Some (Errorf ''%w: AddVoter: node RaftAddr must not be empty'' [] (Sentinel ErrInvalidArgument)))
      else if node_Role node \<noteq> RoleNone \<and> node_Role node \<noteq> RoleVoter then
        (db, Some (Errorf ''%w: AddVoter: role must be RoleNone or RoleVoter, got %s''
                     [FStr (NodeRole_String (node_Role node))] (Sentinel ErrInvalidArgument)))
      else (case checkOpen db of
        Some e \<Rightarrow> (db, Some e)
      | None \<Rightarrow>
          if r_State R (db_raft db) \<noteq> RS_Leader then (db, Some (notLeaderErr R db))
          else
            let out = r_AddVoter R (db_raft db) (node_ID node) (node_RaftAddr node) 0
                        (adv_ApplyTimeout (cfg_Advanced (db_cfg db)));
                (db', resps) = fsm_run B (db\<lparr>db_raft := ro_raft out\<rparr>) (ro_logs out)
            in (db', map_option (raft_err R db') (ro_err out))))"

definition RemoveNode ::
    "('b,'t,'v,'i,'m) badger_api \<Rightarrow> 'r raft_api \<Rightarrow> string \<Rightarrow> ('b,'r,'o) DB \<Rightarrow>
     ('b,'r,'o) DB \<times> gerror option" where
  "RemoveNode B R id' db =
     (if id' = [] then
        (db, Some (Errorf ''%w: RemoveNode: node ID must not be empty'' [] (Sentinel ErrInvalidArgument)))
      else (case checkOpen db of
        Some e \<Rightarrow> (db, Some e)
      | None \<Rightarrow>
          if r_State R (db_raft db) \<noteq> RS_Leader then (db, Some (notLeaderErr R db))
          else
            let out = r_RemoveServer R (db_raft db) id' 0 (adv_ApplyTimeout (cfg_Advanced (db_cfg db)));
                (db', resps) = fsm_run B (db\<lparr>db_raft := ro_raft out\<rparr>) (ro_logs out)
            in (db', map_option (raft_err R db') (ro_err out))))"

definition node_of :: "raft_server \<Rightarrow> Node" where
  "node_of server =
     \<lparr>node_ID = srv_ID server, node_RaftAddr = srv_Address server,
      node_Role = roleFromRaft (srv_Suffrage server)\<rparr>"

definition Members :: "'r raft_api \<Rightarrow> ('b,'r,'o) DB \<Rightarrow> gerror + Node list" where
  "Members R db =
     (case checkOpen db of
        Some e \<Rightarrow> Inl e
      | None \<Rightarrow> map_sum (\<lambda>e. e) (map node_of) (r_GetConfiguration R (db_raft db)))"

text \<open>The forced snapshot: Raft calls back into \<open>Snapshot\<close> and \<open>Persist\<close>, which change nothing.\<close>

definition DB_Snapshot ::
    "('b,'t,'v,'i,'m) badger_api \<Rightarrow> 'r raft_api \<Rightarrow> ('b,'r,'o) DB \<Rightarrow> ('b,'r,'o) DB \<times> gerror option" where
  "DB_Snapshot B R db =
     (case checkOpen db of
        Some e \<Rightarrow> (db, Some e)
      | None \<Rightarrow>
          let out = r_Snapshot R (db_raft db);
              (db', resps) = fsm_run B (db\<lparr>db_raft := ro_raft out\<rparr>) (ro_logs out)
          in (db', ro_err out))"

section \<open>Status\<close>

definition leader_node :: "'r raft_api \<Rightarrow> ('b,'r,'o) DB \<Rightarrow> Node option" where
  "leader_node R db =
     (let (leaderAddr, leaderID) = r_LeaderWithID R (db_raft db) in
      if leaderID \<noteq> [] then
        Some \<lparr>node_ID = leaderID, node_RaftAddr = leaderAddr, node_Role = RoleVoter\<rparr>
      else None)"

text \<open>The loop over the servers: the first one with the ID, else the role it started with.\<close>

fun local_role :: "string \<Rightarrow> NodeRole \<Rightarrow> raft_server list \<Rightarrow> NodeRole" where
  "local_role nodeID role [] = role"
| "local_role nodeID role (server # servers) =
     (if srv_ID server = nodeID then roleFromRaft (srv_Suffrage server)
      else local_role nodeID role servers)"

definition DB_Status :: "'r raft_api \<Rightarrow> ('b,'r,'o) DB \<Rightarrow> gerror + Status" where
  "DB_Status R db =
     (case checkOpen db of
        Some e \<Rightarrow> Inl e
      | None \<Rightarrow>
          (case r_GetConfiguration R (db_raft db) of
             Inl e \<Rightarrow> Inl e
           | Inr servers \<Rightarrow>
               Inr \<lparr>st_Local = \<lparr>node_ID = cfg_NodeID (db_cfg db),
                       node_RaftAddr = r_LocalAddr R (db_raft db),
                       node_Role = local_role (cfg_NodeID (db_cfg db)) RoleNone servers\<rparr>,
                    st_State = stateFromRaft (r_State R (db_raft db)),
                    st_Leader = leader_node R db,
                    st_AppliedIndex = db_appliedIndex db\<rparr>))"

definition RawRaftStats :: "'r raft_api \<Rightarrow> ('b,'r,'o) DB \<Rightarrow> (string \<rightharpoonup> string)" where
  "RawRaftStats R db =
     (r_Stats R (db_raft db))(''honeybadger_applied_index'' \<mapsto> show_nat (unat (db_appliedIndex db)))"

section \<open>Waiting for a leader\<close>

definition leaderPollInterval :: duration where "leaderPollInterval = 20 * millisecond"

text \<open>
  In round \<open>i\<close> the loop looks at the node as it is then (\<open>dbs i\<close>) and reads the clock
  (\<open>clk i\<close>); then it sleeps. \<open>None\<close> is a wait that never ends.
\<close>

partial_function (option) wait_loop ::
    "'r raft_api \<Rightarrow> (nat \<Rightarrow> ('b,'r,'o) DB) \<Rightarrow> (nat \<Rightarrow> time) \<Rightarrow> duration \<Rightarrow> time \<Rightarrow> nat \<Rightarrow>
     (gerror + Node) option" where
  "wait_loop R dbs clk timeout deadline i =
     (case checkOpen (dbs i) of
        Some e \<Rightarrow> Some (Inl e)
      | None \<Rightarrow>
          (case leader_node R (dbs i) of
             Some node \<Rightarrow> Some (Inr node)
           | None \<Rightarrow>
               if \<not> clk i < deadline then
                 Some (Inl (Errorf ''%w after %s'' [FDur timeout] (Sentinel ErrNoLeader)))
               else wait_loop R dbs clk timeout deadline (Suc i)))"

definition waitForLeader ::
    "'r raft_api \<Rightarrow> time \<Rightarrow> (nat \<Rightarrow> ('b,'r,'o) DB) \<Rightarrow> (nat \<Rightarrow> time) \<Rightarrow> duration \<Rightarrow> (gerror + Node) option" where
  "waitForLeader R start dbs clk timeout = wait_loop R dbs clk timeout (start + timeout) 0"

definition WaitForLeader ::
    "'r raft_api \<Rightarrow> time \<Rightarrow> (nat \<Rightarrow> ('b,'r,'o) DB) \<Rightarrow> (nat \<Rightarrow> time) \<Rightarrow> duration \<Rightarrow> (gerror + Node) option" where
  "WaitForLeader R start dbs clk timeout = waitForLeader R start dbs clk timeout"

text \<open>
  A clock that the sleeps move on: each round costs at least the interval.
\<close>

definition sleeps :: "time \<Rightarrow> duration \<Rightarrow> (nat \<Rightarrow> time) \<Rightarrow> bool" where
  "sleeps start interval clk \<longleftrightarrow> start \<le> clk 0 \<and> (\<forall>i. clk i + interval \<le> clk (Suc i))"

lemma sleeps_after: "sleeps start interval clk \<Longrightarrow> start + int i * interval \<le> clk i"
proof (induction i)
  case (Suc i)
  then have "start + int i * interval \<le> clk i" "clk i + interval \<le> clk (Suc i)"
    by (simp_all add: sleeps_def)
  then show ?case by (simp add: distrib_right)
qed (simp add: sleeps_def)

section \<open>Polling loops\<close>

text \<open>
  The interface of such loops: a round either decides or the loop goes to the next, until
  the deadline has passed.
\<close>

locale poller =
  fixes poll :: "(nat \<Rightarrow> time) \<Rightarrow> time \<Rightarrow> nat \<Rightarrow> 'a option"
    and decide :: "nat \<Rightarrow> 'a option"
    and expired :: 'a
  assumes unfold: "poll clk deadline i =
    (case decide i of
       Some x \<Rightarrow> Some x
     | None \<Rightarrow> if \<not> clk i < deadline then Some expired else poll clk deadline (Suc i))"
begin

text \<open>The loop ends in the first round that decides, or that finds the deadline passed.\<close>

lemma stops:
  assumes "i \<le> n" and "decide n \<noteq> None \<or> deadline \<le> clk n"
    and "\<And>j. i \<le> j \<Longrightarrow> j < n \<Longrightarrow> decide j = None \<and> clk j < deadline"
  shows "poll clk deadline i = Some (case decide n of Some x \<Rightarrow> x | None \<Rightarrow> expired)"
  using assms
proof (induction "n - i" arbitrary: i)
  case 0
  then have "i = n" by simp
  with 0 show ?case by (subst unfold) (auto split: option.split)
next
  case (Suc k)
  then have "i < n" by simp
  with Suc.prems have "decide i = None" "clk i < deadline" by auto
  moreover have "poll clk deadline (Suc i) = Some (case decide n of Some x \<Rightarrow> x | None \<Rightarrow> expired)"
    using Suc.prems \<open>i < n\<close> Suc.hyps(2) by (intro Suc.hyps(1)) auto
  ultimately show ?case by (subst unfold) simp
qed

text \<open>With sleeps of positive length it ends, in a bounded number of rounds.\<close>

lemma ends:
  assumes "sleeps start interval clk" and "0 < interval"
  obtains n where "int n * interval < deadline - start + interval \<or> n = 0"
    and "decide n \<noteq> None \<or> deadline \<le> clk n"
    and "\<And>j. j < n \<Longrightarrow> decide j = None \<and> clk j < deadline"
    and "poll clk deadline 0 = Some (case decide n of Some x \<Rightarrow> x | None \<Rightarrow> expired)"
proof -
  let ?stop = "\<lambda>n. decide n \<noteq> None \<or> deadline \<le> clk n"
  define N where "N = nat (deadline - start)"
  have "deadline - start \<le> int N" by (simp add: N_def)
  also have "\<dots> \<le> int N * interval" using assms(2) by (simp add: mult_le_cancel_left1)
  finally have "deadline \<le> clk N" using sleeps_after [OF assms(1), of N] by simp
  then have ex: "?stop N" by blast
  define n where "n = (LEAST n. ?stop n)"
  have fin: "?stop n" unfolding n_def by (rule LeastI [of ?stop, OF ex])
  have before: "decide j = None \<and> clk j < deadline" if "j < n" for j
    using not_less_Least [of j ?stop] that unfolding n_def by auto
  have "int n * interval < deadline - start + interval \<or> n = 0"
  proof (cases n)
    case (Suc m)
    with before [of m] sleeps_after [OF assms(1), of m] have "start + int m * interval < deadline" by simp
    with Suc show ?thesis by (simp add: distrib_right)
  qed simp
  then show ?thesis
    using fin before stops [of 0 n deadline clk] by (intro that [of n]) auto
qed

text \<open>Failure is the decision of a round or the expiry.\<close>

lemma result:
  assumes "sleeps start interval clk" and "0 < interval" and "poll clk deadline 0 = Some x"
  shows "(\<exists>n. decide n = Some x) \<or> (x = expired \<and> (\<exists>n. deadline \<le> clk n \<and> (\<forall>j \<le> n. decide j = None)))"
proof -
  obtain n where n: "decide n \<noteq> None \<or> deadline \<le> clk n"
    "\<And>j. j < n \<Longrightarrow> decide j = None \<and> clk j < deadline"
    "poll clk deadline 0 = Some (case decide n of Some x \<Rightarrow> x | None \<Rightarrow> expired)"
    using ends [OF assms(1,2)] by metis
  show ?thesis
  proof (cases "decide n")
    case None
    with n assms(3) show ?thesis by (metis le_neq_implies_less option.inject option.simps(4))
  qed (use n assms(3) in auto)
qed

end

text \<open>What a round of \<open>waitForLeader\<close> decides.\<close>

definition wait_decision :: "'r raft_api \<Rightarrow> ('b,'r,'o) DB \<Rightarrow> (gerror + Node) option" where
  "wait_decision R db =
     (case checkOpen db of Some e \<Rightarrow> Some (Inl e) | None \<Rightarrow> map_option Inr (leader_node R db))"

interpretation wfl: poller "\<lambda>clk. wait_loop R dbs clk timeout" "\<lambda>i. wait_decision R (dbs i)"
    "Inl (Errorf ''%w after %s'' [FDur timeout] (Sentinel ErrNoLeader))" for R dbs timeout
  by unfold_locales (subst wait_loop.simps, simp add: wait_decision_def split: option.split)

text \<open>Whatever the clock does, a leader that is returned was seen.\<close>

lemma wait_loop_result:
  "wait_loop R dbs clk timeout deadline i = Some res \<Longrightarrow>
     (case res of
        Inr node \<Rightarrow> \<exists>j. i \<le> j \<and> \<not> db_closed (dbs j) \<and> leader_node R (dbs j) = Some node
      | Inl e \<Rightarrow> errors_is e ErrNoLeader \<or> (\<exists>j. i \<le> j \<and> db_closed (dbs j) \<and> e = Sentinel ErrClosed))"
proof (induction rule: wait_loop.raw_induct [rotated, consumes 1, case_names step])
  case (step loop R dbs clk timeout deadline i res)
  show ?case
  proof (cases "db_closed (dbs i)")
    case True
    with step(2) show ?thesis by (auto simp: guard_simps)
  next
    case False
    then have o: "checkOpen (dbs i) = None" by (simp add: guard_simps)
    show ?thesis
    proof (cases "leader_node R (dbs i)")
      case (Some node)
      with False o step(2) show ?thesis by auto
    next
      case None
      show ?thesis
      proof (cases "clk i < deadline")
        case True
        with None o step(2) have "loop R dbs clk timeout deadline (Suc i) = Some res" by simp
        from step(1) [OF this] show ?thesis by (auto split: sum.splits dest: Suc_leD)
      next
        case False
        with None o step(2) show ?thesis by auto
      qed
    qed
  qed
qed

section \<open>Guards\<close>

definition valid_voter :: "Node \<Rightarrow> bool" where
  "valid_voter node \<longleftrightarrow>
     node_ID node \<noteq> [] \<and> node_RaftAddr node \<noteq> [] \<and> node_Role node \<in> {RoleNone, RoleVoter}"

lemma AddVoter_invalid:
  "\<not> valid_voter node \<Longrightarrow> \<exists>e. AddVoter B R node db = (db, Some e) \<and> errors_is e ErrInvalidArgument"
  by (auto simp: AddVoter_def valid_voter_def)

lemma RemoveNode_invalid:
  "\<exists>e. RemoveNode B R [] db = (db, Some e) \<and> errors_is e ErrInvalidArgument"
  by (simp add: RemoveNode_def)

lemma valid_voterD:
  "valid_voter node \<Longrightarrow> node_ID node \<noteq> [] \<and> node_RaftAddr node \<noteq> [] \<and>
     \<not> (node_Role node \<noteq> RoleNone \<and> node_Role node \<noteq> RoleVoter)"
  by (auto simp: valid_voter_def)

interpretation AddVoter: leader_call R "valid_voter node" "AddVoter B R node" for B R node
  by unfold_locales (simp_all add: AddVoter_invalid, simp_all add: AddVoter_def guard_simps valid_voterD)

interpretation RemoveNode: leader_call R "id' \<noteq> []" "RemoveNode B R id'" for B R id'
  by unfold_locales (simp_all add: RemoveNode_invalid, simp_all add: RemoveNode_def guard_simps)

end
