(* ===== verification/Lifecycle.thy ===== *)
theory Lifecycle
  imports Restore Cluster
begin

text \<open>
  \<open>Open\<close> and \<open>Close\<close> of \<open>db.go\<close>. \<open>Open\<close> acquires the Badger database, the Bolt log store,
  the transport and the Raft node one after the other, the first three with a deferred
  cleanup that runs when a later step fails; \<open>Close\<close> releases all four, once. Raft's own
  files and the transport are a parameter (\<open>raft_env\<close>); acquisitions and releases are
  recorded in a trace, so that a leak is visible.
\<close>

section \<open>Close\<close>

datatype resource = StoreHandle | BoltHandle | TransportHandle | RaftHandle

datatype event = Acquired resource | Released resource

text \<open>What is held after a trace, newest first.\<close>

fun held_after :: "resource list \<Rightarrow> event list \<Rightarrow> resource list" where
  "held_after hs [] = hs"
| "held_after hs (Acquired r # es) = held_after (r # hs) es"
| "held_after hs (Released r # es) = held_after (remove1 r hs) es"

text \<open>
  The FSM may still be handed entries while Raft shuts down. Every error is kept; the first
  call's result is what later calls return.
\<close>

definition DB_Close ::
    "('b,'t,'v,'i,'m) badger_api \<Rightarrow> ('b,'o,'d,'s) storage_api \<Rightarrow> 'r raft_api \<Rightarrow>
     ('b,'r,'o) DB \<times> 'd world \<Rightarrow> ((('b,'r,'o) DB \<times> 'd world) \<times> event list) \<times> gerror option" where
  "DB_Close B S R dw =
     (let (db, w) = dw in
      case db_closeResult db of
        Some closeErr \<Rightarrow> (((db, w), []), closeErr)
      | None \<Rightarrow>
          let db0 = db\<lparr>db_closed := True\<rparr>;
              out = r_Shutdown R (db_raft db0);
              (db1, resps) = fsm_run B (db0\<lparr>db_raft := ro_raft out\<rparr>) (ro_logs out);
              (r2, e2) = r_TransportClose R (db_raft db1);
              (r3, e3) = r_BoltClose R r2;
              ((db2, w'), e4) = closeStore S (db1\<lparr>db_raft := r3\<rparr>, w);
              closeErr = errors_Join [ro_err out, e2, e3, e4]
          in (((db2\<lparr>db_closeResult := Some closeErr\<rparr>, w'),
               map Released [RaftHandle, TransportHandle, BoltHandle, StoreHandle]), closeErr))"

section \<open>The environment of Open\<close>

text \<open>The fields of \<open>raft.Config\<close> that are set.\<close>

record raft_config =
  rc_LocalID :: string
  rc_SnapshotThreshold :: uint64
  rc_TrailingLogs :: uint64
  rc_LogOutput :: "writer option"

text \<open>What Raft asks of the FSM while it starts: to restore a snapshot, to apply entries.\<close>

datatype 's fsm_call = CallApply raft_log | CallRestore 's

text \<open>
  \<open>'p\<close> is the Raft side of the process before a node runs (log store, snapshots,
  transport). \<open>e_startup\<close> are the FSM calls of \<open>NewRaft\<close>, which sees the answers; \<open>e_nil\<close>
  stands for the nil pointer the \<open>DB\<close> holds until then. \<open>e_polls\<close> and \<open>e_clock\<close> are what
  the wait for the first leader observes, \<open>e_settled\<close> and \<open>e_elected\<close> the Raft node and
  the entries applied by the time it is over.
\<close>

record ('r, 'p, 's, 'addr) raft_env =
  e_nil :: 'r
  e_start :: 'p
  e_NewBoltStore :: "path \<Rightarrow> 'p \<Rightarrow> gerror + 'p"
  e_NewFileSnapshotStore :: "path \<Rightarrow> int \<Rightarrow> 'p \<Rightarrow> gerror + 'p"
  e_NewTCPTransport :: "string \<Rightarrow> 'addr option \<Rightarrow> int \<Rightarrow> duration \<Rightarrow> 'p \<Rightarrow> gerror + 'p"
  e_LocalAddr :: "'p \<Rightarrow> string"
  e_BootstrapCluster :: "raft_config \<Rightarrow> raft_server list \<Rightarrow> 'p \<Rightarrow> 'p \<times> gerror option"
  e_startup :: "raft_config \<Rightarrow> 'p \<Rightarrow> 's fsm_call list"
  e_NewRaft :: "raft_config \<Rightarrow> 'p \<Rightarrow> gerror option list \<Rightarrow> gerror + 'r"
  e_now :: time
  e_clock :: "nat \<Rightarrow> time"
  e_polls :: "'r \<Rightarrow> nat \<Rightarrow> 'r"
  e_settled :: "'r \<Rightarrow> 'r"
  e_elected :: "'r \<Rightarrow> raft_log list"

fun fsm_calls ::
    "('b,'t,'v,'i,'m) badger_api \<Rightarrow> ('b,'o,'d,'s) storage_api \<Rightarrow> 'd faults \<Rightarrow>
     ('b,'r,'o) DB \<times> 'd world \<Rightarrow> 's fsm_call list \<Rightarrow>
     (('b,'r,'o) DB \<times> 'd world) \<times> gerror option list" where
  "fsm_calls B S F dw [] = (dw, [])"
| "fsm_calls B S F dw (CallApply l # cs) =
     (let (db', r) = fsm_Apply B (fst dw) l; (dw', rs) = fsm_calls B S F (db', snd dw) cs
      in (dw', r # rs))"
| "fsm_calls B S F dw (CallRestore s # cs) =
     (let (dw1, r) = fsm_Restore S F dw s; (dw', rs) = fsm_calls B S F dw1 cs in (dw', r # rs))"

section \<open>Open\<close>

definition snapshotRetainCount :: int where "snapshotRetainCount = 2"
definition transportMaxPool :: int where "transportMaxPool = 3"
definition transportTimeout :: duration where "transportTimeout = 10 * second"

definition new_db :: "'o Config \<Rightarrow> 'o badger_options \<Rightarrow> 'r \<Rightarrow> 'b \<Rightarrow> ('b,'r,'o) DB" where
  "new_db cfg opts nil store =
     \<lparr>db_cfg = cfg, db_raft = nil, db_store = Some store, db_appliedIndex = 0, db_logger = [],
      db_badgerOpts = opts, db_badgerDir = opt_Dir opts, db_closed = False, db_closeResult = None\<rparr>"

text \<open>The database.\<close>

definition open_badger ::
    "('b,'o,'d,'s) storage_api \<Rightarrow> 'd faults \<Rightarrow> 'o badger_options \<Rightarrow> 'd world \<Rightarrow> 'd world \<times> (gerror + 'b)" where
  "open_badger S F opts w =
     (let (w1, e1) = os_MkdirAll F (s_empty S) (opt_Dir opts) w in
      case e1 of
        Some err \<Rightarrow> (w1, Inl (Errorf ''honeybadger: create badger dir: %w'' [] err))
      | None \<Rightarrow>
          let (w2, r) = badger_Open S opts w1 in
          (w2, map_sum (\<lambda>err. Errorf ''honeybadger: open badger: %w'' [] err) (\<lambda>b. b) r))"

text \<open>The Raft side, with what it holds when it stops.\<close>

definition open_raft_side ::
    "('b,'o,'d,'s) storage_api \<Rightarrow> 'd faults \<Rightarrow> ('r,'p,'s,'addr) raft_env \<Rightarrow> 'o Config \<Rightarrow> 'addr option \<Rightarrow>
     'd world \<Rightarrow> ('d world \<times> resource list) \<times> (gerror + 'p)" where
  "open_raft_side S F env cfg advertise w =
     (let (w1, e1) = os_MkdirAll F (s_empty S) (raftDir cfg) w in
      case e1 of
        Some err \<Rightarrow> ((w1, []), Inl (Errorf ''honeybadger: create raft dir: %w'' [] err))
      | None \<Rightarrow>
      case e_NewBoltStore env (filepath_Join (raftDir cfg) ''raft.db'') (e_start env) of
        Inl err \<Rightarrow> ((w1, []), Inl (Errorf ''honeybadger: open raft bolt store: %w'' [] err))
      | Inr p1 \<Rightarrow>
      case e_NewFileSnapshotStore env (raftDir cfg) snapshotRetainCount p1 of
        Inl err \<Rightarrow> ((w1, [BoltHandle]), Inl (Errorf ''honeybadger: open snapshot store: %w'' [] err))
      | Inr p2 \<Rightarrow>
      case e_NewTCPTransport env (cfg_RaftBind cfg) advertise transportMaxPool transportTimeout p2 of
        Inl err \<Rightarrow> ((w1, [BoltHandle]), Inl (Errorf ''honeybadger: open raft transport: %w'' [] err))
      | Inr p3 \<Rightarrow> ((w1, [TransportHandle, BoltHandle]), Inr p3))"

definition raft_config_of :: "'o Config \<Rightarrow> raft_config" where
  "raft_config_of cfg =
     \<lparr>rc_LocalID = cfg_NodeID cfg,
      rc_SnapshotThreshold = adv_SnapshotThreshold (cfg_Advanced cfg),
      rc_TrailingLogs = adv_SnapshotThreshold (cfg_Advanced cfg),
      rc_LogOutput = adv_LogOutput (cfg_Advanced cfg)\<rparr>"

text \<open>A data directory that already holds cluster state is recovered, not an error.\<close>

definition bootstrap ::
    "('r,'p,'s,'addr) raft_env \<Rightarrow> bool \<Rightarrow> 'o Config \<Rightarrow> 'p \<Rightarrow> gerror + 'p" where
  "bootstrap env newCluster cfg p =
     (if \<not> newCluster then Inr p
      else
        let (p', e) = e_BootstrapCluster env (raft_config_of cfg)
              [\<lparr>srv_Suffrage = RV_Voter, srv_ID = cfg_NodeID cfg, srv_Address = e_LocalAddr env p\<rparr>] p in
        case e of
          None \<Rightarrow> Inr p'
        | Some err \<Rightarrow>
            if \<not> errors_is err Raft_ErrCantBootstrap
            then Inl (Errorf ''honeybadger: bootstrap cluster: %w'' [] err)
            else Inr p')"

text \<open>The deferred cleanups, newest first.\<close>

fun cleanup ::
    "('b,'o,'d,'s) storage_api \<Rightarrow> resource list \<Rightarrow> ('b,'r,'o) DB \<times> 'd world \<Rightarrow>
     (('b,'r,'o) DB \<times> 'd world) \<times> event list" where
  "cleanup S [] dw = (dw, [])"
| "cleanup S (r # rs) dw =
     (let dw1 = (if r = StoreHandle then fst (closeStore S dw) else dw);
          (dw', es) = cleanup S rs dw1
      in (dw', Released r # es))"

text \<open>How \<open>Open\<close> ends. \<open>oo_store\<close> is the store handle of the node, returned or given up.\<close>

record ('b, 'r, 'o, 'd) open_outcome =
  oo_world :: "'d world"
  oo_trace :: "event list"
  oo_store :: "'b option"
  oo_result :: "gerror + ('b,'r,'o) DB"

definition give_up ::
    "('b,'o,'d,'s) storage_api \<Rightarrow> resource list \<Rightarrow> ('b,'r,'o) DB \<times> 'd world \<Rightarrow> gerror \<Rightarrow>
     ('b,'r,'o,'d) open_outcome" where
  "give_up S hs dw err =
     (let ((db, w), es) = cleanup S hs dw in
      \<lparr>oo_world = w, oo_trace = map Acquired (rev hs) @ es, oo_store = db_store db, oo_result = Inl err\<rparr>)"

text \<open>The tail of \<open>Open\<close>, with the database and the Raft side in hand.\<close>

definition start_node ::
    "('b,'t,'v,'i,'m) badger_api \<Rightarrow> ('b,'o,'d,'s) storage_api \<Rightarrow> 'r raft_api \<Rightarrow> 'd faults \<Rightarrow>
     ('r,'p,'s,'addr) raft_env \<Rightarrow> bool \<Rightarrow> 'o Config \<Rightarrow> resource list \<Rightarrow> ('b,'r,'o) DB \<times> 'd world \<Rightarrow> 'p \<Rightarrow>
     ('b,'r,'o,'d) open_outcome option" where
  "start_node B S R F env newCluster cfg hs dw p =
     (case bootstrap env newCluster cfg p of
        Inl err \<Rightarrow> Some (give_up S hs dw err)
      | Inr p' \<Rightarrow>
          let ((db1, w1), resps) = fsm_calls B S F dw (e_startup env (raft_config_of cfg) p') in
          case e_NewRaft env (raft_config_of cfg) p' resps of
            Inl err \<Rightarrow> Some (give_up S hs (db1, w1) (Errorf ''honeybadger: start raft: %w'' [] err))
          | Inr r \<Rightarrow>
              let db2 = db1\<lparr>db_raft := r\<rparr>; acquired = map Acquired (rev (RaftHandle # hs)) in
              if \<not> newCluster then
                Some \<lparr>oo_world = w1, oo_trace = acquired, oo_store = db_store db2, oo_result = Inr db2\<rparr>
              else
                (case waitForLeader R (e_now env) (\<lambda>i. db2\<lparr>db_raft := e_polls env r i\<rparr>) (e_clock env)
                        newClusterLeaderTimeout of
                   None \<Rightarrow> None
                 | Some res \<Rightarrow>
                     let (db3, _) = fsm_run B (db2\<lparr>db_raft := e_settled env r\<rparr>) (e_elected env r) in
                     (case res of
                        Inl werr \<Rightarrow>
                          let (((db4, w4), es), _) = DB_Close B S R (db3, w1) in
                          Some \<lparr>oo_world = w4, oo_trace = acquired @ es, oo_store = db_store db4,
                            oo_result = Inl (Errorf ''honeybadger: open new cluster: %w'' [] werr)\<rparr>
                      | Inr node \<Rightarrow>
                          Some \<lparr>oo_world = w1, oo_trace = acquired, oo_store = db_store db3,
                            oo_result = Inr db3\<rparr>)))"

definition refuse_open :: "'d world \<Rightarrow> gerror \<Rightarrow> ('b,'r,'o,'d) open_outcome" where
  "refuse_open w err = \<lparr>oo_world = w, oo_trace = [], oo_store = None, oo_result = Inl err\<rparr>"

text \<open>\<open>None\<close> where \<open>Open\<close> does not return.\<close>

definition DB_Open ::
    "('b,'t,'v,'i,'m) badger_api \<Rightarrow> ('b,'o,'d,'s) storage_api \<Rightarrow> 'r raft_api \<Rightarrow> 'd faults \<Rightarrow>
     ('r,'p,'s,'addr) raft_env \<Rightarrow> (path \<Rightarrow> 'o badger_options) \<Rightarrow> (string \<Rightarrow> gerror + 'addr) \<Rightarrow>
     'o Config \<Rightarrow> OpenOption list \<Rightarrow> 'd world \<Rightarrow> ('b,'r,'o,'d) open_outcome option" where
  "DB_Open B S R F env defaultOptions resolveTCPAddr cfg options w =
     (case parseOpenOptions options of
        Inl err \<Rightarrow> Some (refuse_open w err)
      | Inr newCluster \<Rightarrow>
      case validateConfig cfg of
        Some err \<Rightarrow> Some (refuse_open w err)
      | None \<Rightarrow>
      let cfg = setDefaults cfg in
      case resolveAdvertise resolveTCPAddr cfg of
        Inl err \<Rightarrow> Some (refuse_open w err)
      | Inr advertise \<Rightarrow>
      let opts = resolveBadgerOptions defaultOptions cfg;
          (w1, r) = open_badger S F opts w in
      case r of
        Inl err \<Rightarrow> Some (refuse_open w1 err)
      | Inr store \<Rightarrow>
      let db = new_db cfg opts (e_nil env) store;
          ((w2, hs), r) = open_raft_side S F env cfg advertise w1 in
      case r of
        Inl err \<Rightarrow> Some (give_up S (hs @ [StoreHandle]) (db, w2) err)
      | Inr p \<Rightarrow> start_node B S R F env newCluster cfg (hs @ [StoreHandle]) (db, w2) p)"

section \<open>Lemmas\<close>

lemma closeStore_store:
  assumes "closeStore S (db, w) = ((db', w'), e)"
  shows "db_store db' = None" "db_closed db' = db_closed db" "db_closeResult db' = db_closeResult db"
    "db_cfg db' = db_cfg db" "db_raft db' = db_raft db" "db_badgerOpts db' = db_badgerOpts db"
    "db_badgerDir db' = db_badgerDir db" "db_appliedIndex db' = db_appliedIndex db"
  using assms by (auto simp: closeStore_def split: option.splits prod.splits)

lemma DB_Close_again:
  "db_closeResult db = Some res \<Longrightarrow> DB_Close B S R (db, w) = (((db, w), []), res)"
  by (simp add: DB_Close_def)

lemma DB_Close_first:
  assumes "DB_Close B S R (db, w) = (((db', w'), es), res)" and "db_closeResult db = None"
  shows "db_closed db'" and "db_store db' = None" and "db_closeResult db' = Some res"
    and "es = map Released [RaftHandle, TransportHandle, BoltHandle, StoreHandle]"
proof -
  let ?db0 = "db\<lparr>db_closed := True\<rparr>"
  let ?out = "r_Shutdown R (db_raft ?db0)"
  obtain db1 rs where run: "fsm_run B (?db0\<lparr>db_raft := ro_raft ?out\<rparr>) (ro_logs ?out) = (db1, rs)" by fastforce
  obtain r2 e2 where t: "r_TransportClose R (db_raft db1) = (r2, e2)" by fastforce
  obtain r3 e3 where b: "r_BoltClose R r2 = (r3, e3)" by fastforce
  obtain db2 v e4 where c: "closeStore S (db1\<lparr>db_raft := r3\<rparr>, w) = ((db2, v), e4)"
    by (metis prod.collapse)
  from assms run t b c have res: "db' = db2\<lparr>db_closeResult := Some res\<rparr>"
    "es = map Released [RaftHandle, TransportHandle, BoltHandle, StoreHandle]"
    by (auto simp: DB_Close_def Let_def)
  with closeStore_store [OF c] fsm_run_frame(1) [OF run]
  show "db_closed db'" and "db_store db' = None" and "db_closeResult db' = Some res"
    and "es = map Released [RaftHandle, TransportHandle, BoltHandle, StoreHandle]" by simp_all
qed

section \<open>What the trace of a failed Open leaves\<close>

lemma held_acquired [simp]: "held_after hs (map Acquired xs @ es) = held_after (rev xs @ hs) es"
  by (induction xs arbitrary: hs) simp_all

lemma held_acquired_all [simp]: "held_after hs (map Acquired xs) = rev xs @ hs"
  using held_acquired [of hs xs "[]"] by simp

lemma held_released [simp]: "held_after hs (map Released hs) = []"
  by (induction hs) simp_all

lemma cleanup_trace: "snd (cleanup S hs dw) = map Released hs"
  by (induction hs arbitrary: dw) (simp_all add: Let_def case_prod_beta)

lemma cleanup_no_store: "db_store (fst dw) = None \<Longrightarrow> db_store (fst (fst (cleanup S hs dw))) = None"
proof (induction hs arbitrary: dw)
  case (Cons h hs)
  have "db_store (fst (fst (closeStore S dw))) = None"
    by (cases dw) (metis closeStore_store(1) fst_conv prod.collapse)
  with Cons show ?case by (simp add: Let_def case_prod_beta)
qed simp

lemma cleanup_closes_store:
  "StoreHandle \<in> set hs \<Longrightarrow> db_store (fst (fst (cleanup S hs dw))) = None"
proof (induction hs arbitrary: dw)
  case (Cons h hs)
  have closed: "db_store (fst (fst (closeStore S dw))) = None"
    by (cases dw) (metis closeStore_store(1) fst_conv prod.collapse)
  show ?case
  proof (cases "h = StoreHandle")
    case True
    with cleanup_no_store [OF closed] show ?thesis by (simp add: Let_def case_prod_beta)
  next
    case False
    with Cons show ?thesis by (simp add: Let_def case_prod_beta)
  qed
qed simp

text \<open>A trace with nothing held at its end, and no store handle left open.\<close>

definition released :: "('b,'r,'o,'d) open_outcome \<Rightarrow> bool" where
  "released out \<longleftrightarrow> held_after [] (oo_trace out) = [] \<and> oo_store out = None"

lemma refuse_released [simp]: "released (refuse_open w err)"
  by (simp add: released_def refuse_open_def)

lemma give_up_released: "StoreHandle \<in> set hs \<Longrightarrow> released (give_up S hs dw err)"
  using cleanup_trace [of S hs dw] cleanup_closes_store [of hs S dw]
  by (auto simp: released_def give_up_def split: prod.splits)

lemma give_up_result [simp]: "oo_result (give_up S hs dw err) = Inl err"
  and refuse_result [simp]: "oo_result (refuse_open w err) = Inl err"
  by (simp_all add: give_up_def refuse_open_def split: prod.split)

text \<open>The fields of the node that starting it does not touch.\<close>

definition fresh_node :: "'o Config \<Rightarrow> 'o badger_options \<Rightarrow> ('b,'r,'o) DB \<Rightarrow> bool" where
  "fresh_node cfg opts db \<longleftrightarrow>
     db_cfg db = cfg \<and> db_badgerOpts db = opts \<and> db_badgerDir db = opt_Dir opts \<and>
     \<not> db_closed db \<and> db_closeResult db = None"

lemma fresh_new_db [simp]: "fresh_node cfg opts (new_db cfg opts nil b)"
  by (simp add: fresh_node_def new_db_def)

lemma fresh_raft [simp]: "fresh_node cfg opts (db\<lparr>db_raft := r\<rparr>) = fresh_node cfg opts db"
  by (simp add: fresh_node_def)

lemma fresh_fsm_run: "fresh_node cfg opts db \<Longrightarrow> fsm_run B db ls = (db', rs) \<Longrightarrow> fresh_node cfg opts db'"
  using fsm_run_frame [of B db ls db' rs] by (simp add: fresh_node_def)

lemma fresh_fsm_calls:
  "fresh_node cfg opts (fst dw) \<Longrightarrow> fsm_calls B S F dw cs = ((db', w'), rs) \<Longrightarrow> fresh_node cfg opts db'"
proof (induction cs arbitrary: dw rs)
  case (Cons c cs)
  show ?case
  proof (cases c)
    case (CallApply l)
    obtain db1 r where one: "fsm_Apply B (fst dw) l = (db1, r)" by fastforce
    with Cons.prems(1) fsm_Apply_frame [OF one] have "fresh_node cfg opts db1"
      by (simp add: fresh_node_def)
    with Cons.IH [of "(db1, snd dw)"] Cons.prems(2) CallApply one show ?thesis
      by (auto split: prod.splits)
  next
    case (CallRestore s)
    obtain db1 w1 r where one: "fsm_Restore S F (fst dw, snd dw) s = ((db1, w1), r)"
      by (metis prod.collapse)
    with Cons.prems(1) fsm_Restore_frame [OF one] have "fresh_node cfg opts db1"
      by (simp add: fresh_node_def)
    with Cons.IH [of "(db1, w1)"] Cons.prems(2) CallRestore one show ?thesis
      by (auto split: prod.splits)
  qed
qed simp

text \<open>How the tail of \<open>Open\<close> ends.\<close>

definition raft_side_held :: "resource list" where
  "raft_side_held = [TransportHandle, BoltHandle, StoreHandle]"

lemma start_node_result:
  assumes run: "start_node B S R F env newCluster cfg raft_side_held (db, w) p = Some out"
    and fresh: "fresh_node cfg opts db"
  shows "case oo_result out of
      Inl e \<Rightarrow> released out
    | Inr db' \<Rightarrow>
        fresh_node cfg opts db' \<and> held_after [] (oo_trace out) = RaftHandle # raft_side_held \<and>
        oo_store out = db_store db' \<and>
        (newCluster \<longrightarrow> (\<exists>r i. leader_node R (db'\<lparr>db_raft := e_polls env r i\<rparr>) \<noteq> None))"
proof (cases "bootstrap env newCluster cfg p")
  case (Inl e)
  with run have "out = give_up S raft_side_held (db, w) e" by (simp add: start_node_def)
  then show ?thesis by (simp add: give_up_released raft_side_held_def)
next
  case (Inr p')
  obtain db1 w1 rs where calls: "fsm_calls B S F (db, w) (e_startup env (raft_config_of cfg) p') = ((db1, w1), rs)"
    by (metis prod.collapse)
  have f1: "fresh_node cfg opts db1"
    by (rule fresh_fsm_calls [of cfg opts "(db, w)", OF _ calls]) (simp add: fresh)
  note R = run [unfolded start_node_def, simplified Inr calls sum.case Let_def prod.case]
  show ?thesis
  proof (cases "e_NewRaft env (raft_config_of cfg) p' rs")
    case (Inl e)
    with R have "out = give_up S raft_side_held (db1, w1) (Errorf ''honeybadger: start raft: %w'' [] e)" by simp
    then show ?thesis by (simp add: give_up_released raft_side_held_def)
  next
    case (Inr r)
    note R = R [simplified Inr sum.case]
    show ?thesis
    proof (cases newCluster)
      case False
      with R f1 show ?thesis by auto
    next
      case True
      let ?dbs = "\<lambda>i. db1\<lparr>db_raft := e_polls env r i\<rparr>"
      from True R obtain res where wait:
        "waitForLeader R (e_now env) ?dbs (e_clock env) newClusterLeaderTimeout = Some res"
        by (auto split: option.splits)
      obtain db3 rs3 where run3: "fsm_run B (db1\<lparr>db_raft := e_settled env r\<rparr>) (e_elected env r) = (db3, rs3)"
        by fastforce
      have f3: "fresh_node cfg opts db3" by (rule fresh_fsm_run [OF _ run3]) (simp add: f1)
      show ?thesis
      proof (cases res)
        case (Inl e)
        obtain db4 w4 es ce where cl: "DB_Close B S R (db3, w1) = (((db4, w4), es), ce)"
          by (metis prod.collapse)
        from DB_Close_first [OF cl] f3 have "db_store db4 = None"
          "es = map Released (RaftHandle # raft_side_held)"
          by (simp_all add: fresh_node_def raft_side_held_def)
        moreover from R True wait run3 Inl cl have
          "oo_store out = db_store db4" "oo_result out = Inl (Errorf ''honeybadger: open new cluster: %w'' [] e)"
          "oo_trace out = map Acquired (rev (RaftHandle # raft_side_held)) @ es" by auto
        moreover have "held_after [] (map Acquired (rev (RaftHandle # raft_side_held)) @
            map Released (RaftHandle # raft_side_held)) = []"
          by (simp only: held_acquired) (simp del: list.map)
        ultimately show ?thesis by (simp add: released_def)
      next
        case (Inr node)
        from wait_loop_result [OF wait [unfolded waitForLeader_def Inr]] obtain j where
          "leader_node R (?dbs j) = Some node" by auto
        then have "leader_node R (db3\<lparr>db_raft := e_polls env r j\<rparr>) \<noteq> None"
          by (simp add: leader_node_def)
        moreover from R True wait run3 Inr have "out = \<lparr>oo_world = w1,
            oo_trace = map Acquired (rev (RaftHandle # raft_side_held)), oo_store = db_store db3,
            oo_result = Inr db3\<rparr>" by auto
        ultimately show ?thesis using f3 by (auto simp del: rev.simps)
      qed
    qed
  qed
qed

lemma start_node_returns:
  assumes "sleeps (e_now env) leaderPollInterval (e_clock env)"
  shows "\<exists>out. start_node B S R F env newCluster cfg hs dw p = Some out"
proof -
  have wait: "waitForLeader R (e_now env) dbs (e_clock env) newClusterLeaderTimeout \<noteq> None" for dbs
    unfolding waitForLeader_def
    by (rule wfl.ends [OF assms]) (auto simp: leaderPollInterval_def)
  show ?thesis
    unfolding start_node_def Let_def by (auto simp: wait simp del: not_None_eq split: sum.split prod.split option.split)
qed

lemma open_raft_side_held:
  "open_raft_side S F env cfg adv w = ((w', hs), Inr p) \<Longrightarrow> hs @ [StoreHandle] = raft_side_held"
  by (auto simp: open_raft_side_def raft_side_held_def Let_def
      split: prod.splits option.splits sum.splits)

lemma DB_Open_result:
  assumes run: "DB_Open B S R F env defs res cfg options w = Some out"
  shows "case oo_result out of
      Inl e \<Rightarrow> released out
    | Inr db \<Rightarrow>
        fresh_node (setDefaults cfg) (resolveBadgerOptions defs (setDefaults cfg)) db \<and>
        held_after [] (oo_trace out) = RaftHandle # raft_side_held \<and> oo_store out = db_store db \<and>
        validateConfig cfg = None \<and>
        (options = [] \<or> options = [NewClusterOption] \<and>
           (\<exists>r i. leader_node R (db\<lparr>db_raft := e_polls env r i\<rparr>) \<noteq> None))"
proof (cases "parseOpenOptions options")
  case (Inl e)
  with run show ?thesis by (auto simp: DB_Open_def)
next
  case new: (Inr newCluster)
  show ?thesis
  proof (cases "validateConfig cfg")
    case (Some e)
    with run new show ?thesis by (auto simp: DB_Open_def)
  next
    case valid: None
    let ?cfg = "setDefaults cfg" and ?opts = "resolveBadgerOptions defs (setDefaults cfg)"
    show ?thesis
    proof (cases "resolveAdvertise res ?cfg")
      case (Inl e)
      with run new valid show ?thesis by (auto simp: DB_Open_def)
    next
      case adv: (Inr adv)
      obtain w1 r where st: "open_badger S F ?opts w = (w1, r)" by fastforce
      show ?thesis
      proof (cases r)
        case (Inl e)
        with run new valid adv st show ?thesis by (auto simp: DB_Open_def Let_def)
      next
        case store: (Inr b)
        let ?db = "new_db ?cfg ?opts (e_nil env) b"
        obtain w2 hs r2 where side: "open_raft_side S F env ?cfg adv w1 = ((w2, hs), r2)"
          by (metis prod.collapse)
        show ?thesis
        proof (cases r2)
          case (Inl e)
          with run new valid adv st store side have "out = give_up S (hs @ [StoreHandle]) (?db, w2) e"
            by (auto simp: DB_Open_def Let_def)
          then show ?thesis by (simp add: give_up_released)
        next
          case (Inr p)
          with open_raft_side_held side run new valid adv st store have
            "start_node B S R F env newCluster ?cfg raft_side_held (?db, w2) p = Some out"
            by (fastforce simp: DB_Open_def Let_def)
          from start_node_result [OF this fresh_new_db] valid new show ?thesis
            by (auto simp: parseOpenOptions_Inr split: sum.splits)
        qed
      qed
    qed
  qed
qed

lemma DB_Open_returns:
  assumes "sleeps (e_now env) leaderPollInterval (e_clock env)"
  shows "\<exists>out. DB_Open B S R F env defs res cfg options w = Some out"
  unfolding DB_Open_def Let_def
  by (auto simp: start_node_returns [OF assms] split: sum.split prod.split option.split)

text \<open>Bad options and bad configurations are refused before anything is touched.\<close>

lemma DB_Open_refuses:
  assumes "(\<nexists>n. parseOpenOptions options = Inr n) \<or> validateConfig cfg \<noteq> None"
  shows "\<exists>e. DB_Open B S R F env defs res cfg options w = Some (refuse_open w e)"
  using assms by (auto simp: DB_Open_def split: sum.splits option.splits)

section \<open>A sample environment\<close>

definition sample_env :: "(ref_raft_node, unit, ref_store, unit) raft_env" where
  "sample_env =
     \<lparr>e_nil = sample_leader, e_start = (), e_NewBoltStore = (\<lambda>p s. Inr ()),
      e_NewFileSnapshotStore = (\<lambda>p n s. Inr ()), e_NewTCPTransport = (\<lambda>a b n t s. Inr ()),
      e_LocalAddr = (\<lambda>p. ''127.0.0.1:7001''), e_BootstrapCluster = (\<lambda>c s p. ((), None)),
      e_startup = (\<lambda>c p. []), e_NewRaft = (\<lambda>c p rs. Inr (sample_leader\<lparr>rn_State := RS_Follower\<rparr>)),
      e_now = 0, e_clock = (\<lambda>i. int i * leaderPollInterval), e_polls = (\<lambda>r i. sample_leader),
      e_settled = (\<lambda>r. sample_leader), e_elected = (\<lambda>r. [])\<rparr>"

definition sample_defaults :: "path \<Rightarrow> unit badger_options" where
  "sample_defaults dir = \<lparr>opt_Dir = dir, opt_ValueDir = dir, opt_rest = ()\<rparr>"

definition empty_world :: "ref_store world" where
  "empty_world = \<lparr>w_fs = Map.empty, w_tick = 0\<rparr>"

lemma sample_sleeps: "sleeps (e_now sample_env) leaderPollInterval (e_clock sample_env)"
  by (simp add: sleeps_def sample_env_def leaderPollInterval_def)

end
