(* ===== verification/Samples.thy ===== *)
theory Samples
  imports Write Read Lifecycle
begin

text \<open>
  Concrete commands, log entries and nodes over the reference instances, for the closed
  examples that accompany the properties.
\<close>

definition key_k :: bytes where "key_k = [107]"
definition val_v :: bytes where "val_v = [118]"
definition val_w :: bytes where "val_w = [119]"

definition set_command :: "bytes \<Rightarrow> bytes \<Rightarrow> uint64 \<Rightarrow> command" where
  "set_command k v x =
     \<lparr>cmd_Pairs = [\<lparr>cp_Key = k, cp_Value = v, cp_ExpiresAtUnix = x\<rparr>], cmd_Deletes = []\<rparr>"

definition delete_command :: "bytes \<Rightarrow> command" where
  "delete_command k = \<lparr>cmd_Pairs = [], cmd_Deletes = [k]\<rparr>"

lemmas sample_defs = key_k_def val_v_def val_w_def set_command_def delete_command_def

lemmas encode_defs = encodeCommand_def sample_registry_def enc_command_def enc_struct_def
  enc_slice_def enc_pair_def enc_bytes_def enc_int_def enc_uint_def tooBig_def big_endian.simps Let_def

definition encoded :: "command \<Rightarrow> bytes" where
  "encoded c = (case encodeCommand sample_registry c of Inl e \<Rightarrow> [] | Inr d \<Rightarrow> d)"

definition encodable :: "command \<Rightarrow> bool" where
  "encodable c \<longleftrightarrow> command_fits c \<and> (\<exists>d. encodeCommand sample_registry c = Inr d)"

lemma encodable_encode: "encodable c \<Longrightarrow> encodeCommand sample_registry c = Inr (encoded c)"
  by (auto simp: encodable_def encoded_def)

lemma encodable_decode [simp]: "encodable c \<Longrightarrow> decodeCommand (encoded c) = Inr c"
  using encodable_encode decode_encode [OF wf_sample_registry] by (auto simp: encodable_def)

lemma encodable_samples [simp]:
  "encodable (set_command key_k val_v 0)" "encodable (set_command key_k val_w 0)"
  "encodable (delete_command key_k)" "encodable (set_command key_k val_v 61)"
  by (auto simp: encodable_def command_fits_def sample_defs encode_defs)

definition sample_log :: "nat \<Rightarrow> command \<Rightarrow> raft_log" where
  "sample_log i c = \<lparr>log_Index = of_nat i, log_Data = encoded c\<rparr>"

lemma sample_log_fields [simp]:
  "log_Index (sample_log i c) = of_nat i" "log_Data (sample_log i c) = encoded c"
  by (simp_all add: sample_log_def)

lemma key_k_accepted [simp]: "ref_reject key_k = None" "key_k \<noteq> []"
  by (simp_all add: ref_reject_def key_k_def badger_prefix_def bytes_of_def)

text \<open>A set and a delete as the FSM of a sample node applies them.\<close>

lemma Apply_set [simp]:
  assumes "encodable (set_command k v x)" and "ref_reject k = None"
    and "\<not> db_closed db" and "db_store db = Some (o', s)"
  shows "fsm_Apply ref_badger db (sample_log i (set_command k v x)) =
    (db\<lparr>db_store := Some (o', (k, v, x) # s), db_appliedIndex := of_nat i\<rparr>, None)"
  using assms
  by (cases "x = 0")
    (simp_all add: fsm_Apply_def withStore_def checkOpen_def ref_badger_def command_txn_def pair_entry_def
      set_command_def ref_write_def word_gt_0)

lemma Apply_delete [simp]:
  assumes "encodable (delete_command k)" and "ref_reject k = None"
    and "\<not> db_closed db" and "db_store db = Some (o', s)"
  shows "fsm_Apply ref_badger db (sample_log i (delete_command k)) =
    (db\<lparr>db_store := Some (o', filter (\<lambda>e. fst e \<noteq> k) s), db_appliedIndex := of_nat i\<rparr>, None)"
  using assms
  by (simp add: fsm_Apply_def withStore_def checkOpen_def ref_badger_def command_txn_def
      delete_command_def ref_write_def)

text \<open>A write on the sample leader.\<close>

lemma ref_raft_apply_ok: "raft_apply_ok ref_raft"
  by (auto simp: raft_apply_ok_def ref_raft_def ref_submit_def)

lemma ref_Apply_outcome [simp]:
  "r_Apply ref_raft sample_leader data t =
     \<lparr>ro_raft = sample_leader\<lparr>rn_Last := 2\<rparr>, ro_logs = [\<lparr>log_Index = 2, log_Data = data\<rparr>], ro_err = None\<rparr>"
  by (simp add: ref_raft_def ref_submit_def sample_leader_def)

lemma ref_Barrier_outcome [simp]:
  "rn_State r = RS_Leader \<Longrightarrow> r_Barrier ref_raft r t =
     \<lparr>ro_raft = r\<lparr>rn_Last := Suc (rn_Last r)\<rparr>, ro_logs = [], ro_err = None\<rparr>"
  by (simp add: ref_raft_def ref_submit_def)

lemma DB_apply_set [simp]:
  assumes "encodable (set_command k v x)" and "ref_reject k = None"
  shows "DB_apply ref_badger ref_raft sample_registry (sample_node s sample_leader) (set_command k v x) =
    (sample_node s sample_leader
       \<lparr>db_raft := sample_leader\<lparr>rn_Last := 2\<rparr>, db_store := Some (sample_options, (k, v, x) # s),
        db_appliedIndex := 2\<rparr>, None)"
proof -
  have l: "\<lparr>log_Index = 2, log_Data = encoded (set_command k v x)\<rparr> = sample_log 2 (set_command k v x)"
    by (simp add: sample_log_def)
  show ?thesis
    by (simp add: DB_apply_def checkOpen_def encodable_encode [OF assms(1)] l assms)
qed

definition after_set :: "uint64 \<Rightarrow> (ref_db, ref_raft_node, unit) DB" where
  "after_set x = (sample_node [] sample_leader)
     \<lparr>db_raft := sample_leader\<lparr>rn_Last := 2\<rparr>, db_store := Some (sample_options, [(key_k, val_v, x)]),
      db_appliedIndex := 2\<rparr>"

lemma SetBytes_sample:
  "SetBytes ref_badger ref_raft sample_registry now (sample_node [] sample_leader) key_k val_v [] =
     (after_set 0, None)"
  using DB_apply_set [of key_k val_v 0 "[]"]
  by (simp add: SetBytes_def after_set_def set_command_def [symmetric])

lemma SetBytes_ttl_sample:
  "SetBytes ref_badger ref_raft sample_registry second (sample_node [] sample_leader) key_k val_v
     [WithTTL (60 * second)] = (after_set 61, None)"
  using DB_apply_set [of key_k val_v 61 "[]"]
  by (simp add: SetBytes_def after_set_def set_command_def [symmetric] resolveSetOptions_WithTTL
      absExpiry_def unix_seconds_def)

lemma Batch_set_sample:
  "Batch ref_badger ref_raft sample_registry (\<lambda>i. 0) (sample_node [] sample_leader)
     [SetBytesOp key_k val_v []] = (after_set 0, None)"
  using DB_apply_set [of key_k val_v 0 "[]"]
  by (simp add: Batch_def checkOpen_def batch_command_def SetBytesOp_def after_set_def
        set_command_def [symmetric])

lemma after_set_fields [simp]:
  "db_store (after_set x) = Some (sample_options, [(key_k, val_v, x)])"
  "db_raft (after_set x) = sample_leader\<lparr>rn_Last := 2\<rparr>" "\<not> db_closed (after_set x)"
  "db_cfg (after_set x) = sample_config"
  by (simp_all add: after_set_def)

end
