(* ===== verification/Restore_Props.thy ===== *)
theory Restore_Props
  imports Samples
begin

text \<open>
  The properties of snapshots and restores: what a restore publishes, what survives a
  restore that fails in each of its phases, the case in which a failed rollback leaves an
  empty database in service, the in-place path, and who owns the snapshot sink.
\<close>

section \<open>Sample disks\<close>

text \<open>A node with one entry on disk and in memory, and a snapshot with another.\<close>

definition old_store :: ref_store where "old_store = [(key_k, val_v, 0)]"
definition new_store :: ref_store where "new_store = [(key_k, val_w, 0)]"

definition sample_world :: "ref_store world" where
  "sample_world = \<lparr>w_fs = [''/d/badger'' \<mapsto> old_store], w_tick = 0\<rparr>"

definition fails :: "(fs_call \<Rightarrow> bool) \<Rightarrow> 'd faults" where
  "fails P n c = (if P c then Some (Plain ''input/output error'', Map.empty) else None)"

lemma sample_layout [simp]: "staged_layout ref_storage_ghost (sample_node s r)"
  by (simp add: staged_layout_def sample_options_def colocated_def ref_storage_ghost_def)

lemma sample_not_in_place [simp]: "\<not> in_place (sample_node s r)"
  by (simp add: in_place_def sample_options_def)

lemmas restore_eval = fsm_Restore_staged restore_stage_def restore_swap_def close_for_swap_def
  rollbackAndReopenLocked_def reopenLocked_def os_RemoveAll_def os_MkdirAll_def os_Rename_def
  badger_Open_def badger_Close_def ref_storage_def ref_Open_def staging_opts_def advance_def
  sample_world_def stagingDir_of_def backupDir_of_def under_def moved_def fails_def no_faults_def
  sample_options_def Let_def

section \<open>The staged path\<close>

text \<open>
  C7: a staged restore that returns nil has replaced the whole state: the published store
  holds exactly the snapshot (nothing of the old map shines through), the applied index is
  reset to 0, and the layout is as before, so that the next restore can run.
\<close>

theorem restore_replaces_state:
  assumes "storage_ok S G" and "staged_layout G db"
    and "fsm_Restore S F (db, w) rc = ((db', w'), None)"
  shows "(\<exists>b. db_store db' = Some b \<and> g_contents G b = g_stream G rc) \<and>
     db_appliedIndex db' = 0 \<and> staged_layout G db' \<and> db_closed db' = db_closed db"
  using restore_staged_success [OF assms] fsm_Restore_frame(1) [OF assms(3)] by simp

lemma sample_restore_runs:
  "snd (fsm_Restore ref_storage no_faults (sample_node old_store sample_leader, sample_world) new_store) = None"
  by (simp add: restore_eval)

theorem restore_replaces_state_example:
  "(\<exists>b. db_store (fst (fst (fsm_Restore ref_storage no_faults
          (sample_node old_store sample_leader, sample_world) new_store))) = Some b \<and>
     g_contents ref_storage_ghost b = g_stream ref_storage_ghost new_store)"
proof -
  let ?r = "fsm_Restore ref_storage no_faults (sample_node old_store sample_leader, sample_world) new_store"
  have "?r = ((fst (fst ?r), snd (fst ?r)), None)" using sample_restore_runs by (metis prod.collapse)
  from restore_replaces_state [OF ref_storage_ok sample_layout this] show ?thesis by blast
qed

text \<open>
  C9: a failure while staging leaves the old store untouched and in service: the node is
  the same but for a line in its log, and no file outside the staging directory changed.
\<close>

theorem staging_failure_harmless:
  assumes "storage_ok S G" and "\<not> in_place db"
    and "restore_stage S F (db_badgerOpts db) (stagingDir_of (db_badgerDir db)) w rc = (w1, Some (step, e))"
  shows "fsm_Restore S F (db, w) rc =
       ((log_fsm db (restore_error step e), w1), Some (restore_error step e)) \<and>
     (\<forall>q. \<not> under (stagingDir_of (db_badgerDir db)) q \<longrightarrow> w_fs w1 q = w_fs w q)"
  using restore_stage_confined [OF assms(1,3)] assms(3)
  by (simp add: fsm_Restore_staged [OF assms(2)] confined_def)

theorem staging_failure_harmless_example:
  "fsm_Restore ref_storage (fails (\<lambda>c. \<exists>p. c = MkdirAll p))
     (sample_node old_store sample_leader, sample_world) new_store =
   ((log_fsm (sample_node old_store sample_leader)
       (restore_error ''create staging dir'' (Plain ''input/output error'')), sample_world\<lparr>w_tick := 2\<rparr>),
    Some (restore_error ''create staging dir'' (Plain ''input/output error'')))"
proof -
  have fs: "(\<lambda>q. if under ''/d/badger.restore-tmp'' q then None else w_fs sample_world q) = w_fs sample_world"
    by (auto simp: sample_world_def under_def)
  have "restore_stage ref_storage (fails (\<lambda>c. \<exists>p. c = MkdirAll p)) sample_options
      (stagingDir_of ''/d/badger'') sample_world new_store =
     (sample_world\<lparr>w_tick := 2\<rparr>, Some (''create staging dir'', Plain ''input/output error''))"
    by (simp add: restore_stage_def os_RemoveAll_def os_MkdirAll_def fails_def stagingDir_of_def
        advance_def fs) (simp add: sample_world_def)
  with staging_failure_harmless [OF ref_storage_ok sample_not_in_place, of
      "fails (\<lambda>c. \<exists>p. c = MkdirAll p)" old_store sample_leader sample_world new_store]
  show ?thesis by simp
qed

text \<open>
  C35: when the staging directory cannot be moved into place and the rollback's rename fails
  too, the store is reopened on a live directory that no longer exists: Badger creates it, and
  the node serves an empty database, while the only copy of its data lies in the
  \<open>.restore-old\<close> directory, which the next restore removes first. The comments promise the
  old data or a nil store.
\<close>

theorem failed_rollback_serves_empty:
  assumes ok: "storage_ok S G" and wf: "staged_layout G db" and b: "db_store db = Some b"
    and clean: "\<And>fs. snd (s_Close S b fs) = None"
    and stage: "restore_stage S F (db_badgerOpts db) (stagingDir_of (db_badgerDir db)) w rc = (w1, None)"
    and there: "w_fs w (db_badgerDir db) \<noteq> None"
    and f1: "\<And>n. F n (RemoveAll (backupDir_of (db_badgerDir db))) = None"
    and f2: "\<And>n. F n (Rename (db_badgerDir db) (backupDir_of (db_badgerDir db))) = None"
    and f3: "\<And>n. F n (Rename (stagingDir_of (db_badgerDir db)) (db_badgerDir db)) \<noteq> None"
    and f4: "\<And>n. F n (Rename (backupDir_of (db_badgerDir db)) (db_badgerDir db)) \<noteq> None"
    and run: "fsm_Restore S F (db, w) rc = ((db', w'), r)"
  shows "r \<noteq> None \<and> serves G db' w' Map.empty \<and>
     disk G (w_fs w') (backupDir_of (db_badgerDir db)) = g_contents G b"
proof -
  let ?lv = "db_badgerDir db" and ?stg = "stagingDir_of (db_badgerDir db)"
    and ?bk = "backupDir_of (db_badgerDir db)"
  note L = staged_layoutD [OF wf]
  let ?w0 = "fst (os_RemoveAll F ?bk w1)"
  obtain db1 w2 where cl: "close_for_swap S (db, ?w0) = (db1, w2)" by fastforce
  note fr = keptD [OF close_for_swap_kept(1) [OF cl]]
  have dir: "opt_Dir (db_badgerOpts db1) = db_badgerDir db1" and co: "colocated (db_badgerOpts db1)"
    and lv: "db_badgerDir db1 = ?lv" using L fr by simp_all
  have old: "disk G (w_fs w2) ?lv = g_contents G b" by (rule close_for_swap_disk [OF ok wf b clean cl])
  have "w_fs ?w0 ?bk = None" by (simp add: os_RemoveAll_def f1)
  then have bk: "w_fs w2 ?bk = None"
    using confinedD [OF close_for_swap_confined [OF ok wf cl]] by simp
  have "w_fs ?w0 ?lv \<noteq> None"
    using confinedD [OF restore_stage_confined [OF ok stage], of ?lv] there
    by (simp add: os_RemoveAll_def f1)
  then have "w_fs w2 ?lv \<noteq> None"
    using closeD(2) [OF ok, of b ?w0] L b cl
    by (auto simp: close_for_swap_def Let_def split: prod.splits)
  then obtain w3 where w3: "os_Rename F ?lv ?bk w2 = (w3, None)" "w_fs w3 = moved ?lv ?bk (w_fs w2)"
    using Rename_succeeds [of F w2 ?lv ?bk, OF f2 _ bk] by blast
  have err: "\<exists>v e. os_Rename F p ?lv u = (v, Some e)" if "p = ?stg \<or> p = ?bk" for u p
    using that f3 [of "w_tick u"] f4 [of "w_tick u"] by (auto simp: os_Rename_def)
  from err [of ?stg w3] obtain w4 e where w4: "os_Rename F ?stg ?lv w3 = (w4, Some e)" by blast
  from err [of ?bk w4] obtain w5 e' where w5: "os_Rename F ?bk ?lv w4 = (w5, Some e')" by blast
  obtain db2 w6 where rb: "rollbackAndReopenLocked S F ?bk ?lv (db1, w4) = (db2, w6)" by fastforce
  have fs4: "w_fs w4 = moved ?lv ?bk (w_fs w2)" using Rename_err [OF w4] w3 by simp
  have "serves G db2 w6 (disk G (w_fs w4) ?lv)"
    using rollback_fails_serves(1) [OF ok dir co, of F ?bk w4 w5 e' db2 w6] w5 rb lv by simp
  moreover have "disk G (w_fs w4) ?lv = Map.empty" by (simp add: fs4 moved_source disk_def)
  moreover have "w_fs w6 ?bk = w_fs w4 ?bk"
    using rollback_fails_serves(2) [OF ok dir co, of F ?bk w4 w5 e' db2 w6 ?bk] w5 rb lv by simp
  moreover have "fsm_Restore S F (db, w) rc =
      report ((db2, w6), Some (''move staging dir into place'', e))"
    using cl w3 w4 rb
    by (simp add: fsm_Restore_staged [OF L(4)] stage restore_swap_def case_prod_beta)
  ultimately show ?thesis using run old by (auto simp: fs4 disk_def)
qed

theorem failed_rollback_serves_empty_example:
  "snd (fsm_Restore ref_storage (fails (\<lambda>c. \<exists>p. c = Rename p ''/d/badger''))
        (sample_node old_store sample_leader, sample_world) new_store) \<noteq> None \<and>
   serves ref_storage_ghost
     (fst (fst (fsm_Restore ref_storage (fails (\<lambda>c. \<exists>p. c = Rename p ''/d/badger''))
        (sample_node old_store sample_leader, sample_world) new_store)))
     (snd (fst (fsm_Restore ref_storage (fails (\<lambda>c. \<exists>p. c = Rename p ''/d/badger''))
        (sample_node old_store sample_leader, sample_world) new_store)))
     Map.empty"
proof -
  let ?F = "fails (\<lambda>c. \<exists>p. c = Rename p ''/d/badger'')"
  let ?r = "fsm_Restore ref_storage ?F (sample_node old_store sample_leader, sample_world) new_store"
  have run: "?r = ((fst (fst ?r), snd (fst ?r)), snd ?r)" by simp
  have "\<exists>w. restore_stage ref_storage ?F sample_options (stagingDir_of ''/d/badger'') sample_world
      new_store = (w, None)"
    by (simp add: restore_eval)
  then obtain w where w: "restore_stage ref_storage ?F (db_badgerOpts (sample_node old_store sample_leader))
      (stagingDir_of (db_badgerDir (sample_node old_store sample_leader))) sample_world new_store = (w, None)"
    by auto
  have b: "db_store (sample_node old_store sample_leader) = Some (sample_options, old_store)" by simp
  from failed_rollback_serves_empty [OF ref_storage_ok sample_layout b _ w _ _ _ _ _ run]
  show ?thesis by (simp add: ref_storage_def fails_def backupDir_of_def sample_world_def)
qed

section \<open>The in-place path\<close>

text \<open>
  C34: with a value directory apart from the main one, a restore works in place. When it
  returns nil the store holds exactly the snapshot and the applied index is 0. When it fails
  nothing is left in service: the store is nil, so that reads answer \<open>ErrClosed\<close>, and the
  applied index keeps its value.
\<close>

theorem in_place_restore:
  assumes "storage_ok S G" and "in_place db" and "opt_Dir (db_badgerOpts db) = db_badgerDir db"
    and "\<not> under (db_badgerDir db) (opt_ValueDir (db_badgerOpts db))"
    and "\<not> under (opt_ValueDir (db_badgerOpts db)) (db_badgerDir db)"
    and run: "fsm_Restore S F (db, w) rc = ((db', w'), r)"
  shows "case r of
      None \<Rightarrow> (\<exists>b. db_store db' = Some b \<and> g_contents G b = g_stream G rc) \<and> db_appliedIndex db' = 0
    | Some e \<Rightarrow> db_store db' = None \<and> db_appliedIndex db' = db_appliedIndex db \<and>
        getBytes B now db' key = Inl (Sentinel ErrClosed)"
proof (cases r)
  case None
  with run have "restoreInPlace S F (db, w) rc = ((db', w'), None)"
    by (simp add: fsm_Restore_in_place [OF assms(2)] report_ok)
  from restoreInPlace_success [OF assms(1,3,4,5) this] None show ?thesis by simp
next
  case (Some e)
  have "db_store db' = None"
    by (rule report_failed [OF run [unfolded Some fsm_Restore_in_place [OF assms(2)]]])
      (auto simp: frame_simps dest!: restoreInPlace_failed)
  with Some fsm_Restore_frame(7) [OF run] show ?thesis by (simp add: getBytes_unavailable)
qed

definition split_options :: "unit badger_options" where
  "split_options = \<lparr>opt_Dir = ''/d/badger'', opt_ValueDir = ''/v'', opt_rest = ()\<rparr>"

definition split_node :: "(ref_db, ref_raft_node, unit) DB" where
  "split_node = (sample_node old_store sample_leader)\<lparr>db_badgerOpts := split_options\<rparr>"

theorem in_place_restore_example:
  "\<exists>b. db_store (fst (fst (fsm_Restore ref_storage no_faults (split_node, sample_world) new_store))) = Some b \<and>
     g_contents ref_storage_ghost b = g_stream ref_storage_ghost new_store"
proof -
  let ?r = "fsm_Restore ref_storage no_faults (split_node, sample_world) new_store"
  have ip: "in_place split_node" by (simp add: in_place_def split_node_def split_options_def)
  have "snd ?r = None"
    unfolding fsm_Restore_in_place [OF ip]
    by (simp add: restoreInPlace_def restore_eval split_node_def split_options_def)
  then have run: "?r = ((fst (fst ?r), snd (fst ?r)), None)" by (metis prod.collapse)
  have "opt_Dir (db_badgerOpts split_node) = db_badgerDir split_node"
    "\<not> under (db_badgerDir split_node) (opt_ValueDir (db_badgerOpts split_node))"
    "\<not> under (opt_ValueDir (db_badgerOpts split_node)) (db_badgerDir split_node)"
    by (simp_all add: split_node_def split_options_def under_def)
  from in_place_restore [OF ref_storage_ok ip this run] show ?thesis by simp
qed

section \<open>Persist\<close>

text \<open>
  \<open>Persist\<close> ends with the sink either closed or cancelled, never both or neither. It is
  closed exactly when there was a store and its backup succeeded, and then holds that
  backup; otherwise the call fails, with \<open>ErrClosed\<close> when there was no store and the sink
  could be cancelled.
\<close>

theorem persist_owns_sink:
  "(case Persist S now snap db cancelErr closeErr of
      (SinkClosed s, e) \<Rightarrow> (\<exists>b. db_store db = Some b \<and> s_Backup S now b 0 = Inr s) \<and> e = closeErr
    | (SinkCancelled, e) \<Rightarrow>
        e \<noteq> None \<and> (\<forall>b. db_store db = Some b \<longrightarrow> (\<exists>x. s_Backup S now b 0 = Inl x)) \<and>
        (db_store db = None \<and> cancelErr = None \<longrightarrow> e = Some (Sentinel ErrClosed)))"
  by (auto simp: Persist_def split: option.splits sum.splits)

theorem persist_owns_sink_example:
  "Persist ref_storage 0 FsmSnapshot (sample_node old_store sample_leader) None None =
     (SinkClosed old_store, None) \<and>
   (case Persist ref_storage 0 FsmSnapshot (sample_node old_store sample_leader) None None of
      (SinkClosed s, e) \<Rightarrow> \<exists>b. db_store (sample_node old_store sample_leader) = Some b \<and>
        s_Backup ref_storage 0 b 0 = Inr s
    | (SinkCancelled, e) \<Rightarrow> False)"
proof -
  have p: "Persist ref_storage 0 FsmSnapshot (sample_node old_store sample_leader) None None =
     (SinkClosed old_store, None)" by (simp add: Persist_def ref_storage_def)
  with persist_owns_sink [where S = ref_storage and now = 0 and snap = FsmSnapshot and cancelErr = None
      and closeErr = None and db = "sample_node old_store sample_leader"]
  show ?thesis by simp
qed

end
