(* ===== verification/Restore_Steps.thy ===== *)
theory Restore_Steps
  imports Restore
begin

text \<open>
  The restore and the closing of the store as programs of single actions, one for each call of
  the operating system or of Badger, each assignment of the store pointer and each line that
  is logged. Run without interruption they compute \<open>fsm_Restore\<close> and \<open>closeStore\<close>.
\<close>

section \<open>Programs of single actions\<close>

text \<open>A program returns, or acts on the state and goes on as the action's outcome says.\<close>

datatype ('s, 'a) prog = Ret 'a | Act "'s \<Rightarrow> 's \<times> ('s, 'a) prog"

primrec exec :: "('s, 'a) prog \<Rightarrow> 's \<Rightarrow> 's \<times> 'a" where
  "exec (Ret x) = (\<lambda>s. (s, x))"
| "exec (Act f) = (\<lambda>s. case map_prod id exec (f s) of (s', e) \<Rightarrow> e s')"

definition act :: "('s \<Rightarrow> 's \<times> 'x) \<Rightarrow> ('x \<Rightarrow> ('s, 'a) prog) \<Rightarrow> ('s, 'a) prog" where
  "act f k = Act (\<lambda>s. case f s of (s', x) \<Rightarrow> (s', k x))"

lemma exec_Act: "exec (Act f) s = (case f s of (s', p) \<Rightarrow> exec p s')"
  by (simp add: case_prod_beta)

lemma exec_act [simp]: "exec (act f k) s = (case f s of (s', x) \<Rightarrow> exec (k x) s')"
  by (simp add: act_def case_prod_beta)

declare exec.simps(2) [simp del]

text \<open>An action on the files alone, and one on the node alone.\<close>

definition on_files :: "('d world \<Rightarrow> 'd world \<times> 'x) \<Rightarrow> ('n \<times> 'd world) \<Rightarrow> ('n \<times> 'd world) \<times> 'x" where
  "on_files f dw = (let (db, w) = dw; (w', x) = f w in ((db, w'), x))"

definition on_node :: "('n \<Rightarrow> 'n) \<Rightarrow> ('n \<times> 'd world) \<Rightarrow> ('n \<times> 'd world) \<times> unit" where
  "on_node f dw = (let (db, w) = dw in ((f db, w), ()))"

definition look_at :: "('n \<Rightarrow> 'x) \<Rightarrow> ('n \<times> 'd world) \<Rightarrow> ('n \<times> 'd world) \<times> 'x" where
  "look_at f dw = (dw, f (fst dw))"

lemma action_simps [simp]:
  "on_files f (db, w) = (case f w of (w', x) \<Rightarrow> ((db, w'), x))"
  "on_node g (db, w) = ((g db, w), ())" "look_at h (db, w) = ((db, w), h db)"
  by (simp_all add: on_files_def on_node_def look_at_def)

section \<open>The restore as programs\<close>

text \<open>The staging phase acts on the files alone.\<close>

definition stage_prog ::
    "('b,'o,'d,'s) storage_api \<Rightarrow> 'd faults \<Rightarrow> 'o badger_options \<Rightarrow> path \<Rightarrow> 's \<Rightarrow>
     ('d world, (string \<times> gerror) option) prog" where
  "stage_prog S F opts stagingDir rc =
     (let failed = (\<lambda>step err. act (os_RemoveAll F stagingDir) (\<lambda>_. Ret (Some (step, err)))) in
      act (os_RemoveAll F stagingDir) (\<lambda>e1.
      case e1 of Some err \<Rightarrow> Ret (Some (''clean staging dir'', err)) | None \<Rightarrow>
      act (os_MkdirAll F (s_empty S) stagingDir) (\<lambda>e2.
      case e2 of Some err \<Rightarrow> Ret (Some (''create staging dir'', err)) | None \<Rightarrow>
      act (badger_Open S (staging_opts opts stagingDir)) (\<lambda>r.
      case r of
        Inl err \<Rightarrow> failed ''open staging badger'' err
      | Inr stage \<Rightarrow>
          (case s_Load S stage rc snapshotLoadMaxPendingWrites of
             (stage', Some err) \<Rightarrow>
               act (badger_Close S stage') (\<lambda>_. failed ''load snapshot into staging badger'' err)
           | (stage', None) \<Rightarrow>
               act (badger_Close S stage') (\<lambda>e4.
               case e4 of Some err \<Rightarrow> failed ''close staging badger'' err | None \<Rightarrow> Ret None))))))"

definition reopen_prog ::
    "('b,'o,'d,'s) storage_api \<Rightarrow> 'o badger_options \<Rightarrow> (('b,'r,'o) DB \<times> 'd world, 'a) prog \<Rightarrow>
     (('b,'r,'o) DB \<times> 'd world, 'a) prog" where
  "reopen_prog S opts k =
     act (on_files (badger_Open S opts)) (\<lambda>r.
     case r of
       Inl err \<Rightarrow>
         act (on_node (\<lambda>db. log_printf db ''fsm: reopen badger after failed restore: %v'' err)) (\<lambda>_.
         act (on_node (\<lambda>db. db\<lparr>db_store := None\<rparr>)) (\<lambda>_. k))
     | Inr store \<Rightarrow> act (on_node (\<lambda>db. db\<lparr>db_store := Some store\<rparr>)) (\<lambda>_. k))"

definition rollback_prog ::
    "('b,'o,'d,'s) storage_api \<Rightarrow> 'd faults \<Rightarrow> 'o badger_options \<Rightarrow> path \<Rightarrow> path \<Rightarrow>
     (('b,'r,'o) DB \<times> 'd world, 'a) prog \<Rightarrow> (('b,'r,'o) DB \<times> 'd world, 'a) prog" where
  "rollback_prog S F opts backupDir liveDir k =
     act (on_files (os_Rename F backupDir liveDir)) (\<lambda>e.
     case e of
       None \<Rightarrow> reopen_prog S opts k
     | Some err \<Rightarrow>
         act (on_node (\<lambda>db. log_printf db ''fsm: roll back badger dir after failed restore: %v'' err)) (\<lambda>_.
         reopen_prog S opts k))"

definition swap_close_prog ::
    "('b,'o,'d,'s) storage_api \<Rightarrow> (('b,'r,'o) DB \<times> 'd world, 'a) prog \<Rightarrow> (('b,'r,'o) DB \<times> 'd world, 'a) prog" where
  "swap_close_prog S k =
     act (look_at db_store) (\<lambda>st.
     case st of
       None \<Rightarrow> k
     | Some b \<Rightarrow>
         act (on_files (badger_Close S b)) (\<lambda>e.
         let clear = act (on_node (\<lambda>db. db\<lparr>db_store := None\<rparr>)) (\<lambda>_. k) in
         case e of
           None \<Rightarrow> clear
         | Some err \<Rightarrow>
             act (on_node (\<lambda>db. log_printf db ''fsm: close badger for restore swap: %v'' err)) (\<lambda>_. clear)))"

definition swap_prog ::
    "('b,'o,'d,'s) storage_api \<Rightarrow> 'd faults \<Rightarrow> 'o badger_options \<Rightarrow> path \<Rightarrow> path \<Rightarrow> path \<Rightarrow>
     (('b,'r,'o) DB \<times> 'd world, (string \<times> gerror) option) prog" where
  "swap_prog S F opts liveDir stagingDir backupDir =
     act (on_files (os_RemoveAll F backupDir)) (\<lambda>_.
     swap_close_prog S (
     act (on_files (os_Rename F liveDir backupDir)) (\<lambda>e3.
     case e3 of Some err \<Rightarrow> reopen_prog S opts (Ret (Some (''move live dir aside'', err))) | None \<Rightarrow>
     act (on_files (os_Rename F stagingDir liveDir)) (\<lambda>e4.
     case e4 of
       Some err \<Rightarrow>
         rollback_prog S F opts backupDir liveDir (Ret (Some (''move staging dir into place'', err)))
     | None \<Rightarrow>
     act (on_files (badger_Open S opts)) (\<lambda>r.
     case r of
       Inl err \<Rightarrow>
         act (on_files (os_RemoveAll F liveDir)) (\<lambda>_.
         rollback_prog S F opts backupDir liveDir (Ret (Some (''open restored badger'', err))))
     | Inr store \<Rightarrow>
         act (on_files (os_RemoveAll F backupDir)) (\<lambda>_.
         act (on_node (\<lambda>db. db\<lparr>db_store := Some store\<rparr>)) (\<lambda>_.
         act (on_node (\<lambda>db. db\<lparr>db_appliedIndex := 0\<rparr>)) (\<lambda>_. Ret None))))))))"

fun wipe_prog ::
    "('b,'o,'d,'s) storage_api \<Rightarrow> 'd faults \<Rightarrow> path list \<Rightarrow>
     ('n \<times> 'd world, (string \<times> gerror) option) prog \<Rightarrow> ('n \<times> 'd world, (string \<times> gerror) option) prog" where
  "wipe_prog S F [] k = k"
| "wipe_prog S F (dir # dirs) k =
     act (on_files (os_RemoveAll F dir)) (\<lambda>e1.
     case e1 of Some err \<Rightarrow> Ret (Some (''wipe badger dir'', err)) | None \<Rightarrow>
     act (on_files (os_MkdirAll F (s_empty S) dir)) (\<lambda>e2.
     case e2 of Some err \<Rightarrow> Ret (Some (''recreate badger dir'', err)) | None \<Rightarrow> wipe_prog S F dirs k))"

definition in_place_prog ::
    "('b,'o,'d,'s) storage_api \<Rightarrow> 'd faults \<Rightarrow> 'o badger_options \<Rightarrow> path \<Rightarrow> 's \<Rightarrow>
     (('b,'r,'o) DB \<times> 'd world, (string \<times> gerror) option) prog" where
  "in_place_prog S F opts dir rc =
     (let rest =
        wipe_prog S F [dir, opt_ValueDir opts] (
        act (on_files (badger_Open S opts)) (\<lambda>r.
        case r of
          Inl err \<Rightarrow> Ret (Some (''reopen badger'', err))
        | Inr store \<Rightarrow>
            (case s_Load S store rc snapshotLoadMaxPendingWrites of
               (store', Some err) \<Rightarrow>
                 act (on_files (badger_Close S store')) (\<lambda>_. Ret (Some (''load snapshot'', err)))
             | (store', None) \<Rightarrow>
                 act (on_node (\<lambda>db. db\<lparr>db_store := Some store'\<rparr>)) (\<lambda>_.
                 act (on_node (\<lambda>db. db\<lparr>db_appliedIndex := 0\<rparr>)) (\<lambda>_. Ret None)))))
      in
      act (look_at db_store) (\<lambda>st.
      case st of
        None \<Rightarrow> rest
      | Some b \<Rightarrow>
          act (on_files (badger_Close S b)) (\<lambda>e.
          act (on_node (\<lambda>db. db\<lparr>db_store := None\<rparr>)) (\<lambda>_.
          case e of Some err \<Rightarrow> Ret (Some (''close badger'', err)) | None \<Rightarrow> rest))))"

definition close_prog :: "('b,'o,'d,'s) storage_api \<Rightarrow> (('b,'r,'o) DB \<times> 'd world, gerror option) prog" where
  "close_prog S =
     act (look_at db_store) (\<lambda>st.
     case st of
       None \<Rightarrow> Ret None
     | Some b \<Rightarrow>
         act (on_files (badger_Close S b)) (\<lambda>e.
         act (on_node (\<lambda>db. db\<lparr>db_store := None\<rparr>)) (\<lambda>_. Ret e)))"

section \<open>The programs compute the calls\<close>

lemma exec_stage: "exec (stage_prog S F opts stg rc) w = restore_stage S F opts stg w rc"
  by (auto simp: stage_prog_def restore_stage_def Let_def case_prod_beta split: option.split sum.split)

lemma exec_reopen:
  "db_badgerOpts db = opts \<Longrightarrow> exec (reopen_prog S opts k) (db, w) = exec k (reopenLocked S (db, w))"
  by (auto simp: reopen_prog_def reopenLocked_def case_prod_beta split: sum.split)

lemma exec_rollback:
  "db_badgerOpts db = opts \<Longrightarrow>
     exec (rollback_prog S F opts bk lv k) (db, w) = exec k (rollbackAndReopenLocked S F bk lv (db, w))"
  by (auto simp: rollback_prog_def rollbackAndReopenLocked_def exec_reopen log_printf_def case_prod_beta
      split: option.split)

lemma exec_swap_close: "exec (swap_close_prog S k) (db, w) = exec k (close_for_swap S (db, w))"
  by (auto simp: swap_close_prog_def close_for_swap_def Let_def case_prod_beta split: option.split)

lemma close_for_swap_opts: "db_badgerOpts (fst (close_for_swap S (db, w))) = db_badgerOpts db"
  by (auto simp: close_for_swap_def log_printf_def case_prod_beta Let_def split: option.split)

lemma exec_swap:
  assumes "db_badgerOpts db = opts"
  shows "exec (swap_prog S F opts lv stg bk) (db, w) = restore_swap S F lv stg bk (db, w)"
proof -
  obtain w1 x where a: "os_RemoveAll F bk w = (w1, x)" by fastforce
  obtain db1 w2 where b: "close_for_swap S (db, w1) = (db1, w2)" by fastforce
  have o': "db_badgerOpts db1 = opts" using close_for_swap_opts [of S db w1] b assms by simp
  show ?thesis
    using a b o'
    by (auto simp: swap_prog_def restore_swap_def exec_swap_close exec_reopen exec_rollback case_prod_beta
        split: option.split sum.split)
qed

lemma exec_wipe:
  "exec (wipe_prog S F dirs k) (db, w) =
     (case wipe_dirs S F dirs w of (w', None) \<Rightarrow> exec k (db, w') | (w', Some e) \<Rightarrow> ((db, w'), Some e))"
  by (induction dirs arbitrary: w) (auto simp: Let_def split: option.split prod.split)

lemma exec_in_place:
  assumes "db_badgerOpts db = opts" and "db_badgerDir db = dir"
  shows "exec (in_place_prog S F opts dir rc) (db, w) = restoreInPlace S F (db, w) rc"
  using assms
  by (auto simp: in_place_prog_def restoreInPlace_def exec_wipe Let_def case_prod_beta
      simp del: wipe_prog.simps wipe_dirs.simps split: option.split sum.split)

lemma exec_close: "exec (close_prog S) (db, w) = closeStore S (db, w)"
  by (auto simp: close_prog_def closeStore_def case_prod_beta split: option.split)

end
