(* ===== verification/Swap_Moments.thy ===== *)
theory Swap_Moments
  imports Restore_Steps
begin

text \<open>
  The moments of a staged restore's swap, failures and rollback included: after every call of
  the operating system or of Badger, which handle is open on the live directory, what the
  files are, and which generation the live directory holds. The worlds are those the program
  \<open>swap_prog\<close> goes through; the generation of the last moment is what the swap leaves.
\<close>

section \<open>Moments\<close>

text \<open>
  The live directory holds the old data or the snapshot; or it is missing, or empty and just
  created; or nothing is known of it.
\<close>

datatype generation = Old | New | Gone | Unclear

type_synonym ('b, 'd) moment = "generation \<times> 'b option \<times> 'd world"

definition close_failed :: "('b,'o,'d,'s) storage_api \<Rightarrow> ('b,'r,'o) DB \<times> 'd world \<Rightarrow> bool" where
  "close_failed S dw =
     (let (db, w) = dw in
      case db_store db of None \<Rightarrow> False | Some b \<Rightarrow> snd (badger_Close S b w) \<noteq> None)"

definition reopen_moments ::
    "('b,'o,'d,'s) storage_api \<Rightarrow> 'o badger_options \<Rightarrow> generation \<Rightarrow> 'd world \<Rightarrow> ('b, 'd) moment list" where
  "reopen_moments S opts g w =
     (let (w', r) = badger_Open S opts w in
      [(g, case r of Inl err \<Rightarrow> None | Inr store \<Rightarrow> Some store, w')])"

text \<open>The rollback finds \<open>here\<close> in the live directory, and in the backup what \<open>old\<close> says.\<close>

definition rollback_moments ::
    "('b,'o,'d,'s) storage_api \<Rightarrow> 'd faults \<Rightarrow> 'o badger_options \<Rightarrow> path \<Rightarrow> path \<Rightarrow> generation \<Rightarrow>
     generation \<Rightarrow> 'd world \<Rightarrow> ('b, 'd) moment list" where
  "rollback_moments S F opts backupDir liveDir old here w =
     (let (w', e) = os_Rename F backupDir liveDir w; g = (if e = None then old else here) in
      (g, None, w') # reopen_moments S opts g w')"

definition swap_moments ::
    "('b,'o,'d,'s) storage_api \<Rightarrow> 'd faults \<Rightarrow> path \<Rightarrow> path \<Rightarrow> path \<Rightarrow> ('b,'r,'o) DB \<times> 'd world \<Rightarrow>
     ('b, 'd) moment list" where
  "swap_moments S F liveDir stagingDir backupDir dw =
     (let (db, w) = dw; opts = db_badgerOpts db;
          (w1, _) = os_RemoveAll F backupDir w;
          old = (if close_failed S (db, w1) then Unclear else Old);
          (db1, w2) = close_for_swap S (db, w1);
          (w3, e3) = os_Rename F liveDir backupDir w2
      in (Old, db_store db, w1) # (old, None, w2) #
         (case e3 of
            Some err \<Rightarrow> (old, None, w3) # reopen_moments S opts old w3
          | None \<Rightarrow>
              let (w4, e4) = os_Rename F stagingDir liveDir w3 in
              (Gone, None, w3) #
              (case e4 of
                 Some err \<Rightarrow> (Gone, None, w4) # rollback_moments S F opts backupDir liveDir old Gone w4
               | None \<Rightarrow>
                   let (w5, r) = badger_Open S opts w4 in
                   (New, None, w4) #
                   (case r of
                      Inl err \<Rightarrow>
                        let (w6, e6) = os_RemoveAll F liveDir w5;
                            here = (if e6 = None then Gone else Unclear)
                        in (New, None, w5) # (here, None, w6) #
                           rollback_moments S F opts backupDir liveDir old here w6
                    | Inr store \<Rightarrow>
                        [(New, Some store, w5), (New, Some store, fst (os_RemoveAll F backupDir w5))]))))"

definition swap_generation ::
    "('b,'o,'d,'s) storage_api \<Rightarrow> 'd faults \<Rightarrow> path \<Rightarrow> path \<Rightarrow> path \<Rightarrow> ('b,'r,'o) DB \<times> 'd world \<Rightarrow>
     generation" where
  "swap_generation S F liveDir stagingDir backupDir dw =
     fst (last (swap_moments S F liveDir stagingDir backupDir dw))"

section \<open>They are the worlds the program goes through\<close>

text \<open>The states of a program's run, the first and the last included.\<close>

primrec trace :: "('s, 'a) prog \<Rightarrow> 's \<Rightarrow> 's list" where
  "trace (Ret x) = (\<lambda>s. [s])"
| "trace (Act f) = (\<lambda>s. s # (case map_prod id trace (f s) of (s', t) \<Rightarrow> t s'))"

declare trace.simps(2) [simp del]

lemma trace_act [simp]: "trace (act f k) s = s # (case f s of (s', x) \<Rightarrow> trace (k x) s')"
  by (simp add: act_def trace.simps case_prod_beta)

lemma trace_ne [simp]: "trace p s \<noteq> []"
  by (cases p) (simp_all add: trace.simps)

lemma last_trace: "last (trace p s) = fst (exec p s)"
proof (induction p arbitrary: s)
  case (Act f)
  have "last (trace (snd (f s)) (fst (f s))) = fst (exec (snd (f s)) (fst (f s)))"
    by (rule Act.IH [of "f s"]) (simp_all add: Basic_BNFs.snds.simps)
  then show ?case by (simp add: trace.simps exec_Act case_prod_beta)
qed simp

definition worlds :: "('n \<times> 'd world, 'a) prog \<Rightarrow> 'n \<times> 'd world \<Rightarrow> 'd world set" where
  "worlds p s = snd ` set (trace p s)"

lemma worlds_act: "worlds (act f k) s = insert (snd s) (case f s of (s', x) \<Rightarrow> worlds (k x) s')"
  by (simp add: worlds_def case_prod_beta)

lemma worlds_Ret: "worlds (Ret x) s = {snd s}"
  by (simp add: worlds_def)

definition moment_worlds :: "('b, 'd) moment list \<Rightarrow> 'd world set" where
  "moment_worlds ms = (\<lambda>m. snd (snd m)) ` set ms"

lemma moment_worlds_simps [simp]:
  "moment_worlds [] = {}" "moment_worlds ((g, h, w) # ms) = insert w (moment_worlds ms)"
  by (simp_all add: moment_worlds_def)

lemma reopen_worlds:
  "worlds (reopen_prog S opts (Ret x)) (db, w) = {w, fst (badger_Open S opts w)}"
  "moment_worlds (reopen_moments S opts g w) = {fst (badger_Open S opts w)}"
  by (auto simp: reopen_prog_def reopen_moments_def worlds_act worlds_Ret case_prod_beta split: sum.split)

lemma rollback_worlds:
  "worlds (rollback_prog S F opts bk lv (Ret x)) (db, w) =
     {w, fst (os_Rename F bk lv w), fst (badger_Open S opts (fst (os_Rename F bk lv w)))}"
  "moment_worlds (rollback_moments S F opts bk lv old here w) =
     {fst (os_Rename F bk lv w), fst (badger_Open S opts (fst (os_Rename F bk lv w)))}"
  by (cases "snd (os_Rename F bk lv w)";
      simp add: rollback_prog_def rollback_moments_def worlds_act reopen_worlds case_prod_beta Let_def)+

lemma close_worlds:
  assumes "close_for_swap S (db, w) = (db1, w1)" and "\<And>s. snd s \<in> worlds k s"
  shows "worlds (swap_close_prog S k) (db, w) = insert w (worlds k (db1, w1))"
  using assms(1) assms(2) [of "(db1, w1)"]
  by (auto simp: swap_close_prog_def close_for_swap_def worlds_act case_prod_beta split: option.splits)

lemma swap_prog_worlds:
  assumes "db_badgerOpts db = opts"
  shows "worlds (swap_prog S F opts lv stg bk) (db, w) =
     insert w (moment_worlds (swap_moments S F lv stg bk (db, w)))"
proof -
  obtain w1 x where r1: "os_RemoveAll F bk w = (w1, x)" by fastforce
  obtain db1 w2 where cl: "close_for_swap S (db, w1) = (db1, w2)" by fastforce
  obtain w3 e3 where r3: "os_Rename F lv bk w2 = (w3, e3)" by fastforce
  obtain w4 e4 where r4: "os_Rename F stg lv w3 = (w4, e4)" by fastforce
  obtain w5 r where op: "badger_Open S opts w4 = (w5, r)" by fastforce
  obtain w6 e6 where r6: "os_RemoveAll F lv w5 = (w6, e6)" by fastforce
  obtain w7 e7 where r7: "os_RemoveAll F bk w5 = (w7, e7)" by fastforce
  have "worlds (swap_prog S F opts lv stg bk) (db, w) = insert w (insert w1 (insert w2 (case e3 of
       Some err \<Rightarrow> worlds (reopen_prog S opts (Ret (Some (''move live dir aside'', err)))) (db1, w3)
     | None \<Rightarrow> insert w3 (case e4 of
         Some err \<Rightarrow> worlds (rollback_prog S F opts bk lv (Ret (Some (''move staging dir into place'', err)))) (db1, w4)
       | None \<Rightarrow> insert w4 (case r of
           Inl err \<Rightarrow> insert w5 (worlds (rollback_prog S F opts bk lv (Ret (Some (''open restored badger'', err)))) (db1, w6))
         | Inr b \<Rightarrow> {w5, w7})))))"
    unfolding swap_prog_def
    using r1 r3 r4 op r6 r7
    by (auto simp: close_worlds [OF cl] worlds_act worlds_Ret case_prod_beta split: option.split sum.split)
  also have "\<dots> = insert w (moment_worlds (swap_moments S F lv stg bk (db, w)))"
    using r1 cl r3 r4 op r6 r7 assms
    by (auto simp: swap_moments_def Let_def reopen_worlds rollback_worlds split: option.split sum.split)
  finally show ?thesis .
qed

text \<open>
  The last moment is how the swap ends: the handle it publishes, the files it leaves, and the
  new generation exactly if there was no error.
\<close>

lemma reopen_last:
  "reopenLocked S (db, w) = (db', w') \<Longrightarrow> last (reopen_moments S (db_badgerOpts db) g w) = (g, db_store db', w')"
  by (auto simp: reopenLocked_def reopen_moments_def split: prod.splits sum.splits)

lemma rollback_last:
  assumes "rollbackAndReopenLocked S F bk lv (db, w) = (db', w')"
  shows "\<exists>g \<in> {old, here}. last (rollback_moments S F (db_badgerOpts db) bk lv old here w) = (g, db_store db', w')"
proof -
  obtain v e where v: "os_Rename F bk lv w = (v, e)" by fastforce
  let ?db = "case e of None \<Rightarrow> db | Some err \<Rightarrow> log_printf db ''fsm: roll back badger dir after failed restore: %v'' err"
  have "db_badgerOpts ?db = db_badgerOpts db" by (auto simp: frame_simps split: option.split)
  moreover have "reopenLocked S (?db, v) = (db', w')" using assms v by (simp add: rollbackAndReopenLocked_def)
  ultimately have "last (reopen_moments S (db_badgerOpts db) g v) = (g, db_store db', w')" for g
    using reopen_last [of S ?db v db' w' g] by simp
  moreover have "reopen_moments S (db_badgerOpts db) g v \<noteq> []" for g by (simp add: reopen_moments_def split: prod.split)
  ultimately show ?thesis using v by (simp add: rollback_moments_def Let_def)
qed

lemma moments_ne [simp]: "reopen_moments S opts g w \<noteq> []" "rollback_moments S F opts bk lv old here w \<noteq> []"
  by (simp_all add: reopen_moments_def rollback_moments_def split: prod.split)

lemma swap_last:
  assumes run: "restore_swap S F lv stg bk (db, w) = ((db', w'), e)"
  shows "last (swap_moments S F lv stg bk (db, w)) = (swap_generation S F lv stg bk (db, w), db_store db', w')"
    and "e = None \<longleftrightarrow> swap_generation S F lv stg bk (db, w) = New"
proof -
  obtain w1 x where r1: "os_RemoveAll F bk w = (w1, x)" by fastforce
  let ?old = "if close_failed S (db, w1) then Unclear else Old"
  obtain db1 w2 where cl: "close_for_swap S (db, w1) = (db1, w2)" by fastforce
  have opts: "db_badgerOpts db1 = db_badgerOpts db" using keptD(1) [OF close_for_swap_kept(1) [OF cl]] .
  have cl': "close_for_swap S (db, fst (os_RemoveAll F bk w)) = (db1, w2)" using r1 cl by simp
  have "\<exists>g. last (swap_moments S F lv stg bk (db, w)) = (g, db_store db', w') \<and> (e = None \<longleftrightarrow> g = New)"
    using cl'
  proof (cases rule: restore_swap_cases [where lv = lv and stg = stg])
    case (published w3 w4 w5 b)
    with run r1 cl show ?thesis by (auto simp: swap_moments_def)
  next
    case (not_aside w3 err)
    with run have "reopenLocked S (db1, w3) = (db', w')" "e \<noteq> None" by auto
    with not_aside(1) r1 cl opts show ?thesis
      by (auto simp: swap_moments_def reopen_last [of S db1 w3 db' w', unfolded opts])
  next
    case (not_moved w3 w4 err)
    with run have rb: "rollbackAndReopenLocked S F bk lv (db1, w4) = (db', w')" "e \<noteq> None" by auto
    from rollback_last [OF rb(1), of ?old Gone] rb(2) not_moved(1,2) r1 cl opts show ?thesis
      by (auto simp: swap_moments_def)
  next
    case (not_opened w3 w4 w5 err)
    obtain w6 e6 where w6: "os_RemoveAll F lv w5 = (w6, e6)" by fastforce
    with not_opened(4) run have rb: "rollbackAndReopenLocked S F bk lv (db1, w6) = (db', w')" "e \<noteq> None" by auto
    from rollback_last [OF rb(1), of ?old "if e6 = None then Gone else Unclear"] rb(2) not_opened(1-3) r1 cl opts w6
    show ?thesis by (auto simp: swap_moments_def)
  qed
  then show "last (swap_moments S F lv stg bk (db, w)) = (swap_generation S F lv stg bk (db, w), db_store db', w')"
    and "e = None \<longleftrightarrow> swap_generation S F lv stg bk (db, w) = New"
    by (auto simp: swap_generation_def)
qed

section \<open>What the live directory holds\<close>

fun holds :: "kv \<Rightarrow> kv \<Rightarrow> generation \<Rightarrow> kv \<Rightarrow> bool" where
  "holds old new Old m \<longleftrightarrow> m = old"
| "holds old new New m \<longleftrightarrow> m = new"
| "holds old new Gone m \<longleftrightarrow> m = Map.empty"
| "holds old new Unclear m \<longleftrightarrow> True"

text \<open>
  A moment keeps its word: the directory, or the handle that has just been opened on it, holds
  its generation; and when neither is there, an old store that closed cleanly is in the backup.
\<close>

fun moment_ok ::
    "('b,'o,'d,'s) storage_ghost \<Rightarrow> path \<Rightarrow> 'o badger_options \<Rightarrow> kv \<Rightarrow> kv \<Rightarrow> bool \<Rightarrow> ('b, 'd) moment \<Rightarrow> bool" where
  "moment_ok G lv opts old new clean (g, h, w) \<longleftrightarrow>
     (case h of
        None \<Rightarrow> holds old new g (disk G (w_fs w) lv)
      | Some b \<Rightarrow> g_opts G b = opts \<and> holds old new g (g_contents G b)) \<and>
     (g = Gone \<and> clean \<longrightarrow> disk G (w_fs w) (backupDir_of lv) = old)"

lemma reopen_moments_ok:
  assumes ok: "storage_ok S G" and co: "colocated opts" and dir: "opt_Dir opts = lv"
    and here: "holds old new g (disk G (w_fs w) lv)"
    and bk: "g = Gone \<Longrightarrow> clean \<Longrightarrow> disk G (w_fs w) (backupDir_of lv) = old"
  shows "\<forall>x \<in> set (reopen_moments S opts g w). moment_ok G lv opts old new clean x"
proof -
  obtain w' r where op: "badger_Open S opts w = (w', r)" by fastforce
  from confinedD [OF Open_confined [OF ok op co], of "backupDir_of lv"] dir
  have "disk G (w_fs w') (backupDir_of lv) = disk G (w_fs w) (backupDir_of lv)" by (simp add: disk_def)
  then show ?thesis
  proof (cases r)
    case (Inl e)
    with op open_errD(2) [OF ok op [unfolded Inl] co] here bk dir
      \<open>disk G (w_fs w') (backupDir_of lv) = _\<close> show ?thesis by (simp add: reopen_moments_def)
  next
    case (Inr b)
    note o' = op [unfolded Inr]
    from op Inr openD(1) [OF ok o'] openD(4) [OF ok o' co] here bk dir
      \<open>disk G (w_fs w') (backupDir_of lv) = _\<close> show ?thesis by (simp add: reopen_moments_def)
  qed
qed

lemma rollback_moments_ok:
  assumes ok: "storage_ok S G" and co: "colocated opts" and dir: "opt_Dir opts = lv"
    and here: "holds old new h (disk G (w_fs w) lv)" "h \<in> {Gone, Unclear}"
    and bk: "clean \<Longrightarrow> disk G (w_fs w) (backupDir_of lv) = old" and g: "g = (if clean then Old else Unclear)"
  shows "\<forall>x \<in> set (rollback_moments S F opts (backupDir_of lv) lv g h w). moment_ok G lv opts old new clean x"
proof -
  obtain w' e where r: "os_Rename F (backupDir_of lv) lv w = (w', e)" by fastforce
  let ?g = "if e = None then g else h"
  have "holds old new ?g (disk G (w_fs w') lv) \<and>
    (?g = Gone \<longrightarrow> clean \<longrightarrow> disk G (w_fs w') (backupDir_of lv) = old)"
  proof (cases e)
    case None
    with r Rename_ok [of F "backupDir_of lv" lv w w'] bk g show ?thesis by (auto simp: disk_def)
  next
    case (Some err)
    with r Rename_err [of F "backupDir_of lv" lv w w'] here bk show ?thesis by auto
  qed
  with reopen_moments_ok [OF ok co dir, of old new ?g w' clean] r show ?thesis
    by (auto simp: rollback_moments_def Let_def)
qed

text \<open>The close leaves what the node served, unless it failed.\<close>

lemma close_keeps:
  assumes ok: "storage_ok S G" and wf: "staged_layout G db" and m: "serves G db w m"
    and run: "close_for_swap S (db, w) = (db1, w')" and "\<not> close_failed S (db, w)"
  shows "disk G (w_fs w') (db_badgerDir db) = m"
proof (cases "db_store db")
  case None
  with run m show ?thesis by (simp add: close_for_swap_def serves_def)
next
  case (Some b)
  obtain v r where cl: "badger_Close S b w = (v, r)" by fastforce
  with assms(5) Some have "r = None" by (simp add: close_failed_def)
  moreover from run Some cl have "w' = v" by (simp add: close_for_swap_def Let_def)
  ultimately show ?thesis using closeD(3) [OF ok cl] staged_layoutD [OF wf] Some m by (simp add: serves_def)
qed

lemma serves_confined: "confined p w w' \<Longrightarrow> \<not> under p (db_badgerDir db) \<Longrightarrow> serves G db w' m = serves G db w m"
  by (simp add: serves_def confined_def disk_def split: option.split)

lemma disk_confined: "confined p w w' \<Longrightarrow> \<not> under p q \<Longrightarrow> disk G (w_fs w') q = disk G (w_fs w) q"
  by (simp add: confined_def disk_def)

lemma disk_moved:
  assumes "os_Rename F a b w = (w', None)" and "\<not> under b a"
  shows "disk G (w_fs w') b = disk G (w_fs w) a" and "disk G (w_fs w') a = Map.empty"
    and "\<not> under a q \<Longrightarrow> \<not> under b q \<Longrightarrow> disk G (w_fs w') q = disk G (w_fs w) q"
  using Rename_ok [OF assms(1)] assms(2) by (simp_all add: disk_def moved_source moved_other)

lemma swap_moments_ok:
  assumes ok: "storage_ok S G" and wf: "staged_layout G db" and m: "serves G db w m"
    and lv: "lv = db_badgerDir db" and r1: "os_RemoveAll F (backupDir_of lv) w = (w1, y)"
  shows "\<forall>x \<in> set (tl (swap_moments S F lv (stagingDir_of lv) (backupDir_of lv) (db, w))).
     moment_ok G lv (db_badgerOpts db) m (disk G (w_fs w) (stagingDir_of lv)) (\<not> close_failed S (db, w1)) x"
proof -
  let ?stg = "stagingDir_of lv" and ?bk = "backupDir_of lv" and ?opts = "db_badgerOpts db"
  let ?clean = "\<not> close_failed S (db, w1)" and ?new = "disk G (w_fs w) (stagingDir_of lv)"
  let ?old = "if ?clean then Old else Unclear"
  let ?ok = "moment_ok G lv ?opts m ?new ?clean"
  have co: "colocated ?opts" and dir: "opt_Dir ?opts = lv" using staged_layoutD [OF wf] lv by simp_all
  obtain db1 w2 where cl: "close_for_swap S (db, w1) = (db1, w2)" by fastforce
  have c1: "confined ?bk w w1" by (rule RemoveAll_confined [OF r1])
  have c2: "confined lv w1 w2" using close_for_swap_confined [OF ok wf cl] lv by simp
  have "serves G db w1 m" using serves_confined [OF c1, of db G m] m lv by simp
  from close_keeps [OF ok wf this cl] lv have old2: "?clean \<Longrightarrow> disk G (w_fs w2) lv = m" by simp
  have new2: "disk G (w_fs w2) ?stg = ?new" 
    using disk_confined [OF c1, of ?stg G] disk_confined [OF c2, of ?stg G] by simp
  obtain w3 e3 where r3: "os_Rename F lv ?bk w2 = (w3, e3)" by fastforce
  show ?thesis
  proof (cases e3)
    case (Some e)
    have "w_fs w3 = w_fs w2" using Rename_err [of F lv ?bk w2] r3 Some by blast
    with reopen_moments_ok [OF ok co dir, of m ?new ?old w3 ?clean] old2 r1 cl r3 Some show ?thesis
      by (cases "close_failed S (db, w1)") (simp_all add: swap_moments_def)
  next
    case None
    note mv3 = disk_moved [OF r3 [unfolded None] siblings_apart(4), where G = G]
    have d3: "disk G (w_fs w3) lv = Map.empty" "?clean \<Longrightarrow> disk G (w_fs w3) ?bk = m" "disk G (w_fs w3) ?stg = ?new"
      using mv3(1,2) mv3(3) [of ?stg] old2 new2 by simp_all
    obtain w4 e4 where r4: "os_Rename F ?stg lv w3 = (w4, e4)" by fastforce
    show ?thesis
    proof (cases e4)
      case (Some e)
      have "w_fs w4 = w_fs w3" using Rename_err [of F ?stg lv w3] r4 Some by blast
      with rollback_moments_ok [OF ok co dir, of m ?new Gone w4 ?clean ?old F] old2 d3 r1 cl r3 r4 None Some show ?thesis
        by (cases "close_failed S (db, w1)") (simp_all add: swap_moments_def)
    next
      case e4: None
      note mv4 = disk_moved [OF r4 [unfolded e4] siblings_apart(1), where G = G]
      have d4: "disk G (w_fs w4) lv = ?new" "?clean \<Longrightarrow> disk G (w_fs w4) ?bk = m"
        using mv4(1) mv4(3) [of ?bk] d3 by simp_all
      obtain w5 r where op: "badger_Open S ?opts w4 = (w5, r)" by fastforce
      show ?thesis
      proof (cases r)
        case (Inr b)
        note op' = op [unfolded Inr]
        from openD(1) [OF ok op'] openD(4) [OF ok op' co] dir d3 d4 old2
          r1 cl r3 r4 op None e4 Inr show ?thesis
          by (cases "close_failed S (db, w1)") (simp_all add: swap_moments_def)
      next
        case (Inl e)
        obtain w6 e6 where r6: "os_RemoveAll F lv w5 = (w6, e6)" by fastforce
        let ?here = "if e6 = None then Gone else Unclear"
        have d5: "disk G (w_fs w5) lv = ?new" using open_errD(2) [OF ok op [unfolded Inl] co] dir d4 by simp
        have c5: "confined lv w4 w5" using Open_confined [OF ok op co] dir by simp
        have c6: "confined lv w5 w6" by (rule RemoveAll_confined [OF r6])
        have "?clean \<Longrightarrow> disk G (w_fs w6) ?bk = m"
          using disk_confined [OF c5, of ?bk G] disk_confined [OF c6, of ?bk G] d4 by simp
        moreover have "holds m ?new ?here (disk G (w_fs w6) lv)"
          using RemoveAll_gone [of F lv w5 w6 lv] r6 by (auto simp: disk_def)
        ultimately show ?thesis
          using rollback_moments_ok [OF ok co dir, of m ?new ?here w6 ?clean ?old F] old2 d3 d4 d5
            r1 cl r3 r4 op r6 None e4 Inl
          by (cases "close_failed S (db, w1)"; cases e6) (simp_all add: swap_moments_def)
      qed
    qed
  qed
qed

text \<open>A handle that is open after the close of the old store has just been opened.\<close>

lemma reopen_opened: "(g', Some b, v) \<in> set (reopen_moments S opts g w) \<Longrightarrow> badger_Open S opts w = (v, Inr b)"
  by (cases "badger_Open S opts w") (auto simp: reopen_moments_def split: sum.splits)

lemma rollback_opened:
  "(g', Some b, v) \<in> set (rollback_moments S F opts bk lv old here w) \<Longrightarrow> \<exists>u. badger_Open S opts u = (v, Inr b)"
  by (auto simp: rollback_moments_def Let_def dest: reopen_opened split: prod.splits)

lemma swap_opened:
  assumes at: "(g, Some b, v) \<in> set (tl (swap_moments S F lv stg bk (db, w)))"
  shows "\<exists>u u'. badger_Open S (db_badgerOpts db) u = (u', Inr b)"
proof -
  obtain w1 x where r1: "os_RemoveAll F bk w = (w1, x)" by fastforce
  obtain db1 w2 where cl: "close_for_swap S (db, w1) = (db1, w2)" by fastforce
  obtain w3 e3 where r3: "os_Rename F lv bk w2 = (w3, e3)" by fastforce
  obtain w4 e4 where r4: "os_Rename F stg lv w3 = (w4, e4)" by fastforce
  obtain w5 r where op: "badger_Open S (db_badgerOpts db) w4 = (w5, r)" by fastforce
  obtain w6 e6 where r6: "os_RemoveAll F lv w5 = (w6, e6)" by fastforce
  note run = at [unfolded swap_moments_def Let_def prod.case r1 cl r3 r4 op r6 list.sel]
  show ?thesis
  proof (cases e3)
    case (Some e)
    with run show ?thesis by (auto dest: reopen_opened)
  next
    case e3: None
    show ?thesis
    proof (cases e4)
      case (Some e)
      with run e3 have "(g, Some b, v) \<in> set (rollback_moments S F (db_badgerOpts db) bk lv
          (if close_failed S (db, w1) then Unclear else Old) Gone w4)" by simp
      from rollback_opened [OF this] show ?thesis by blast
    next
      case e4: None
      show ?thesis
      proof (cases r)
        case (Inl e)
        with run e3 e4 have "(g, Some b, v) \<in> set (rollback_moments S F (db_badgerOpts db) bk lv
            (if close_failed S (db, w1) then Unclear else Old) (if e6 = None then Gone else Unclear) w6)" by simp
        from rollback_opened [OF this] show ?thesis by blast
      next
        case (Inr b')
        with run e3 e4 op show ?thesis by auto
      qed
    qed
  qed
qed

lemma swap_moments_tl:
  assumes "os_RemoveAll F bk w = (w1, y)"
  shows "swap_moments S F lv stg bk (db, w) = (Old, db_store db, w1) # tl (swap_moments S F lv stg bk (db, w))"
    and "tl (swap_moments S F lv stg bk (db, w)) \<noteq> []"
  using assms by (simp_all add: swap_moments_def Let_def split: prod.split)

text \<open>
  Without a fault nothing is unclear and nothing is lost: the removal of the live directory or
  the close of the old store failed, or the rename of the rollback.
\<close>

lemma reopen_generation: "(g', h, v) \<in> set (reopen_moments S opts g w) \<Longrightarrow> g' = g"
  by (cases "badger_Open S opts w") (simp add: reopen_moments_def)

lemma rollback_generation:
  "(g', h, v) \<in> set (rollback_moments S F opts bk lv old here w) \<Longrightarrow>
     g' = (if snd (os_Rename F bk lv w) = None then old else here)"
  by (cases "os_Rename F bk lv w") (auto simp: rollback_moments_def Let_def dest: reopen_generation split: if_splits)

lemma RemoveAll_fault: "os_RemoveAll F p w = (w', Some e) \<Longrightarrow> \<exists>n. F n (RemoveAll p) \<noteq> None"
  by (auto simp: os_RemoveAll_def split: option.splits)

lemma swap_unclear:
  assumes at: "(Unclear, h, v) \<in> set (swap_moments S F lv stg bk (db, w))"
  shows "close_failed S (db, fst (os_RemoveAll F bk w)) \<or> (\<exists>n. F n (RemoveAll lv) \<noteq> None)"
proof (rule ccontr)
  assume neither: "\<not> ?thesis"
  obtain w1 x where r1: "os_RemoveAll F bk w = (w1, x)" by fastforce
  obtain db1 w2 where cl: "close_for_swap S (db, w1) = (db1, w2)" by fastforce
  obtain w3 e3 where r3: "os_Rename F lv bk w2 = (w3, e3)" by fastforce
  obtain w4 e4 where r4: "os_Rename F stg lv w3 = (w4, e4)" by fastforce
  obtain w5 r where op: "badger_Open S (db_badgerOpts db) w4 = (w5, r)" by fastforce
  obtain w6 e6 where r6: "os_RemoveAll F lv w5 = (w6, e6)" by fastforce
  have clean: "\<not> close_failed S (db, w1)" and e6: "e6 = None" using neither r1 r6 RemoveAll_fault by (auto, metis option.exhaust)
  have rb: "(Unclear, h', v') \<notin> set (rollback_moments S F opts bk lv Old Gone u)" for h' v' opts u
    using rollback_generation [of Unclear h' v' S F opts bk lv Old Gone u] by (auto split: if_splits)
  from at show False
    using rb clean e6 reopen_generation [of Unclear h v S "db_badgerOpts db" Old]
    unfolding swap_moments_def Let_def prod.case r1 cl r3 r4 op r6
    by (cases e3; cases e4; cases r) auto
qed

lemma last_generation [simp]:
  "fst (last (reopen_moments S opts g w)) = g"
  "fst (last (rollback_moments S F opts bk lv old here w)) = (if snd (os_Rename F bk lv w) = None then old else here)"
  by (metis last_in_set moments_ne(1) prod.collapse reopen_generation)
    (metis last_in_set moments_ne(2) prod.collapse rollback_generation)

lemma close_failed_unclean:
  "close_failed S (db, w) \<Longrightarrow> \<exists>b fs. db_store db = Some b \<and> snd (s_Close S b fs) \<noteq> None"
  by (auto simp: close_failed_def badger_Close_def split: option.splits prod.splits) (metis option.distinct(1) snd_conv)

lemma swap_gone:
  assumes apart: "\<not> under bk lv" "\<not> under lv bk" "\<not> under stg bk"
    and conf: "\<And>u u' r. badger_Open S (db_badgerOpts db) u = (u', r) \<Longrightarrow> confined lv u u'"
    and gone: "swap_generation S F lv stg bk (db, w) = Gone"
  shows "\<exists>n. F n (Rename bk lv) \<noteq> None"
proof (rule ccontr)
  assume nf: "\<not> ?thesis"
  obtain w1 x where r1: "os_RemoveAll F bk w = (w1, x)" by fastforce
  obtain db1 w2 where cl: "close_for_swap S (db, w1) = (db1, w2)" by fastforce
  obtain w3 e3 where r3: "os_Rename F lv bk w2 = (w3, e3)" by fastforce
  obtain w4 e4 where r4: "os_Rename F stg lv w3 = (w4, e4)" by fastforce
  obtain w5 r where op: "badger_Open S (db_badgerOpts db) w4 = (w5, r)" by fastforce
  obtain w6 e6 where r6: "os_RemoveAll F lv w5 = (w6, e6)" by fastforce
  have rb: "snd (os_Rename F bk lv u) = None" if "w_fs u bk \<noteq> None" "w_fs u lv = None" for u
  proof -
    have "F (w_tick u) (Rename bk lv) = None" using nf by blast
    from Rename_succeeds [where F = F and w = u, OF this that] show ?thesis by auto
  qed
  note eval = swap_generation_def swap_moments_def r1 cl r3 r4 op r6
  from gone have e3: "e3 = None" by (cases e3) (auto simp: eval split: if_splits)
  then have fs3: "w_fs w3 bk \<noteq> None" "w_fs w3 lv = None"
    using Rename_ok [of F lv bk w2 w3] r3 apart by (simp_all add: moved_source)
  have e4: "e4 = None"
  proof (cases e4)
    case (Some e)
    have "w_fs w4 = w_fs w3" using Rename_err [of F stg lv w3 w4] r4 Some by simp
    with gone e3 Some rb [of w4] fs3 show ?thesis by (simp add: eval split: if_splits)
  qed simp
  then have b4: "w_fs w4 bk \<noteq> None" using Rename_ok [of F stg lv w3 w4] r4 apart fs3 by (simp add: moved_other)
  have "w_fs w6 bk \<noteq> None"
    using confinedD [OF conf [OF op] apart(2)] confinedD [OF RemoveAll_confined [OF r6] apart(2)] b4 by simp
  moreover have "e6 = None \<Longrightarrow> w_fs w6 lv = None" using RemoveAll_gone [of F lv w5 w6 lv] r6 by simp
  ultimately show False
    using gone e3 e4 rb [of w6] by (cases r; cases e6) (simp_all add: eval split: if_splits)
qed

text \<open>
  What the swap leaves in service, however it ends; and what a kill at any of its moments leaves
  in the live directory, and in the backup when the live directory is empty.
\<close>

lemma swap_serves:
  assumes ok: "storage_ok S G" and wf: "staged_layout G db" and m: "serves G db w m"
    and lv: "lv = db_badgerDir db"
    and run: "restore_swap S F lv (stagingDir_of lv) (backupDir_of lv) (db, w) = ((db', w'), e)"
    and dir: "db_badgerDir db' = lv"
  shows "\<exists>m'. serves G db' w' m' \<and>
      holds m (disk G (w_fs w) (stagingDir_of lv)) (swap_generation S F lv (stagingDir_of lv) (backupDir_of lv) (db, w)) m'"
    and "kill_ok S G \<Longrightarrow> db_store db' = Some b \<Longrightarrow> g_past G b \<subseteq> {g_contents G b}"
proof -
  let ?ms = "swap_moments S F lv (stagingDir_of lv) (backupDir_of lv) (db, w)"
  let ?g = "swap_generation S F lv (stagingDir_of lv) (backupDir_of lv) (db, w)"
  obtain w1 y where r1: "os_RemoveAll F (backupDir_of lv) w = (w1, y)" by fastforce
  have "last ?ms = last (tl ?ms)" using swap_moments_tl [OF r1, where S = S] by (metis last_ConsR)
  moreover have "last (tl ?ms) \<in> set (tl ?ms)" by (rule last_in_set [OF swap_moments_tl(2) [OF r1]])
  ultimately have in': "(?g, db_store db', w') \<in> set (tl ?ms)" using swap_last(1) [OF run] by simp
  from swap_moments_ok [OF ok wf m lv r1] in'
  have "moment_ok G lv (db_badgerOpts db) m (disk G (w_fs w) (stagingDir_of lv)) (\<not> close_failed S (db, w1)) (?g, db_store db', w')"
    by blast
  then show "\<exists>m'. serves G db' w' m' \<and> holds m (disk G (w_fs w) (stagingDir_of lv)) ?g m'"
    using dir by (cases "db_store db'") (auto simp: serves_def)
  assume "kill_ok S G" "db_store db' = Some b"
  with swap_opened [of ?g b w'] in' Open_fresh show "g_past G b \<subseteq> {g_contents G b}" by metis
qed

lemma killed_moment:
  assumes ok: "storage_ok S G" "kill_ok S G" and wf: "staged_layout G db" and m: "serves G db w m"
    and lv: "lv = db_badgerDir db"
    and at: "(g, h, w') \<in> set (swap_moments S F lv (stagingDir_of lv) (backupDir_of lv) (db, w))"
    and r1: "os_RemoveAll F (backupDir_of lv) w = (w1, y)"
  shows "holds m (disk G (w_fs w) (stagingDir_of lv)) g (disk G (killed S k h w') lv) \<or>
      g = Old \<and> (\<exists>b. db_store db = Some b \<and> disk G (killed S k h w') lv \<in> g_past G b)"
    and "g = Gone \<Longrightarrow> \<not> close_failed S (db, w1) \<Longrightarrow> disk G (killed S k h w') (backupDir_of lv) = m"
proof -
  let ?ms = "swap_moments S F lv (stagingDir_of lv) (backupDir_of lv) (db, w)"
  have co: "colocated (db_badgerOpts db)" and dir: "opt_Dir (db_badgerOpts db) = lv"
    using staged_layoutD [OF wf] lv by simp_all
  consider "(g, h, w') = (Old, db_store db, w1)" | "(g, h, w') \<in> set (tl ?ms)"
    using at swap_moments_tl(1) [OF r1, of S lv "stagingDir_of lv" db] by (metis set_ConsD)
  then have "(holds m (disk G (w_fs w) (stagingDir_of lv)) g (disk G (killed S k h w') lv) \<or>
      g = Old \<and> (\<exists>b. db_store db = Some b \<and> disk G (killed S k h w') lv \<in> g_past G b)) \<and>
      (g = Gone \<longrightarrow> \<not> close_failed S (db, w1) \<longrightarrow> disk G (killed S k h w') (backupDir_of lv) = m)"
  proof cases
    case 1
    show ?thesis
    proof (cases "db_store db")
      case None
      with 1 m lv disk_confined [OF RemoveAll_confined [OF r1], of lv G] show ?thesis
        by (simp add: killed_def serves_def)
    next
      case (Some b)
      with killD(2) [OF ok(2), where b = b and fs = "w_fs w1" and n = k] 1 staged_layoutD(3) [OF wf] co dir show ?thesis
        by (simp add: killed_def)
    qed
  next
    case 2
    with swap_moments_ok [OF ok(1) wf m lv r1]
    have M: "moment_ok G lv (db_badgerOpts db) m (disk G (w_fs w) (stagingDir_of lv)) (\<not> close_failed S (db, w1)) (g, h, w')"
      by blast
    show ?thesis
    proof (cases h)
      case None
      with M show ?thesis by (simp add: killed_def)
    next
      case (Some b)
      with M have b: "g_opts G b = db_badgerOpts db" by simp
      have "disk G (killed S k h w') lv \<in> g_past G b"
        using killD(2) [OF ok(2), where b = b and fs = "w_fs w'" and n = k] b co dir Some by (simp add: killed_def)
      moreover have "g_past G b \<subseteq> {g_contents G b}"
        using swap_opened 2 Some Open_fresh [OF ok(2)] by metis
      moreover have "w_fs w' (backupDir_of lv) = killed S k h w' (backupDir_of lv)"
        using killD(1) [OF ok(2), where b = b and fs = "w_fs w'" and n = k] b co dir Some by (simp add: killed_def local_change_def colocated_def)
      ultimately show ?thesis using M Some by (auto simp: disk_def)
    qed
  qed
  then show "holds m (disk G (w_fs w) (stagingDir_of lv)) g (disk G (killed S k h w') lv) \<or>
      g = Old \<and> (\<exists>b. db_store db = Some b \<and> disk G (killed S k h w') lv \<in> g_past G b)"
    and "g = Gone \<Longrightarrow> \<not> close_failed S (db, w1) \<Longrightarrow> disk G (killed S k h w') (backupDir_of lv) = m"
    by blast+
qed

section \<open>The whole restore\<close>

definition restore_generation ::
    "('b,'o,'d,'s) storage_api \<Rightarrow> 'd faults \<Rightarrow> ('b,'r,'o) DB \<times> 'd world \<Rightarrow> 's \<Rightarrow> generation" where
  "restore_generation S F dw rc =
     (let (db, w) = dw; liveDir = db_badgerDir db in
      if in_place db then (if snd (restoreInPlace S F (db, w) rc) = None then New else Unclear)
      else
        let (w1, failed) = restore_stage S F (db_badgerOpts db) (stagingDir_of liveDir) w rc in
        case failed of
          Some se \<Rightarrow> Old
        | None \<Rightarrow> swap_generation S F liveDir (stagingDir_of liveDir) (backupDir_of liveDir) (db, w1))"

lemma restore_serves:
  assumes ok: "storage_ok S G" and wf: "staged_layout G db" and m: "serves G db w m"
    and run: "fsm_Restore S F (db, w) rc = ((db', w'), r)"
  shows "\<exists>m'. serves G db' w' m' \<and> holds m (g_stream G rc) (restore_generation S F (db, w) rc) m'"
    and "r = None \<longleftrightarrow> restore_generation S F (db, w) rc = New"
    and "kill_ok S G \<Longrightarrow> db_store db' = Some b \<Longrightarrow>
      restore_generation S F (db, w) rc = Old \<and> db_store db = Some b \<or> g_past G b \<subseteq> {g_contents G b}"
proof -
  let ?lv = "db_badgerDir db" and ?g = "restore_generation S F (db, w) rc"
  note np = staged_layoutD(4) [OF wf]
  have "(\<exists>m'. serves G db' w' m' \<and> holds m (g_stream G rc) ?g m') \<and> (r = None \<longleftrightarrow> ?g = New) \<and>
    (kill_ok S G \<longrightarrow> db_store db' = Some b \<longrightarrow> ?g = Old \<and> db_store db = Some b \<or> g_past G b \<subseteq> {g_contents G b})"
    using np run
  proof (cases rule: fsm_Restore_staged_cases)
    case (stage_failed step e)
    have "serves G db w' m" using serves_confined [OF restore_stage_confined [OF ok stage_failed(1)], of db G m] m by simp
    with stage_failed np show ?thesis by (simp add: restore_generation_def frame_simps)
  next
    case (swap_failed w1 db1 step e)
    have m1: "serves G db w1 m" using serves_confined [OF restore_stage_confined [OF ok swap_failed(1)], of db G m] m by simp
    have dir: "db_badgerDir db1 = ?lv" using swap_failed(4) fsm_Restore_frame(5) [OF run] by (simp add: frame_simps)
    note s = swap_serves [OF ok wf m1 refl swap_failed(2) dir]
    from s(1) s(2) [of b] swap_last(2) [OF swap_failed(2)] swap_failed np restore_stage_success(1) [OF ok swap_failed(1)]
    show ?thesis by (auto simp: restore_generation_def Let_def frame_simps)
  next
    case (restored w1)
    have m1: "serves G db w1 m" using serves_confined [OF restore_stage_confined [OF ok restored(1)], of db G m] m by simp
    note s = swap_serves [OF ok wf m1 refl restored(2) fsm_Restore_frame(5) [OF run]]
    from s(1) s(2) [of b] swap_last(2) [OF restored(2)] restored np restore_stage_success(1) [OF ok restored(1)]
    show ?thesis by (auto simp: restore_generation_def Let_def)
  qed
  then show "\<exists>m'. serves G db' w' m' \<and> holds m (g_stream G rc) ?g m'" and "r = None \<longleftrightarrow> ?g = New"
    and "kill_ok S G \<Longrightarrow> db_store db' = Some b \<Longrightarrow> ?g = Old \<and> db_store db = Some b \<or> g_past G b \<subseteq> {g_contents G b}"
    by blast+
qed

end
