(* ===== verification/Replication.thy ===== *)
theory Replication
  imports Lifecycle Swap_Moments
begin

text \<open>
  The cluster as a transition system: a committed log that only grows, and any number of
  nodes, each a \<open>DB\<close> with its disk, that are handed the log's entries in order through
  \<open>fsm.Apply\<close>, take snapshots, persist them while entries go on being applied, restore the
  snapshots of others, stop through \<open>Close\<close> or are killed at any moment, and start again
  through the first half of \<open>Open\<close>. What Raft guarantees is what the relation builds in: one committed log for all, and
  delivery in order. The specification is the map that results from running the whole log
  over the empty map; a node refines it through the relation \<open>shows_since\<close>: each key has a
  value that the log gave it at some point no earlier than the node's position, from which
  the rest of the log makes what the whole log makes (\<open>converges\<close>).
\<close>

section \<open>Convergence of a state with a log\<close>

text \<open>
  A state from which the entries after position \<open>i\<close> lead to what the whole log leads to, up
  to a relation on values.
\<close>

definition converges ::
    "('c \<Rightarrow> ('k \<Rightarrow> 'v) \<Rightarrow> ('k \<Rightarrow> 'v)) \<Rightarrow> ('v \<Rightarrow> 'v \<Rightarrow> bool) \<Rightarrow> 'c list \<Rightarrow> ('k \<Rightarrow> 'v) \<Rightarrow> nat \<Rightarrow>
     ('k \<Rightarrow> 'v) \<Rightarrow> bool" where
  "converges step R log m i s \<longleftrightarrow> (\<forall>k. R (fold step (drop i log) s k) (fold step log m k))"

definition shows_since ::
    "('c \<Rightarrow> ('k \<Rightarrow> 'v) \<Rightarrow> ('k \<Rightarrow> 'v)) \<Rightarrow> ('v \<Rightarrow> 'v \<Rightarrow> bool) \<Rightarrow> 'c list \<Rightarrow> ('k \<Rightarrow> 'v) \<Rightarrow> nat \<Rightarrow>
     ('k \<Rightarrow> 'v) \<Rightarrow> bool" where
  "shows_since step R log m i s \<longleftrightarrow>
     (\<forall>k. \<exists>j \<ge> i. j \<le> length log \<and> R (s k) (fold step (take j log) m k))"

lemma last_effect_None: "last_effect eff cs k = None \<longleftrightarrow> (\<forall>c \<in> set cs. eff c k = None)"
  by (induction cs) (auto split: option.splits)

context blind_writes
begin

text \<open>Key by key: a later entry writes the key, or it has what the entries so far left there.\<close>

lemma converges_iff:
  assumes "\<And>x. R x x"
  shows "converges step R log m i s \<longleftrightarrow>
     (\<forall>k. last_effect eff (drop i log) k \<noteq> None \<or> R (s k) (fold step (take i log) m k))"
proof -
  have "last_effect eff log k =
      (case last_effect eff (drop i log) k of None \<Rightarrow> last_effect eff (take i log) k | Some x \<Rightarrow> Some x)" for k
    by (metis append_take_drop_id last_effect_append)
  then have "R (fold step (drop i log) s k) (fold step log m k) \<longleftrightarrow>
      last_effect eff (drop i log) k \<noteq> None \<or> R (s k) (fold step (take i log) m k)" for k
    using assms by (cases "last_effect eff (drop i log) k") (simp_all add: run_eff)
  then show ?thesis by (simp add: converges_def)
qed

text \<open>Any entry of the log may run out of turn on a state that will see the whole log again.\<close>

lemma converges_again:
  assumes "\<And>x. R x x" and "c \<in> set log" and "converges step R log m 0 s"
  shows "converges step R log m 0 (step c s)"
  using assms(3) assms(2) by (fastforce simp: converges_iff [of R, OF assms(1)] last_effect_None blind
      split: option.splits)

text \<open>Running the whole log repairs every state that some of its entries, in any order, made.\<close>

lemma replay_heals:
  assumes "set xs \<subseteq> set log"
  shows "fold step log (fold step xs m) = fold step log m"
proof -
  have "converges step (=) log m 0 (fold step xs m)"
    using assms
  proof (induction xs rule: rev_induct)
    case Nil
    then show ?case by (simp add: converges_def)
  next
    case (snoc x xs)
    then show ?case using converges_again [of "(=)" x log m "fold step xs m"] by simp
  qed
  then show ?thesis by (simp add: converges_def fun_eq_iff)
qed

text \<open>
  The stronger relation that nodes keep: each key has a value it had at some point of the log
  no earlier than \<open>i\<close>. The points of different keys may differ.
\<close>

lemma since_commit: "shows_since step R log m i s \<Longrightarrow> shows_since step R (log @ [c]) m i s"
  by (fastforce simp: shows_since_def)

lemma since_earlier: "j \<le> i \<Longrightarrow> shows_since step R log m i s \<Longrightarrow> shows_since step R log m j s"
  unfolding shows_since_def using order_trans by blast

lemma since_cong:
  assumes "\<And>k. R (s' k) (s k)" and "\<And>x y z. R x y \<Longrightarrow> R y z \<Longrightarrow> R x z" and "shows_since step R log m i s"
  shows "shows_since step R log m i s'"
  unfolding shows_since_def
proof
  fix k
  from assms(3) obtain j where "j \<ge> i" "j \<le> length log" "R (s k) (fold step (take j log) m k)"
    unfolding shows_since_def by blast
  with assms(2) [OF assms(1)] show "\<exists>j \<ge> i. j \<le> length log \<and> R (s' k) (fold step (take j log) m k)"
    by blast
qed

text \<open>An entry of the log that runs leaves the keys it writes as they were just after it.\<close>

lemma since_run:
  assumes r: "\<And>x. R x x" and i: "i < length log" and "eff (log ! i) k = Some x"
  shows "R (step (log ! i) s k) (fold step (take (Suc i) log) m k)"
  using assms by (simp add: take_Suc_conv_app_nth blind)

lemma since_deliver:
  assumes r: "\<And>x. R x x" and i: "i < length log" and "shows_since step R log m i s"
  shows "shows_since step R log m (Suc i) (step (log ! i) s)"
  unfolding shows_since_def
proof
  fix k
  from assms(3) obtain j where j: "i \<le> j" "j \<le> length log" "R (s k) (fold step (take j log) m k)"
    unfolding shows_since_def by blast
  show "\<exists>j \<ge> Suc i. j \<le> length log \<and> R (step (log ! i) s k) (fold step (take j log) m k)"
  proof (cases "eff (log ! i) k")
    case (Some x)
    from since_run [of R, OF r i Some] i show ?thesis by (intro exI [of _ "Suc i"]) simp
  next
    case None
    then have "fold step (take (Suc i) log) m k = fold step (take i log) m k"
      using i by (simp add: take_Suc_conv_app_nth blind)
    with None j i show ?thesis
      by (cases "j = i") (auto simp: blind intro: exI [of _ "Suc i"] exI [of _ j])
  qed
qed

lemma since_again:
  assumes r: "\<And>x. R x x" and i: "i < length log" and "shows_since step R log m 0 s"
  shows "shows_since step R log m 0 (step (log ! i) s)"
  unfolding shows_since_def
proof
  fix k
  from assms(3) obtain j where j: "j \<le> length log" "R (s k) (fold step (take j log) m k)"
    unfolding shows_since_def by blast
  show "\<exists>j \<ge> 0. j \<le> length log \<and> R (step (log ! i) s k) (fold step (take j log) m k)"
  proof (cases "eff (log ! i) k")
    case (Some x)
    from since_run [of R, OF r i Some] i show ?thesis by (intro exI [of _ "Suc i"]) simp
  next
    case None
    with j show ?thesis by (intro exI [of _ j]) (simp add: blind)
  qed
qed

text \<open>The entries after position \<open>i\<close> bring such a state to where the whole log leads.\<close>

lemma since_converges:
  assumes r: "\<And>x. R x x" and "shows_since step R log m i s"
  shows "converges step R log m i s"
  unfolding converges_iff [of R, OF r]
proof (intro allI disjCI)
  fix k
  assume "\<not> R (s k) (fold step (take i log) m k)"
  moreover from assms(2) obtain j where j: "i \<le> j" "R (s k) (fold step (take j log) m k)"
    unfolding shows_since_def by blast
  ultimately have "fold step (take j log) m k \<noteq> fold step (take i log) m k" by auto
  moreover have "take j log = take i log @ drop i (take j log)"
    using j(1) by (metis append_take_drop_id min.absorb1 take_take)
  ultimately have "last_effect eff (drop i (take j log)) k \<noteq> None"
    by (metis (no_types, lifting) fold_append comp_apply run_eff option.simps(4))
  then show "last_effect eff (drop i log) k \<noteq> None"
    unfolding last_effect_None drop_take by (meson in_set_takeD)
qed

lemma since_end:
  "shows_since step R log m (length log) s \<Longrightarrow> R (s k) (fold step log m k)"
  by (metis le_antisym order_refl shows_since_def take_all)

text \<open>A key that no later entry writes has its final value already.\<close>

lemma converges_settled:
  assumes "converges step R log m i s" and "\<forall>c \<in> set (drop i log). eff c k = None"
  shows "R (s k) (fold step log m k)"
proof -
  have "last_effect eff (drop i log) k = None" using assms(2) by (simp add: last_effect_None)
  then have "fold step (drop i log) s k = s k" by (simp add: run_eff)
  with assms(1) show ?thesis by (metis converges_def)
qed

end

section \<open>What an entry does to the map\<close>

text \<open>
  An entry that no node can decode, or whose command Badger refuses in every state, changes
  nothing anywhere; every other entry runs its command.
\<close>

definition refuses :: "('b,'t,'v,'i,'m) badger_api \<Rightarrow> command \<Rightarrow> bool" where
  "refuses B c \<longleftrightarrow> (\<forall>b. snd (b_Update B b (command_txn B c)) \<noteq> None)"

definition entry_effect :: "('b,'t,'v,'i,'m) badger_api \<Rightarrow> raft_log \<Rightarrow> writes" where
  "entry_effect B l =
     (case decodeCommand (log_Data l) of
        Inl e \<Rightarrow> Map.empty
      | Inr c \<Rightarrow> if refuses B c then Map.empty else effect c)"

definition entry_step :: "('b,'t,'v,'i,'m) badger_api \<Rightarrow> raft_log \<Rightarrow> kv \<Rightarrow> kv" where
  "entry_step B l m = apply_writes (entry_effect B l) m"

definition log_map :: "('b,'t,'v,'i,'m) badger_api \<Rightarrow> raft_log list \<Rightarrow> kv" where
  "log_map B log = fold (entry_step B) log Map.empty"

interpretation ents: blind_writes "entry_step B" "entry_effect B"
  for B :: "('b,'t,'v,'i,'m) badger_api"
  by unfold_locales (simp add: entry_step_def apply_writes_def)

text \<open>Readers' view of one entry from a time on, which compares two maps key by key.\<close>

definition seen_same :: "time \<Rightarrow> (bytes \<times> uint64) option \<Rightarrow> (bytes \<times> uint64) option \<Rightarrow> bool" where
  "seen_same t a b \<longleftrightarrow> (\<forall>now \<ge> t. live now (\<lambda>_. a) [] = live now (\<lambda>_. b) [])"

lemma seen_same_refl [simp]: "seen_same t x x"
  and seen_same_trans: "seen_same t x y \<Longrightarrow> seen_same t y z \<Longrightarrow> seen_same t x z"
  by (simp_all add: seen_same_def)

lemma seen_same_live: "seen_same t (m k) (m' k) \<longleftrightarrow> (\<forall>now \<ge> t. live now m k = live now m' k)"
  by (simp add: seen_same_def live_def)

lemma same_from_pointwise: "same_from t m m' \<longleftrightarrow> (\<forall>k. seen_same t (m k) (m' k))"
  by (auto simp: same_from_def seen_same_live fun_eq_iff)

section \<open>The cluster\<close>

text \<open>
  What is known of a node (or of a snapshot) relative to the log: it is up to date with its
  position; it missed entries, but holds nothing the log does not write; or nothing is known,
  because a failed restore or an unclean close may have left anything.
\<close>

datatype health = Synced | Missed | Lost

fun miss :: "health \<Rightarrow> health" where
  "miss Lost = Lost"
| "miss _ = Missed"

text \<open>
  A node, its disk, and the number of entries of the log it was handed since it last
  started or restored. A stored snapshot has the label Raft gave it when \<open>Snapshot\<close> was
  called.
\<close>

record ('b, 'r, 'o, 'd) replica =
  rep_db :: "('b,'r,'o) DB"
  rep_world :: "'d world"
  rep_pos :: nat
  rep_health :: health

record 's snapshot =
  sn_stream :: 's
  sn_label :: nat
  sn_health :: health

text \<open>
  \<open>cl_taken\<close>: the nodes with a snapshot still to be persisted, with its label. \<open>cl_clock\<close>: the
  latest clock a backup was taken at, which may have left out what had expired by then.
\<close>

record ('b, 'r, 'o, 'd, 's) cluster =
  cl_log :: "raft_log list"
  cl_node :: "nat \<Rightarrow> ('b,'r,'o,'d) replica"
  cl_taken :: "(nat \<times> nat) set"
  cl_stored :: "'s snapshot set"
  cl_clock :: time

definition set_node :: "('b,'r,'o,'d,'s) cluster \<Rightarrow> nat \<Rightarrow> ('b,'r,'o,'d) replica \<Rightarrow> ('b,'r,'o,'d,'s) cluster" where
  "set_node C n r = C\<lparr>cl_node := (cl_node C)(n := r)\<rparr>"

text \<open>A node whose process has died, with what it left on disk.\<close>

definition dead :: "('b,'r,'o,'d) replica \<Rightarrow> 'd world \<Rightarrow> health \<Rightarrow> ('b,'r,'o,'d) replica" where
  "dead r w h = r\<lparr>rep_db := (rep_db r)\<lparr>db_store := None, db_closed := True\<rparr>, rep_world := w, rep_health := h\<rparr>"

text \<open>An entry's response is harmless if it is nil or if no node can run the entry.\<close>

definition harmless :: "('b,'t,'v,'i,'m) badger_api \<Rightarrow> raft_log \<Rightarrow> gerror option \<Rightarrow> bool" where
  "harmless B l resp \<longleftrightarrow> resp = None \<or> entry_effect B l = Map.empty"

text \<open>
  The steps. A snapshot is installed only on a running node that is not ahead of it. A
  start hands the whole log out again; the snapshot that Raft restores at startup is an
  installation that follows it. A snapshot taken before a stop refers to the old \<open>DB\<close>, whose
  store is nil: it can no longer be persisted. A restore that fails leaves what
  \<open>restore_generation\<close> says. The process may be killed at any moment: with
  the database open (also while a restore is staging, which leaves other directories behind), or
  with none; at any moment of a restore's swap or of its rollback; or anywhere else (in an
  in-place restore, or within a call), after which nothing is known of what it left. Then it can
  only start again.
\<close>

text \<open>What is known of a node once a restore has left a generation in its live directory.\<close>

fun left_by :: "generation \<Rightarrow> health \<Rightarrow> health \<Rightarrow> health" where
  "left_by Old old new = old"
| "left_by New old new = new"
| "left_by Gone old new = Missed"
| "left_by Unclear old new = Lost"

inductive cluster_step ::
    "('b,'t,'v,'i,'m) badger_api \<Rightarrow> ('b,'o,'d,'s) storage_api \<Rightarrow> 'r raft_api \<Rightarrow> (nat \<Rightarrow> 'd faults) \<Rightarrow>
     ('b,'r,'o,'d,'s) cluster \<Rightarrow> ('b,'r,'o,'d,'s) cluster \<Rightarrow> bool"
  for B S R F where
  commit: "cluster_step B S R F C (C\<lparr>cl_log := cl_log C @ [l]\<rparr>)"
| deliver: "cluster_step B S R F C (set_node C n
      (r\<lparr>rep_db := db', rep_pos := Suc (rep_pos r),
         rep_health := (if harmless B l resp then rep_health r else miss (rep_health r))\<rparr>))"
  if "r = cl_node C n" and "rep_pos r < length (cl_log C)" and "l = cl_log C ! rep_pos r"
    and "fsm_Apply B (rep_db r) l = (db', resp)"
| take_snapshot: "cluster_step B S R F C (C\<lparr>cl_taken := insert (n, rep_pos (cl_node C n)) (cl_taken C)\<rparr>)"
  if "fsm_Snapshot (rep_db (cl_node C n)) = Inr snap"
| persist: "cluster_step B S R F C (C\<lparr>cl_taken := cl_taken C - {(n, i)},
      cl_stored := insert \<lparr>sn_stream = s, sn_label = i, sn_health = rep_health r\<rparr> (cl_stored C),
      cl_clock := max (cl_clock C) now\<rparr>)"
  if "r = cl_node C n" and "(n, i) \<in> cl_taken C"
    and "Persist S now snap (rep_db r) ce cl = (SinkClosed s, None)"
| install: "cluster_step B S R F C (set_node C n
      (r\<lparr>rep_db := db', rep_world := w', rep_pos := sn_label sn, rep_health := sn_health sn\<rparr>))"
  if "r = cl_node C n" and "sn \<in> cl_stored C" and "rep_pos r \<le> sn_label sn" and "\<not> db_closed (rep_db r)"
    and "fsm_Restore S (F n) (rep_db r, rep_world r) (sn_stream sn) = ((db', w'), None)"
| install_failed: "cluster_step B S R F C (set_node C n
      (r\<lparr>rep_db := db', rep_world := w',
         rep_health := left_by (restore_generation S (F n) (rep_db r, rep_world r) (sn_stream sn))
           (rep_health r) (sn_health sn)\<rparr>))"
  if "r = cl_node C n" and "sn \<in> cl_stored C" and "\<not> db_closed (rep_db r)"
    and "fsm_Restore S (F n) (rep_db r, rep_world r) (sn_stream sn) = ((db', w'), Some e)"
| stop: "cluster_step B S R F C (set_node C n
      (r\<lparr>rep_db := db', rep_world := w',
         rep_health := (if res = None \<and> colocated (db_badgerOpts db') then miss (rep_health r) else Lost)\<rparr>))"
  if "r = cl_node C n" and "db_closeResult (rep_db r) = None"
    and "DB_Close B S R (rep_db r, rep_world r) = (((db', w'), es), res)"
| start: "cluster_step B S R F C ((set_node C n
      (r\<lparr>rep_db := new_db (db_cfg (rep_db r)) (db_badgerOpts (rep_db r)) nil b, rep_world := w', rep_pos := 0,
         rep_health := (if rep_health r = Lost \<or> \<not> colocated (db_badgerOpts (rep_db r)) then Lost else Synced)\<rparr>))
      \<lparr>cl_taken := {x \<in> cl_taken C. fst x \<noteq> n}\<rparr>)"
  if "r = cl_node C n" and "db_closed (rep_db r)" and "db_store (rep_db r) = None"
    and "open_badger S (F n) (db_badgerOpts (rep_db r)) (rep_world r) = (w', Inr b)"
| kill: "cluster_step B S R F C (set_node C n (dead r w'
      (if colocated (db_badgerOpts (rep_db r)) then miss (rep_health r) else Lost)))"
  if "r = cl_node C n"
    and "\<And>q. under (db_badgerDir (rep_db r)) q \<Longrightarrow> w_fs w' q = killed S k (db_store (rep_db r)) (rep_world r) q"
| kill_in_swap: "cluster_step B S R F C (set_node C n (dead r (w'\<lparr>w_fs := killed S k h w'\<rparr>)
      (miss (left_by g (rep_health r) (sn_health sn)))))"
  if "r = cl_node C n" and "sn \<in> cl_stored C" and "\<not> in_place (rep_db r)"
    and "restore_stage S (F n) (db_badgerOpts (rep_db r)) (stagingDir_of (db_badgerDir (rep_db r))) (rep_world r)
      (sn_stream sn) = (w1, None)"
    and "(g, h, w') \<in> set (swap_moments S (F n) (db_badgerDir (rep_db r)) (stagingDir_of (db_badgerDir (rep_db r)))
      (backupDir_of (db_badgerDir (rep_db r))) (rep_db r, w1))"
| kill_otherwise: "cluster_step B S R F C (set_node C n (dead (cl_node C n) w' Lost))"

inductive cluster_reach ::
    "('b,'t,'v,'i,'m) badger_api \<Rightarrow> ('b,'o,'d,'s) storage_api \<Rightarrow> 'r raft_api \<Rightarrow> (nat \<Rightarrow> 'd faults) \<Rightarrow>
     ('b,'r,'o,'d,'s) cluster \<Rightarrow> ('b,'r,'o,'d,'s) cluster \<Rightarrow> bool"
  for B S R F C0 where
  start_cluster: "cluster_reach B S R F C0 C0"
| one_more: "cluster_reach B S R F C0 C \<Longrightarrow> cluster_step B S R F C C' \<Longrightarrow> cluster_reach B S R F C0 C'"

section \<open>The invariant\<close>

text \<open>The two layouts in which a restore replaces the whole database.\<close>

definition restorable :: "('b,'o,'d,'s) storage_ghost \<Rightarrow> ('b,'r,'o) DB \<Rightarrow> bool" where
  "restorable SG db \<longleftrightarrow>
     opt_Dir (db_badgerOpts db) = db_badgerDir db \<and>
     (\<forall>b. db_store db = Some b \<longrightarrow> g_opts SG b = db_badgerOpts db) \<and>
     (colocated (db_badgerOpts db) \<or>
      in_place db \<and> \<not> under (db_badgerDir db) (opt_ValueDir (db_badgerOpts db)) \<and>
      \<not> under (opt_ValueDir (db_badgerOpts db)) (db_badgerDir db))"

text \<open>A transaction does not move a database to other directories.\<close>

definition stays_put :: "('b,'t,'v,'i,'m) badger_api \<Rightarrow> ('b,'o,'d,'s) storage_ghost \<Rightarrow> bool" where
  "stays_put B SG \<longleftrightarrow> (\<forall>b fn. g_opts SG (fst (b_Update B b fn)) = g_opts SG b)"

text \<open>A transaction adds one state to those the open database has held.\<close>

definition past_grows :: "('b,'t,'v,'i,'m) badger_api \<Rightarrow> ('b,'o,'d,'s) storage_ghost \<Rightarrow> bool" where
  "past_grows B SG \<longleftrightarrow>
     (\<forall>b fn. g_past SG (fst (b_Update B b fn)) \<subseteq> insert (g_contents SG (fst (b_Update B b fn))) (g_past SG b))"

definition conforms ::
    "('b,'t,'v,'i,'m) badger_api \<Rightarrow> time \<Rightarrow> raft_log list \<Rightarrow> health \<Rightarrow> nat \<Rightarrow> kv \<Rightarrow> bool" where
  "conforms B t log h i m =
     (case h of
        Synced \<Rightarrow> shows_since (entry_step B) (seen_same t) log Map.empty i m
      | Missed \<Rightarrow> shows_since (entry_step B) (seen_same t) log Map.empty 0 m
      | Lost \<Rightarrow> True)"

text \<open>Every state that the open database has held, and that a kill may bring back, is of the log.\<close>

definition past_inv ::
    "('b,'t,'v,'i,'m) badger_api \<Rightarrow> ('b,'o,'d,'s) storage_ghost \<Rightarrow> time \<Rightarrow> raft_log list \<Rightarrow>
     ('b,'r,'o,'d) replica \<Rightarrow> bool" where
  "past_inv B SG t log r \<longleftrightarrow>
     (\<forall>b. db_store (rep_db r) = Some b \<longrightarrow> rep_health r \<noteq> Lost \<longrightarrow> colocated (db_badgerOpts (rep_db r)) \<longrightarrow>
        (\<forall>m \<in> g_past SG b. conforms B t log Missed 0 m))"

definition node_inv ::
    "('b,'t,'v,'i,'m) badger_api \<Rightarrow> ('b,'o,'d,'s) storage_ghost \<Rightarrow> time \<Rightarrow> raft_log list \<Rightarrow>
     ('b,'r,'o,'d) replica \<Rightarrow> bool" where
  "node_inv B SG t log r \<longleftrightarrow>
     restorable SG (rep_db r) \<and> rep_pos r \<le> length log \<and> past_inv B SG t log r \<and>
     (\<exists>m. serves SG (rep_db r) (rep_world r) m \<and> conforms B t log (rep_health r) (rep_pos r) m)"

definition snap_inv ::
    "('b,'t,'v,'i,'m) badger_api \<Rightarrow> ('b,'o,'d,'s) storage_ghost \<Rightarrow> time \<Rightarrow> raft_log list \<Rightarrow> 's snapshot \<Rightarrow> bool" where
  "snap_inv B SG t log sn \<longleftrightarrow>
     sn_label sn \<le> length log \<and> conforms B t log (sn_health sn) (sn_label sn) (g_stream SG (sn_stream sn))"

definition cluster_inv ::
    "('b,'t,'v,'i,'m) badger_api \<Rightarrow> ('b,'o,'d,'s) storage_ghost \<Rightarrow> ('b,'r,'o,'d,'s) cluster \<Rightarrow> bool" where
  "cluster_inv B SG C \<longleftrightarrow>
     (\<forall>n. node_inv B SG (cl_clock C) (cl_log C) (cl_node C n)) \<and>
     (\<forall>(n, i) \<in> cl_taken C. i \<le> rep_pos (cl_node C n)) \<and>
     (\<forall>sn \<in> cl_stored C. snap_inv B SG (cl_clock C) (cl_log C) sn)"

text \<open>A new cluster: an empty log, and nodes with an empty database.\<close>

definition new_cluster :: "('b,'o,'d,'s) storage_ghost \<Rightarrow> ('b,'r,'o,'d,'s) cluster \<Rightarrow> bool" where
  "new_cluster SG C \<longleftrightarrow>
     cl_log C = [] \<and> cl_taken C = {} \<and> cl_stored C = {} \<and>
     (\<forall>n. let r = cl_node C n in restorable SG (rep_db r) \<and> rep_pos r = 0 \<and>
        serves SG (rep_db r) (rep_world r) Map.empty \<and>
        (\<forall>b. db_store (rep_db r) = Some b \<longrightarrow> g_past SG b \<subseteq> {Map.empty}))"

section \<open>Conformance along the steps\<close>

lemma conforms_commit: "conforms B t log h i m \<Longrightarrow> conforms B t (log @ [l]) h i m"
  by (cases h) (auto simp: conforms_def intro: ents.since_commit)

lemma conforms_earlier: "j \<le> i \<Longrightarrow> conforms B t log h i m \<Longrightarrow> conforms B t log h j m"
  by (cases h) (auto simp: conforms_def intro: ents.since_earlier)

lemma conforms_miss: "conforms B t log h i m \<Longrightarrow> conforms B t log (miss h) j m"
  by (cases h) (auto simp: conforms_def intro: ents.since_earlier [OF le0])

lemma conforms_missed: "h \<noteq> Lost \<Longrightarrow> conforms B t log h i m \<Longrightarrow> conforms B t log Missed 0 m"
  by (cases h) (auto simp: conforms_def intro: ents.since_earlier [OF le0])

lemma conforms_nothing: "conforms B t log Missed i Map.empty"
  by (auto simp: conforms_def shows_since_def intro!: exI [of _ 0])

text \<open>What a restore leaves, to a node that goes on and to one that starts again.\<close>

lemma left_by_conforms:
  assumes "conforms B t log h i old" and "holds old new g m" and "g \<noteq> New"
  shows "conforms B t log (left_by g h s) i m"
  using assms conforms_nothing by (cases g) (auto simp: conforms_def)

lemma left_by_missed:
  assumes "conforms B t log h i old" and "conforms B t log s j new" and "holds old new g m"
  shows "conforms B t log (miss (left_by g h s)) k m"
proof -
  have "\<exists>l. conforms B t log (left_by g h s) l m"
    using assms conforms_nothing by (cases g) (auto simp: conforms_def)
  then show ?thesis by (blast intro: conforms_miss)
qed

lemma conforms_deliver:
  assumes "i < length log" and "conforms B t log h i m"
  shows "conforms B t log h (Suc i) (entry_step B (log ! i) m)"
  using assms
  by (cases h) (auto simp: conforms_def intro: ents.since_deliver [of "seen_same t", OF seen_same_refl]
      ents.since_again [of "seen_same t", OF seen_same_refl])

lemma conforms_seen:
  assumes "same_from t m' m" and "conforms B t log h i m"
  shows "conforms B t log h i m'"
proof -
  from assms(1) have "seen_same t (m' k) (m k)" for k by (simp add: same_from_pointwise)
  note cong = ents.since_cong [of "seen_same t" m' m, OF this seen_same_trans]
  show ?thesis
    using assms(2) by (cases h) (auto simp: conforms_def intro: cong)
qed

text \<open>What holds for readers from \<open>t\<close> on holds for readers from a later time on.\<close>

lemma seen_same_later: "seen_same t x y \<Longrightarrow> t \<le> t' \<Longrightarrow> seen_same t' x y"
  by (simp add: seen_same_def)

lemma conforms_later: "t \<le> t' \<Longrightarrow> conforms B t log h i m \<Longrightarrow> conforms B t' log h i m"
  by (cases h) (fastforce simp: conforms_def shows_since_def intro: seen_same_later)+

lemma node_inv_later: "t \<le> t' \<Longrightarrow> node_inv B SG t log r \<Longrightarrow> node_inv B SG t' log r"
  by (auto simp: node_inv_def past_inv_def intro: conforms_later)

lemma cluster_inv_later: "cl_clock C \<le> t \<Longrightarrow> cluster_inv B SG C \<Longrightarrow> cluster_inv B SG (C\<lparr>cl_clock := t\<rparr>)"
  by (auto simp: cluster_inv_def snap_inv_def intro: conforms_later node_inv_later)

section \<open>The steps of a node\<close>

lemma serves_cong:
  assumes "db_store db' = db_store db" and "db_badgerDir db' = db_badgerDir db"
    and "w_fs w' (db_badgerDir db) = w_fs w (db_badgerDir db)"
  shows "serves SG db' w' m = serves SG db w m"
  using assms by (simp add: serves_def disk_def split: option.split)

lemma restorable_cong:
  assumes "db_store db' = db_store db \<or> db_store db' = None" and "db_badgerDir db' = db_badgerDir db"
    and "db_badgerOpts db' = db_badgerOpts db" and "restorable SG db"
  shows "restorable SG db'"
  using assms by (auto simp: restorable_def in_place_def)

lemma restorable_layout: "restorable SG db \<Longrightarrow> colocated (db_badgerOpts db) \<Longrightarrow> staged_layout SG db"
  by (simp add: restorable_def staged_layout_def)

text \<open>Apply runs the entry on the map the node serves, or leaves it.\<close>

lemma Apply_serves:
  assumes upd: "update_ok B G" and link: "contents G = g_contents SG"
    and old: "serves SG db w m" and run: "fsm_Apply B db l = (db', resp)"
  shows "serves SG db' w (if resp = None then entry_step B l m else m)"
proof (cases resp)
  case (Some e)
  from fsm_Apply_error [OF upd run [unfolded Some]] fsm_Apply_frame [OF run] old Some link
  show ?thesis by (auto simp: serves_def node_contents_def split: option.splits)
next
  case None
  from upd run [unfolded None] obtain c where c: "decodeCommand (log_Data l) = Inr c"
    and m: "node_contents G db' = map_option (apply_command c) (node_contents G db)"
    and st: "db_store db \<noteq> None" "\<not> db_closed db"
    by (rule fsm_Apply_success)
  have "\<not> refuses B c"
    using fsm_Apply_committed [OF run [unfolded None] c] by (metis refuses_def snd_conv)
  then have "entry_step B l = apply_command c"
    by (simp add: fun_eq_iff entry_step_def entry_effect_def c apply_command_effect)
  with m st old None link show ?thesis
    by (auto simp: serves_def node_contents_def split: option.splits)
qed

lemma Apply_restorable:
  assumes "stays_put B SG" and "restorable SG db" and run: "fsm_Apply B db l = (db', resp)"
  shows "restorable SG db'"
proof -
  have "db_store db' = Some b' \<Longrightarrow> g_opts SG b' = db_badgerOpts db" for b'
    using assms(1,2) run
    by (cases rule: fsm_Apply_cases [of l B db]) (auto simp: restorable_def stays_put_def frame_simps; metis fst_conv)+
  with assms(2) fsm_Apply_frame(4,5) [OF run] show ?thesis
    by (simp add: restorable_def in_place_def)
qed

lemma Apply_past:
  assumes "past_grows B SG" and run: "fsm_Apply B db l = (db', resp)" and "db_store db' = Some b'"
  shows "\<exists>b. db_store db = Some b \<and> g_past SG b' \<subseteq> insert (g_contents SG b') (g_past SG b)"
proof -
  have up: "b_Update B b fn = (b1, r) \<Longrightarrow> g_past SG b1 \<subseteq> insert (g_contents SG b1) (g_past SG b)" for b fn b1 r
    using assms(1) unfolding past_grows_def by (metis fst_conv)
  have "db_store db = Some b' \<or> (\<exists>b fn r. db_store db = Some b \<and> b_Update B b fn = (b', r))"
    using run assms(3) by (cases rule: fsm_Apply_cases [of l B db]) (auto simp: frame_simps)
  with up show ?thesis by blast
qed

lemma fsm_run_restorable:
  "stays_put B SG \<Longrightarrow> restorable SG db \<Longrightarrow> fsm_run B db ls = (db', rs) \<Longrightarrow> restorable SG db'"
  by (induction ls arbitrary: db rs) (auto dest: Apply_restorable split: prod.splits)

lemma restoreInPlace_opts:
  assumes ok: "storage_ok S SG" and run: "restoreInPlace S F (db, w) rc = ((db', w'), None)"
    and "db_store db' = Some b"
  shows "g_opts SG b = db_badgerOpts db"
proof -
  from run obtain w2 w3 b0 b' where
    op: "badger_Open S (db_badgerOpts db) w2 = (w3, Inr b0)"
    and ld: "s_Load S b0 rc snapshotLoadMaxPendingWrites = (b', None)"
    and db': "db' = db\<lparr>db_store := Some b', db_appliedIndex := 0\<rparr>"
    unfolding restoreInPlace_def
    by (auto simp: Let_def simp del: wipe_dirs.simps split: prod.splits option.splits sum.splits)
  from loadD(1) [OF ok ld] openD(1) [OF ok op] db' assms(3) show ?thesis by simp
qed

text \<open>A restore that returns nil publishes the snapshot, in both layouts.\<close>

lemma Restore_published:
  assumes st: "storage_ok S SG" and lay: "restorable SG db"
    and run: "fsm_Restore S F (db, w) rc = ((db', w'), None)"
  shows "restorable SG db'" and "serves SG db' w' (g_stream SG rc)"
proof -
  have "\<exists>b. db_store db' = Some b \<and> g_contents SG b = g_stream SG rc \<and> g_opts SG b = db_badgerOpts db"
  proof (cases "colocated (db_badgerOpts db)")
    case True
    from restore_staged_success [OF st restorable_layout [OF lay True] run]
      fsm_Restore_frame(4) [OF run] show ?thesis
      by (auto simp: staged_layout_def)
  next
    case False
    with lay have ip: "in_place db" and dir: "opt_Dir (db_badgerOpts db) = db_badgerDir db"
      and apart: "\<not> under (db_badgerDir db) (opt_ValueDir (db_badgerOpts db))"
        "\<not> under (opt_ValueDir (db_badgerOpts db)) (db_badgerDir db)" by (auto simp: restorable_def)
    from run have run': "restoreInPlace S F (db, w) rc = ((db', w'), None)"
      by (simp add: fsm_Restore_in_place [OF ip] report_ok)
    from restoreInPlace_success(1) [OF st dir apart run'] restoreInPlace_opts [OF st run'] show ?thesis
      by fastforce
  qed
  with lay fsm_Restore_frame(4,5) [OF run]
  show "restorable SG db'" and "serves SG db' w' (g_stream SG rc)"
    by (auto simp: restorable_def serves_def in_place_def)
qed

text \<open>One that fails leaves no handle on other directories.\<close>

lemma reopen_opts:
  assumes "storage_ok S SG" and "reopenLocked S (db, w) = (db', w')" and "db_store db' = Some b"
  shows "g_opts SG b = db_badgerOpts db"
proof -
  obtain v r where op: "badger_Open S (db_badgerOpts db) w = (v, r)" by fastforce
  with assms show ?thesis by (cases r) (auto simp: reopenLocked_def dest: openD(1))
qed

lemma rollback_opts:
  assumes "storage_ok S SG" and "rollbackAndReopenLocked S F bk lv (db, w) = (db', w')"
    and "db_store db' = Some b"
  shows "g_opts SG b = db_badgerOpts db"
proof -
  obtain v e where "os_Rename F bk lv w = (v, e)" by fastforce
  with assms show ?thesis
    by (cases e) (auto simp: rollbackAndReopenLocked_def frame_simps dest: reopen_opts)
qed

lemma restore_swap_failed_opts:
  assumes ok: "storage_ok S SG" and run: "restore_swap S F lv stg bk (db, w) = ((db', w'), Some se)"
    and b: "db_store db' = Some b"
  shows "g_opts SG b = db_badgerOpts db"
proof -
  obtain db1 w2 where cl: "close_for_swap S (db, fst (os_RemoveAll F bk w)) = (db1, w2)" by fastforce
  have "g_opts SG b = db_badgerOpts db1"
    using cl
  proof (cases rule: restore_swap_cases [where lv = lv and stg = stg])
    case not_aside
    with run b show ?thesis by (auto dest: reopen_opts [OF ok])
  next
    case not_moved
    with run b show ?thesis by (auto dest: rollback_opts [OF ok])
  next
    case not_opened
    with run b show ?thesis by (auto dest: rollback_opts [OF ok])
  qed (use run in auto)
  with keptD(1) [OF close_for_swap_kept(1) [OF cl]] show ?thesis by simp
qed

lemma Restore_failed_restorable:
  assumes ok: "storage_ok S SG" and lay: "restorable SG db"
    and run: "fsm_Restore S F (db, w) rc = ((db', w'), Some e)"
  shows "restorable SG db'"
proof -
  have "g_opts SG b = db_badgerOpts db" if b: "db_store db' = Some b" for b
  proof (cases "in_place db")
    case True
    show ?thesis
      by (rule report_failed [OF run [unfolded fsm_Restore_in_place [OF True]]])
        (use b in \<open>auto simp: frame_simps dest!: restoreInPlace_failed\<close>)
  next
    case False
    then show ?thesis
      using run
    proof (cases rule: fsm_Restore_staged_cases)
      case stage_failed
      with b lay show ?thesis by (simp add: frame_simps restorable_def)
    next
      case (swap_failed w1 db1 step err)
      with b show ?thesis by (auto simp: frame_simps dest: restore_swap_failed_opts [OF ok])
    qed auto
  qed
  with lay fsm_Restore_frame(4,5) [OF run] show ?thesis by (simp add: restorable_def in_place_def)
qed

text \<open>A closed node answers every entry without touching its store.\<close>

lemma fsm_run_closed:
  "db_closed db \<Longrightarrow> fsm_run B db ls = (db', rs) \<Longrightarrow> db_store db' = db_store db"
proof (induction ls arbitrary: db rs)
  case (Cons l ls)
  obtain db1 r where one: "fsm_Apply B db l = (db1, r)" by fastforce
  have "db_store db1 = db_store db"
    using one Cons.prems(1)
    by (cases rule: fsm_Apply_cases [of l B db]) (auto simp: frame_simps)
  with Cons.IH [of db1] fsm_Apply_frame(1) [OF one] Cons.prems one show ?case
    by (auto split: prod.splits)
qed auto

lemma Close_first_world:
  assumes run: "DB_Close B S R (db, w) = (((db', w'), es), res)" and first: "db_closeResult db = None"
  shows "db_store db' = None" and "db_closed db'" and "db_badgerOpts db' = db_badgerOpts db"
    and "db_badgerDir db' = db_badgerDir db" and "db_cfg db' = db_cfg db"
    and "db_store db = None \<Longrightarrow> w' = w"
    and "db_store db = Some b \<Longrightarrow> res = None \<Longrightarrow> badger_Close S b w = (w', None)"
proof -
  let ?db0 = "db\<lparr>db_closed := True\<rparr>"
  let ?out = "r_Shutdown R (db_raft ?db0)"
  obtain db1 rs where fr: "fsm_run B (?db0\<lparr>db_raft := ro_raft ?out\<rparr>) (ro_logs ?out) = (db1, rs)" by fastforce
  obtain r2 e2 where t: "r_TransportClose R (db_raft db1) = (r2, e2)" by fastforce
  obtain r3 e3 where b: "r_BoltClose R r2 = (r3, e3)" by fastforce
  obtain db2 v e4 where c: "closeStore S (db1\<lparr>db_raft := r3\<rparr>, w) = ((db2, v), e4)"
    by (metis prod.collapse)
  from run first fr t b c have res: "db' = db2\<lparr>db_closeResult := Some res\<rparr>" "w' = v"
    and j: "res = errors_Join [ro_err ?out, e2, e3, e4]"
    by (auto simp: DB_Close_def Let_def)
  have same: "db_store db1 = db_store db" using fsm_run_closed [OF _ fr] by simp
  show "db_store db' = None" and "db_closed db'" and "db_badgerOpts db' = db_badgerOpts db"
    and "db_badgerDir db' = db_badgerDir db" and "db_cfg db' = db_cfg db"
    using res closeStore_store [OF c] fsm_run_frame [OF fr] by simp_all
  show "db_store db = None \<Longrightarrow> w' = w" using c res same by (simp add: closeStore_def)
  show "badger_Close S b w = (w', None)" if "db_store db = Some b" "res = None"
    using c res same that j
    by (auto simp: closeStore_def errors_Join_None_iff split: prod.splits)
qed

text \<open>A clean close leaves on disk what the node served, and a start serves what is on disk.\<close>

lemma stop_serves:
  assumes ok: "storage_ok S SG" and lay: "restorable SG db" and old: "serves SG db w m"
    and run: "DB_Close B S R (db, w) = (((db', w'), es), None)" and first: "db_closeResult db = None"
    and co: "colocated (db_badgerOpts db)"
  shows "serves SG db' w' m"
proof (cases "db_store db")
  case None
  with Close_first_world [OF run first] old show ?thesis by (simp add: serves_def)
next
  case (Some b)
  with lay have opts: "g_opts SG b = db_badgerOpts db" "opt_Dir (db_badgerOpts db) = db_badgerDir db"
    by (auto simp: restorable_def)
  have "badger_Close S b w = (w', None)" by (rule Close_first_world(7) [OF run first Some]) simp
  from closeD(3) [OF ok this] co opts Some old Close_first_world(1,4) [OF run first]
  show ?thesis by (simp add: serves_def)
qed

lemma open_badger_contents:
  assumes ok: "storage_ok S SG" and run: "open_badger S F opts w = (w', Inr b)"
  shows "g_opts SG b = opts" and "colocated opts \<Longrightarrow> g_contents SG b = disk SG (w_fs w) (opt_Dir opts)"
proof -
  obtain w1 e where m: "os_MkdirAll F (s_empty S) (opt_Dir opts) w = (w1, e)" by fastforce
  obtain w2 r where o': "badger_Open S opts w1 = (w2, r)" by fastforce
  have e: "e = None" using run m by (cases e) (auto simp: open_badger_def)
  have "w2 = w' \<and> r = Inr b" using run m o' e by (cases r) (auto simp: open_badger_def)
  with m o' e have mk: "os_MkdirAll F (s_empty S) (opt_Dir opts) w = (w1, None)"
    and op: "badger_Open S opts w1 = (w', Inr b)" by simp_all
  show "g_opts SG b = opts" by (rule openD(1) [OF ok op])
  have "g_image SG (s_empty S) = Map.empty" using ok by (simp add: storage_ok_def open_ok_def)
  with mk have "disk SG (w_fs w1) (opt_Dir opts) = disk SG (w_fs w) (opt_Dir opts)"
    by (auto simp: os_MkdirAll_def disk_def split: option.splits)
  with openD(4) [OF ok op]
  show "colocated opts \<Longrightarrow> g_contents SG b = disk SG (w_fs w) (opt_Dir opts)" by simp
qed

lemma open_badger_fresh:
  assumes "kill_ok S SG" and "open_badger S F opts w = (w', Inr b)"
  shows "g_past SG b \<subseteq> {g_contents SG b}"
proof -
  obtain w1 e where m: "os_MkdirAll F (s_empty S) (opt_Dir opts) w = (w1, e)" by fastforce
  obtain w2 r where o': "badger_Open S opts w1 = (w2, r)" by fastforce
  from assms(2) m o' have "r = Inr b" by (cases e; cases r) (auto simp: open_badger_def)
  with o' Open_fresh [OF assms(1)] show ?thesis by blast
qed

section \<open>The invariant holds throughout\<close>

lemma node_invI:
  assumes "restorable SG (rep_db r)" and "rep_pos r \<le> length log" and "past_inv B SG t log r"
    and "serves SG (rep_db r) (rep_world r) m" and "conforms B t log (rep_health r) (rep_pos r) m"
  shows "node_inv B SG t log r"
  using assms by (auto simp: node_inv_def)

lemma node_inv_lost:
  "restorable SG (rep_db r) \<Longrightarrow> rep_pos r \<le> length log \<Longrightarrow> rep_health r = Lost \<Longrightarrow> node_inv B SG t log r"
  by (cases "db_store (rep_db r)") (simp_all add: node_inv_def past_inv_def conforms_def serves_def)

text \<open>Nothing is owed for a node without a store, nor for one that has just been opened.\<close>

lemma past_inv_down: "db_store (rep_db r) = None \<Longrightarrow> past_inv B SG t log r"
  by (simp add: past_inv_def)

lemma past_inv_fresh:
  assumes "\<And>b. colocated (db_badgerOpts (rep_db r)) \<Longrightarrow> db_store (rep_db r) = Some b \<Longrightarrow> g_past SG b \<subseteq> {m}"
    and "conforms B t log (rep_health r) i m"
  shows "past_inv B SG t log r"
  unfolding past_inv_def
proof (intro allI impI ballI)
  fix b m'
  assume h: "db_store (rep_db r) = Some b" "rep_health r \<noteq> Lost" "colocated (db_badgerOpts (rep_db r))" "m' \<in> g_past SG b"
  with assms(1) have "m' = m" by blast
  with conforms_missed [OF h(2) assms(2)] show "conforms B t log Missed 0 m'" by simp
qed

lemma cluster_inv_commit: "cluster_inv B SG C \<Longrightarrow> cluster_inv B SG (C\<lparr>cl_log := cl_log C @ [l]\<rparr>)"
  by (auto simp: cluster_inv_def node_inv_def snap_inv_def past_inv_def intro!: conforms_commit le_SucI)

text \<open>A step of one node that does not go back below the snapshots it has still to persist.\<close>

lemma cluster_inv_set_node:
  assumes "cluster_inv B SG C" and "node_inv B SG (cl_clock C) (cl_log C) r"
    and "T \<subseteq> cl_taken C" and "\<And>i. (n, i) \<in> T \<Longrightarrow> i \<le> rep_pos r"
  shows "cluster_inv B SG ((set_node C n r)\<lparr>cl_taken := T\<rparr>)"
  using assms by (fastforce simp: cluster_inv_def set_node_def)

lemma cluster_inv_forward:
  assumes "cluster_inv B SG C" and "node_inv B SG (cl_clock C) (cl_log C) r"
    and "rep_pos (cl_node C n) \<le> rep_pos r"
  shows "cluster_inv B SG (set_node C n r)"
proof -
  have "cluster_inv B SG ((set_node C n r)\<lparr>cl_taken := cl_taken C\<rparr>)"
    by (rule cluster_inv_set_node [OF assms(1,2)])
      (use assms(1,3) in \<open>auto simp: cluster_inv_def dest!: bspec intro: order_trans\<close>)
  then show ?thesis by (simp add: set_node_def)
qed

text \<open>The dependencies work as documented, over one ghost reading.\<close>

definition deps_ok ::
    "('b,'t,'v,'i,'m) badger_api \<Rightarrow> ('b,'t,'v,'i,'m) badger_ghost \<Rightarrow> ('b,'o,'d,'s) storage_api \<Rightarrow>
     ('b,'o,'d,'s) storage_ghost \<Rightarrow> bool" where
  "deps_ok B G S SG \<longleftrightarrow>
     update_ok B G \<and> storage_ok S SG \<and> backup_ok S SG \<and> contents G = g_contents SG \<and> stays_put B SG \<and>
     kill_ok S SG \<and> past_grows B SG"

lemma deps_okD:
  assumes "deps_ok B G S SG"
  shows "update_ok B G" and "storage_ok S SG" and "backup_ok S SG" and "contents G = g_contents SG"
    and "stays_put B SG" and "kill_ok S SG" and "past_grows B SG"
  using assms by (simp_all add: deps_ok_def)

lemma deliver_node:
  assumes D: "deps_ok B G S SG" and inv: "node_inv B SG t log r" and pos: "rep_pos r < length log" and l: "l = log ! rep_pos r"
    and run: "fsm_Apply B (rep_db r) l = (db', resp)"
  shows "node_inv B SG t log (r\<lparr>rep_db := db', rep_pos := Suc (rep_pos r),
         rep_health := (if harmless B l resp then rep_health r else miss (rep_health r))\<rparr>)"
proof -
  from inv obtain m where lay: "restorable SG (rep_db r)" and m: "serves SG (rep_db r) (rep_world r) m"
    and ok: "conforms B t log (rep_health r) (rep_pos r) m" by (auto simp: node_inv_def)
  let ?m = "if resp = None then entry_step B l m else m"
  have next': "conforms B t log (rep_health r) (Suc (rep_pos r)) (entry_step B l m)"
    using conforms_deliver [OF pos ok] l by simp
  have "entry_effect B l = Map.empty \<Longrightarrow> entry_step B l m = m"
    by (simp add: entry_step_def apply_writes_def fun_eq_iff)
  with next' have "conforms B t log (rep_health r) (Suc (rep_pos r)) ?m" if "harmless B l resp"
    using that by (auto simp: harmless_def)
  moreover have "conforms B t log (miss (rep_health r)) (Suc (rep_pos r)) ?m" if "\<not> harmless B l resp"
    using that conforms_miss [OF ok] by (auto simp: harmless_def)
  ultimately have ok': "conforms B t log (if harmless B l resp then rep_health r else miss (rep_health r))
      (Suc (rep_pos r)) ?m" by (cases "harmless B l resp") (simp_all only: if_True if_False not_True_eq_False not_False_eq_True)
  let ?r = "r\<lparr>rep_db := db', rep_pos := Suc (rep_pos r),
         rep_health := (if harmless B l resp then rep_health r else miss (rep_health r))\<rparr>"
  have m': "serves SG db' (rep_world r) ?m" by (rule Apply_serves [OF deps_okD(1,4) [OF D] m run])
  have "past_inv B SG t log ?r"
    unfolding past_inv_def
  proof (intro allI impI ballI)
    fix b' m1
    assume h: "db_store (rep_db ?r) = Some b'" "rep_health ?r \<noteq> Lost" "colocated (db_badgerOpts (rep_db ?r))"
      "m1 \<in> g_past SG b'"
    then have st: "db_store db' = Some b'" and alive: "rep_health r \<noteq> Lost" by (auto split: if_splits)
    from Apply_past [OF deps_okD(7) [OF D] run st] obtain b where b: "db_store (rep_db r) = Some b"
      "g_past SG b' \<subseteq> insert (g_contents SG b') (g_past SG b)" by blast
    have "colocated (db_badgerOpts (rep_db r))" using h(3) fsm_Apply_frame(4) [OF run] by simp
    with inv b alive have "\<forall>m \<in> g_past SG b. conforms B t log Missed 0 m"
      by (auto simp: node_inv_def past_inv_def)
    moreover have "conforms B t log Missed 0 (g_contents SG b')"
      using conforms_missed [OF _ ok'] h(2) m' st by (simp add: serves_def)
    ultimately show "conforms B t log Missed 0 m1" using b(2) h(4) by blast
  qed
  with ok' m' Apply_restorable [OF deps_okD(5) [OF D] lay run] pos show ?thesis
    by (intro node_invI [where m = ?m]) auto
qed

lemma persist_snap:
  assumes D: "deps_ok B G S SG" and inv: "node_inv B SG t log r" and i: "i \<le> rep_pos r"
    and run: "Persist S now snap (rep_db r) ce cl = (SinkClosed s, None)"
  shows "snap_inv B SG (max t now) log \<lparr>sn_stream = s, sn_label = i, sn_health = rep_health r\<rparr>"
proof -
  from run obtain b where b: "db_store (rep_db r) = Some b" "s_Backup S now b 0 = Inr s"
    by (auto simp: Persist_def split: option.splits sum.splits)
  from inv b(1) have "conforms B t log (rep_health r) (rep_pos r) (g_contents SG b)"
    by (auto simp: node_inv_def serves_def)
  then have "conforms B (max t now) log (rep_health r) i (g_contents SG b)"
    by (intro conforms_later [OF _ conforms_earlier [OF i]]) simp_all
  note conf = this
  have "same_from now (g_stream SG s) (g_contents SG b)"
    using deps_okD(3) [OF D] b(2) unfolding backup_ok_def by blast
  then have "same_from (max t now) (g_stream SG s) (g_contents SG b)" by (rule same_from_later) simp
  from conforms_seen [OF this conf] have "conforms B (max t now) log (rep_health r) i (g_stream SG s)" .
  with i inv show ?thesis by (simp add: snap_inv_def node_inv_def)
qed

lemma install_node:
  assumes D: "deps_ok B G S SG" and "node_inv B SG t log r" and "snap_inv B SG t log sn"
    and run: "fsm_Restore S F (rep_db r, rep_world r) (sn_stream sn) = ((db', w'), None)"
  shows "node_inv B SG t log
     (r\<lparr>rep_db := db', rep_world := w', rep_pos := sn_label sn, rep_health := sn_health sn\<rparr>)"
proof -
  let ?r = "r\<lparr>rep_db := db', rep_world := w', rep_pos := sn_label sn, rep_health := sn_health sn\<rparr>"
  from assms(2,3) have lay: "restorable SG (rep_db r)" and sn: "sn_label sn \<le> length log"
    "conforms B t log (sn_health sn) (sn_label sn) (g_stream SG (sn_stream sn))"
    by (simp_all add: node_inv_def snap_inv_def)
  note P = Restore_published [OF deps_okD(2) [OF D] lay run]
  have "g_past SG b \<subseteq> {g_stream SG (sn_stream sn)}" if "colocated (db_badgerOpts db')" "db_store db' = Some b" for b
  proof -
    have "colocated (db_badgerOpts (rep_db r))" using that(1) fsm_Restore_frame(4) [OF run] by simp
    note wf = restorable_layout [OF lay this]
    obtain m where "serves SG (rep_db r) (rep_world r) m" using assms(2) by (auto simp: node_inv_def)
    note R = restore_serves [OF deps_okD(2) [OF D] wf this run]
    from R(3) [OF deps_okD(6) [OF D] that(2)] R(2) P(2) that(2) show ?thesis by (auto simp: serves_def)
  qed
  then have "past_inv B SG t log ?r" by (intro past_inv_fresh [where i = "sn_label sn"]) (use sn in simp_all)
  with P sn show ?thesis by (intro node_invI [where m = "g_stream SG (sn_stream sn)"]) simp_all
qed

lemma install_failed_node:
  assumes D: "deps_ok B G S SG" and inv: "node_inv B SG t log r"
    and run: "fsm_Restore S F (rep_db r, rep_world r) rc = ((db', w'), Some e)"
  shows "node_inv B SG t log (r\<lparr>rep_db := db', rep_world := w',
         rep_health := left_by (restore_generation S F (rep_db r, rep_world r) rc) (rep_health r) h\<rparr>)"
proof -
  let ?g = "restore_generation S F (rep_db r, rep_world r) rc"
  let ?r = "r\<lparr>rep_db := db', rep_world := w', rep_health := left_by ?g (rep_health r) h\<rparr>"
  from inv obtain m where lay: "restorable SG (rep_db r)" and m: "serves SG (rep_db r) (rep_world r) m"
    and c: "conforms B t log (rep_health r) (rep_pos r) m" and p: "rep_pos r \<le> length log"
    and past: "past_inv B SG t log r" by (auto simp: node_inv_def)
  note ok = deps_okD(2) [OF D] and kill = deps_okD(6) [OF D]
  have lay': "restorable SG db'" by (rule Restore_failed_restorable [OF ok lay run])
  show ?thesis
  proof (cases "colocated (db_badgerOpts (rep_db r))")
    case False
    with lay have ip: "in_place (rep_db r)" by (simp add: restorable_def)
    obtain se where "snd (restoreInPlace S F (rep_db r, rep_world r) rc) = Some se"
      using run [unfolded fsm_Restore_in_place [OF ip]] by (auto elim: report_failed)
    with ip have "?g = Unclear" by (simp add: restore_generation_def)
    with lay' p show ?thesis by (intro node_inv_lost) simp_all
  next
    case True
    note R = restore_serves [OF ok restorable_layout [OF lay True] m run]
    from R(2) have g: "?g \<noteq> New" by simp
    from R(1) obtain m' where m': "serves SG db' w' m'" and hold: "holds m (g_stream SG rc) ?g m'" by blast
    have c': "conforms B t log (left_by ?g (rep_health r) h) (rep_pos r) m'" by (rule left_by_conforms [OF c hold g])
    have "past_inv B SG t log ?r"
      unfolding past_inv_def
    proof (intro allI impI ballI)
      fix b m1
      assume b: "db_store (rep_db ?r) = Some b" and alive: "rep_health ?r \<noteq> Lost" and m1: "m1 \<in> g_past SG b"
      from b have st: "db_store db' = Some b" by simp
      from R(3) [OF kill st] consider "db_store (rep_db r) = Some b" "rep_health r \<noteq> Lost" | "m1 = g_contents SG b"
        using m1 alive by auto
      then show "conforms B t log Missed 0 m1"
      proof cases
        case 1
        with past True m1 show ?thesis by (simp add: past_inv_def)
      next
        case 2
        with m' st conforms_missed [OF alive, of B t log "rep_pos r" m'] c' show ?thesis by (simp add: serves_def)
      qed
    qed
    with m' c' lay' p show ?thesis by (intro node_invI [where m = m']) simp_all
  qed
qed

lemma stop_node:
  assumes D: "deps_ok B G S SG" and inv: "node_inv B SG t log r" and first: "db_closeResult (rep_db r) = None"
    and run: "DB_Close B S R (rep_db r, rep_world r) = (((db', w'), es), res)"
  shows "node_inv B SG t log (r\<lparr>rep_db := db', rep_world := w',
         rep_health := (if res = None \<and> colocated (db_badgerOpts db') then miss (rep_health r) else Lost)\<rparr>)"
proof -
  from inv obtain m where lay: "restorable SG (rep_db r)" and m: "serves SG (rep_db r) (rep_world r) m"
    and ok: "conforms B t log (rep_health r) (rep_pos r) m" and p: "rep_pos r \<le> length log"
    by (auto simp: node_inv_def)
  note C = Close_first_world [OF run first]
  have lay': "restorable SG db'" by (rule restorable_cong [OF _ C(4,3) lay]) (simp add: C(1))
  show ?thesis
  proof (cases "res = None \<and> colocated (db_badgerOpts db')")
    case True
    with run have "DB_Close B S R (rep_db r, rep_world r) = (((db', w'), es), None)" by simp
    from stop_serves [OF deps_okD(2) [OF D] lay m this first] True C(3) have "serves SG db' w' m" by simp
    with True lay' p conforms_miss [OF ok] C(1) show ?thesis
      by (intro node_invI [where m = m] past_inv_down) auto
  next
    case False
    with lay' p show ?thesis by (intro node_inv_lost) auto
  qed
qed

lemma start_node_inv:
  assumes D: "deps_ok B G S SG" and inv: "node_inv B SG t log r" and down: "db_store (rep_db r) = None"
    and run: "open_badger S F (db_badgerOpts (rep_db r)) (rep_world r) = (w', Inr b)"
  shows "node_inv B SG t log
     (r\<lparr>rep_db := new_db (db_cfg (rep_db r)) (db_badgerOpts (rep_db r)) nil b, rep_world := w', rep_pos := 0,
        rep_health := (if rep_health r = Lost \<or> \<not> colocated (db_badgerOpts (rep_db r)) then Lost else Synced)\<rparr>)"
proof -
  let ?db = "new_db (db_cfg (rep_db r)) (db_badgerOpts (rep_db r)) nil b"
  from inv obtain m where lay: "restorable SG (rep_db r)" and m: "serves SG (rep_db r) (rep_world r) m"
    and ok: "conforms B t log (rep_health r) (rep_pos r) m" by (auto simp: node_inv_def)
  have lay': "restorable SG ?db"
    using lay open_badger_contents(1) [OF deps_okD(2) [OF D] run] by (simp add: restorable_def new_db_def in_place_def)
  show ?thesis
  proof (cases "rep_health r = Lost \<or> \<not> colocated (db_badgerOpts (rep_db r))")
    case True
    with lay' show ?thesis by (intro node_inv_lost) auto
  next
    case False
    have "opt_Dir (db_badgerOpts (rep_db r)) = db_badgerDir (rep_db r)" using lay by (simp add: restorable_def)
    with open_badger_contents(2) [OF deps_okD(2) [OF D] run] False m down have "serves SG ?db w' m"
      by (simp add: serves_def new_db_def)
    moreover have "conforms B t log Synced 0 m"
      using conforms_earlier [OF le0 ok] False by (cases "rep_health r") (auto simp: conforms_def)
    moreover have "past_inv B SG t log (r\<lparr>rep_db := ?db, rep_world := w', rep_pos := 0, rep_health := Synced\<rparr>)"
    proof (rule past_inv_fresh)
      show "conforms B t log (rep_health (r\<lparr>rep_db := ?db, rep_world := w', rep_pos := 0, rep_health := Synced\<rparr>)) 0 m"
        using calculation(2) by simp
      fix b' assume "db_store (rep_db (r\<lparr>rep_db := ?db, rep_world := w', rep_pos := 0, rep_health := Synced\<rparr>)) = Some b'"
      then have "b' = b" by (simp add: new_db_def)
      with calculation(1) open_badger_fresh [OF deps_okD(6) [OF D] run] show "g_past SG b' \<subseteq> {m}"
        by (simp add: serves_def new_db_def)
    qed
    ultimately show ?thesis using False lay' by (intro node_invI [where m = m]) auto
  qed
qed

text \<open>A kill leaves a state that the node has held; in the middle of a swap, also the snapshot, or nothing.\<close>

lemma dead_fields [simp]:
  "rep_db (dead r w h) = (rep_db r)\<lparr>db_store := None, db_closed := True\<rparr>" "rep_world (dead r w h) = w"
  "rep_pos (dead r w h) = rep_pos r" "rep_health (dead r w h) = h"
  by (simp_all add: dead_def)

lemma dead_restorable: "restorable SG (rep_db r) \<Longrightarrow> restorable SG (rep_db (dead r w h))"
  by (simp add: restorable_def in_place_def)

lemma dead_node:
  assumes inv: "node_inv B SG t log r"
    and left: "h \<noteq> Lost \<Longrightarrow> h = Missed \<and> conforms B t log Missed 0 (disk SG (w_fs w') (db_badgerDir (rep_db r)))"
  shows "node_inv B SG t log (dead r w' h)"
proof (cases "h = Lost")
  case True
  with inv show ?thesis by (intro node_inv_lost dead_restorable) (simp_all add: node_inv_def)
next
  case False
  with left have h: "h = Missed" and c: "conforms B t log Missed 0 (disk SG (w_fs w') (db_badgerDir (rep_db r)))"
    by blast+
  then have "conforms B t log Missed (rep_pos r) (disk SG (w_fs w') (db_badgerDir (rep_db r)))"
    by (simp add: conforms_def)
  with h inv show ?thesis
    by (intro node_invI [where m = "disk SG (w_fs w') (db_badgerDir (rep_db r))"] dead_restorable past_inv_down)
      (simp_all add: node_inv_def serves_def)
qed

lemma kill_node:
  assumes D: "deps_ok B G S SG" and inv: "node_inv B SG t log r"
    and w': "\<And>q. under (db_badgerDir (rep_db r)) q \<Longrightarrow>
      w_fs w' q = killed S k (db_store (rep_db r)) (rep_world r) q"
  shows "node_inv B SG t log (dead r w' (if colocated (db_badgerOpts (rep_db r)) then miss (rep_health r) else Lost))"
proof (rule dead_node [OF inv])
  let ?dir = "db_badgerDir (rep_db r)"
  assume "(if colocated (db_badgerOpts (rep_db r)) then miss (rep_health r) else Lost) \<noteq> Lost"
  then have co: "colocated (db_badgerOpts (rep_db r))" and h: "rep_health r \<noteq> Lost" by (auto split: if_splits)
  from inv obtain m where lay: "restorable SG (rep_db r)" and m: "serves SG (rep_db r) (rep_world r) m"
    and ok: "conforms B t log (rep_health r) (rep_pos r) m" and past: "past_inv B SG t log r"
    by (auto simp: node_inv_def)
  have "conforms B t log Missed 0 (disk SG (w_fs w') ?dir)"
  proof (cases "db_store (rep_db r)")
    case None
    with w' [of ?dir] have "disk SG (w_fs w') ?dir = m" using m by (simp add: serves_def disk_def killed_def)
    with conforms_missed [OF h ok] show ?thesis by simp
  next
    case (Some b)
    with lay have "g_opts SG b = db_badgerOpts (rep_db r)" "opt_Dir (db_badgerOpts (rep_db r)) = ?dir"
      by (simp_all add: restorable_def)
    with deps_okD(6) [OF D] co have "disk SG (s_Kill S k b (w_fs (rep_world r))) ?dir \<in> g_past SG b"
      by (metis killD(2))
    moreover have "disk SG (w_fs w') ?dir = disk SG (s_Kill S k b (w_fs (rep_world r))) ?dir"
      using w' [of ?dir] Some by (simp add: disk_def killed_def)
    ultimately show ?thesis using past Some h co by (simp add: past_inv_def)
  qed
  moreover have "miss (rep_health r) = Missed" using h by (cases "rep_health r") simp_all
  ultimately show "(if colocated (db_badgerOpts (rep_db r)) then miss (rep_health r) else Lost) = Missed \<and>
      conforms B t log Missed 0 (disk SG (w_fs w') ?dir)" using co by simp
qed

lemma kill_in_swap_node:
  assumes D: "deps_ok B G S SG" and inv: "node_inv B SG t log r" and sn: "snap_inv B SG t log sn"
    and layout: "\<not> in_place (rep_db r)"
    and stage: "restore_stage S F (db_badgerOpts (rep_db r)) (stagingDir_of (db_badgerDir (rep_db r))) (rep_world r)
      (sn_stream sn) = (w1, None)"
    and at: "(g, h, w') \<in> set (swap_moments S F (db_badgerDir (rep_db r)) (stagingDir_of (db_badgerDir (rep_db r)))
      (backupDir_of (db_badgerDir (rep_db r))) (rep_db r, w1))"
  shows "node_inv B SG t log (dead r (w'\<lparr>w_fs := killed S k h w'\<rparr>) (miss (left_by g (rep_health r) (sn_health sn))))"
proof (rule dead_node [OF inv])
  let ?lv = "db_badgerDir (rep_db r)" and ?h = "left_by g (rep_health r) (sn_health sn)"
  note ok = deps_okD(2) [OF D] and kill = deps_okD(6) [OF D]
  assume alive: "miss ?h \<noteq> Lost"
  then have miss: "miss ?h = Missed" by (cases ?h) simp_all
  from inv obtain m where lay: "restorable SG (rep_db r)" and m: "serves SG (rep_db r) (rep_world r) m"
    and c: "conforms B t log (rep_health r) (rep_pos r) m" and past: "past_inv B SG t log r"
    by (auto simp: node_inv_def)
  have wf: "staged_layout SG (rep_db r)"
    using lay layout by (intro restorable_layout) (auto simp: restorable_def)
  have new: "conforms B t log (sn_health sn) (sn_label sn) (g_stream SG (sn_stream sn))" using sn by (simp add: snap_inv_def)
  have m1: "serves SG (rep_db r) w1 m" using serves_confined [OF restore_stage_confined [OF ok stage], of "rep_db r" SG m] m by simp
  obtain w0 y where r0: "os_RemoveAll F (backupDir_of ?lv) w1 = (w0, y)" by fastforce
  from killed_moment(1) [OF ok kill wf m1 refl at r0, of k] restore_stage_success(1) [OF ok stage]
  consider "holds m (g_stream SG (sn_stream sn)) g (disk SG (killed S k h w') ?lv)"
    | b where "g = Old" "db_store (rep_db r) = Some b" "disk SG (killed S k h w') ?lv \<in> g_past SG b" by auto
  then have "conforms B t log Missed 0 (disk SG (killed S k h w') ?lv)"
  proof cases
    case 1
    from left_by_missed [OF c new this, of 0] miss show ?thesis by simp
  next
    case 2
    with alive past staged_layoutD(2) [OF wf] show ?thesis by (auto simp: past_inv_def)
  qed
  with miss show "miss ?h = Missed \<and> conforms B t log Missed 0 (disk SG (w_fs (w'\<lparr>w_fs := killed S k h w'\<rparr>)) ?lv)"
    by simp
qed

lemma cluster_step_inv:
  assumes D: "deps_ok B G S SG" and inv: "cluster_inv B SG C" and step: "cluster_step B S R F C C'"
  shows "cluster_inv B SG C'"
  using step
proof cases
  case (commit l)
  with inv show ?thesis by (simp add: cluster_inv_commit)
next
  case (deliver r n l db' resp)
  have "node_inv B SG (cl_clock C) (cl_log C) r" using inv deliver(2) by (simp add: cluster_inv_def)
  from deliver_node [OF D this deliver(3-5)] inv deliver(1,2) show ?thesis
    by (auto intro: cluster_inv_forward)
next
  case (take_snapshot n snap)
  with inv show ?thesis by (auto simp: cluster_inv_def)
next
  case (persist r n i now snap ce cl s)
  let ?t = "max (cl_clock C) now"
  from persist inv have "node_inv B SG (cl_clock C) (cl_log C) r" "i \<le> rep_pos r" by (auto simp: cluster_inv_def)
  from persist_snap [OF D this persist(4)] cluster_inv_later [OF _ inv, of ?t] persist(1) show ?thesis
    by (auto simp: cluster_inv_def)
next
  case (install r n sn db' w')
  with inv have "node_inv B SG (cl_clock C) (cl_log C) r" "snap_inv B SG (cl_clock C) (cl_log C) sn"
    by (auto simp: cluster_inv_def)
  from install_node [OF D this install(6)] inv install(1,2,4) show ?thesis by (auto intro: cluster_inv_forward)
next
  case (install_failed r n sn db' w' e)
  with inv have "node_inv B SG (cl_clock C) (cl_log C) r" by (auto simp: cluster_inv_def)
  from install_failed_node [OF D this install_failed(5), of "sn_health sn"] inv install_failed(1,2) show ?thesis
    by (auto intro: cluster_inv_forward)
next
  case (stop r n db' w' es res)
  with inv have "node_inv B SG (cl_clock C) (cl_log C) r" by (auto simp: cluster_inv_def)
  from stop_node [OF D this stop(3,4)] inv stop(1,2) show ?thesis by (auto intro: cluster_inv_forward)
next
  case (start r n w' b nil)
  with inv have "node_inv B SG (cl_clock C) (cl_log C) r" by (auto simp: cluster_inv_def)
  from start_node_inv [OF D this start(4,5)] show ?thesis
    unfolding start(1) by (rule cluster_inv_set_node [OF inv]) auto
next
  case (kill r n w' k)
  with inv have "node_inv B SG (cl_clock C) (cl_log C) r" by (auto simp: cluster_inv_def)
  from kill_node [OF D this kill(3)] inv kill(1,2) show ?thesis by (auto intro: cluster_inv_forward)
next
  case (kill_in_swap r n sn w1 g h w' k)
  with inv have "node_inv B SG (cl_clock C) (cl_log C) r" "snap_inv B SG (cl_clock C) (cl_log C) sn" by (auto simp: cluster_inv_def)
  from kill_in_swap_node [OF D this kill_in_swap(4-6), of k] show ?thesis
    unfolding kill_in_swap(1) by (rule cluster_inv_forward [OF inv]) (simp add: kill_in_swap(2))
next
  case (kill_otherwise n w')
  with inv have "node_inv B SG (cl_clock C) (cl_log C) (cl_node C n)" by (auto simp: cluster_inv_def)
  from dead_node [OF this, of Lost w'] inv kill_otherwise show ?thesis by (auto intro: cluster_inv_forward)
qed

theorem cluster_reach_inv:
  assumes "deps_ok B G S SG" and "cluster_inv B SG C0" and "cluster_reach B S R F C0 C"
  shows "cluster_inv B SG C"
  using assms(3,2) by induction (auto intro: cluster_step_inv [OF assms(1)])

lemma new_cluster_inv: "new_cluster SG C \<Longrightarrow> cluster_inv B SG C"
proof -
  assume new: "new_cluster SG C"
  moreover have "conforms B (cl_clock C) [] h 0 Map.empty" for h
    by (cases h) (simp_all add: conforms_def shows_since_def)
  ultimately have "node_inv B SG (cl_clock C) [] (cl_node C n)" for n
    by (intro node_invI [where m = Map.empty] past_inv_fresh [where m = Map.empty and i = 0])
      (auto simp: new_cluster_def Let_def)
  with new show "cluster_inv B SG C" by (simp add: new_cluster_def cluster_inv_def)
qed

text \<open>What a synced node serves of a key that no entry beyond its position writes.\<close>

lemma synced_settled:
  assumes "deps_ok B G S SG" and "new_cluster SG C0" and "cluster_reach B S R F C0 C"
    and "rep_health (cl_node C n) = Synced"
  obtains m where "serves SG (rep_db (cl_node C n)) (rep_world (cl_node C n)) m"
    and "\<forall>k. (\<forall>l \<in> set (drop (rep_pos (cl_node C n)) (cl_log C)). entry_effect B l k = None) \<longrightarrow>
      seen_same (cl_clock C) (m k) (log_map B (cl_log C) k)"
proof -
  have "node_inv B SG (cl_clock C) (cl_log C) (cl_node C n)"
    using cluster_reach_inv [OF assms(1) new_cluster_inv [OF assms(2)] assms(3)]
    by (simp add: cluster_inv_def)
  then obtain m where "serves SG (rep_db (cl_node C n)) (rep_world (cl_node C n)) m"
    and "shows_since (entry_step B) (seen_same (cl_clock C)) (cl_log C) Map.empty (rep_pos (cl_node C n)) m"
    using assms(4) by (auto simp: node_inv_def conforms_def)
  moreover from this(2) have "converges (entry_step B) (seen_same (cl_clock C)) (cl_log C) Map.empty (rep_pos (cl_node C n)) m"
    by (rule ents.since_converges [of "seen_same (cl_clock C)", OF seen_same_refl])
  ultimately show ?thesis
    by (intro that) (auto simp: log_map_def intro: ents.converges_settled [of B "seen_same (cl_clock C)"])
qed

end
