(* ===== verification/Crash.thy ===== *)
theory Crash
  imports Restore_Props Replication
begin

text \<open>
  Restores that fail or are interrupted. What a staged restore leaves is one of a few
  generations, whatever calls fail (\<open>restore_generation\<close>); and a kill at any moment of its swap,
  or of the rollback of a swap that failed (\<open>swap_moments\<close>), leaves the generation of that
  moment. That a cluster survives both is part of \<open>Replication\<close>.
\<close>

section \<open>However a restore ends\<close>

text \<open>
  C8: a restore is over in one of four ways. Whatever file-system calls fail, and whether or
  not Badger opens, the generation that the calls determine is in service, or in the live
  directory of a node whose store is nil: the old data, also after every failure while staging;
  the snapshot, exactly if the restore returns nil; or nothing at all, which needs a failed
  rename in the rollback. It is unclear only if the live directory could not be removed or the
  old store did not close cleanly. A restore that fails leaves the applied index alone.
\<close>

theorem restore_outcome:
  assumes ok: "storage_ok S G" and wf: "staged_layout G db" and m: "serves G db w m"
    and run: "fsm_Restore S F (db, w) rc = ((db', w'), r)"
    and gen: "restore_generation S F (db, w) rc = g"
  shows "(r = None \<longleftrightarrow> g = New) \<and> (\<exists>m'. serves G db' w' m' \<and> holds m (g_stream G rc) g m') \<and>
     (g = Gone \<longrightarrow> (\<exists>n. F n (Rename (backupDir_of (db_badgerDir db)) (db_badgerDir db)) \<noteq> None)) \<and>
     (g = Unclear \<longrightarrow> (\<exists>n. F n (RemoveAll (db_badgerDir db)) \<noteq> None) \<or>
        (\<exists>b fs. db_store db = Some b \<and> snd (s_Close S b fs) \<noteq> None)) \<and>
     (r \<noteq> None \<longrightarrow> db_appliedIndex db' = db_appliedIndex db)"
proof (intro conjI)
  let ?lv = "db_badgerDir db"
  note L = staged_layoutD [OF wf]
  note R = restore_serves [OF ok wf m run, unfolded gen]
  show "r = None \<longleftrightarrow> g = New" by (rule R(2))
  show "\<exists>m'. serves G db' w' m' \<and> holds m (g_stream G rc) g m'" by (rule R(1))
  show "r \<noteq> None \<longrightarrow> db_appliedIndex db' = db_appliedIndex db" using fsm_Restore_frame(7) [OF run] by simp
  obtain w1 failed where stage: "restore_stage S F (db_badgerOpts db) (stagingDir_of ?lv) w rc = (w1, failed)" by fastforce
  let ?g = "swap_generation S F ?lv (stagingDir_of ?lv) (backupDir_of ?lv) (db, w1)"
  have gs: "g = ?g" if "g = Gone \<or> g = Unclear"
    using that gen stage L(4) by (auto simp: restore_generation_def Let_def split: option.splits)
  have conf: "confined ?lv u u'" if "badger_Open S (db_badgerOpts db) u = (u', x)" for u u' x
    using Open_confined [OF ok that L(2)] L(1) by simp
  show "g = Gone \<longrightarrow> (\<exists>n. F n (Rename (backupDir_of ?lv) ?lv) \<noteq> None)"
  proof
    assume "g = Gone"
    with gs have "?g = Gone" by simp
    from swap_gone [OF _ _ _ conf this] show "\<exists>n. F n (Rename (backupDir_of ?lv) ?lv) \<noteq> None" by simp
  qed
  show "g = Unclear \<longrightarrow> (\<exists>n. F n (RemoveAll ?lv) \<noteq> None) \<or>
      (\<exists>b fs. db_store db = Some b \<and> snd (s_Close S b fs) \<noteq> None)"
  proof
    assume "g = Unclear"
    with gs obtain h v where
      "(Unclear, h, v) \<in> set (swap_moments S F ?lv (stagingDir_of ?lv) (backupDir_of ?lv) (db, w1))"
      unfolding swap_generation_def by (metis last_in_set list.distinct(1) prod.collapse swap_moments_tl(1))
    from swap_unclear [OF this] show "(\<exists>n. F n (RemoveAll ?lv) \<noteq> None) \<or>
      (\<exists>b fs. db_store db = Some b \<and> snd (s_Close S b fs) \<noteq> None)"
      by (rule disjE) (blast dest: close_failed_unclean)+
  qed
qed

theorem restore_outcome_example:
  "let F = fails (\<lambda>c. c = Rename ''/d/badger.restore-tmp'' ''/d/badger'');
       r = fsm_Restore ref_storage F (sample_node old_store sample_leader, sample_world) new_store
   in snd r \<noteq> None \<and> serves ref_storage_ghost (fst (fst r)) (snd (fst r)) (map_of old_store)"
proof -
  let ?F = "fails (\<lambda>c. c = Rename ''/d/badger.restore-tmp'' ''/d/badger'')"
  let ?db = "sample_node old_store sample_leader"
  let ?r = "fsm_Restore ref_storage ?F (?db, sample_world) new_store"
  have run: "?r = ((fst (fst ?r), snd (fst ?r)), snd ?r)" by simp
  have m: "serves ref_storage_ghost ?db sample_world (map_of old_store)"
    by (simp add: serves_def ref_storage_ghost_def)
  obtain g where g: "restore_generation ref_storage ?F (?db, sample_world) new_store = g" by simp
  have "snd ?r \<noteq> None" by (simp add: restore_eval report_def restoreErr_def)
  moreover from restore_outcome [OF ref_storage_ok sample_layout m run g] this
  have "serves ref_storage_ghost (fst (fst ?r)) (snd (fst ?r)) (map_of old_store)"
    by (cases g) (auto simp: fails_def ref_storage_def backupDir_of_def)
  ultimately show ?thesis by (simp add: Let_def)
qed

section \<open>However a restore is interrupted\<close>

lemma reopened_layout:
  assumes "storage_ok S G" and "staged_layout G db" and "open_badger S F (db_badgerOpts db) w = (w', Inr b)"
  shows "staged_layout G (new_db cfg (db_badgerOpts db) nil b)"
  using open_badger_contents(1) [OF assms(1,3)] staged_layoutD [OF assms(2)]
  by (simp add: staged_layout_def new_db_def)

text \<open>
  C10: a crash in the middle of a swap. The process dies at any moment of the swap or of its
  rollback. The next start then serves the old data (an earlier state of it, if the old store
  was still open), or the snapshot; or nothing at all, between the two renames and after a
  rollback whose rename failed, and then the old data is in the backup directory if the store had
  closed cleanly. It is unclear only after a failed removal or an unclean close. In
  all cases a restore that then returns nil, such as the one with which Raft recovers its
  snapshot at startup, leaves exactly its snapshot.
\<close>

theorem crash_during_swap:
  assumes ok: "storage_ok S G" "kill_ok S G" and wf: "staged_layout G db" and m: "serves G db w m"
    and stage: "restore_stage S F (db_badgerOpts db) (stagingDir_of (db_badgerDir db)) w rc = (w1, None)"
    and at: "(g, h, v) \<in> set (swap_moments S F (db_badgerDir db) (stagingDir_of (db_badgerDir db))
                (backupDir_of (db_badgerDir db)) (db, w1))"
    and dies: "w' = v\<lparr>w_fs := killed S k h v\<rparr>"
    and start: "open_badger S F' (db_badgerOpts db) w' = (w2, Inr b')"
  shows "(case g of
        Old \<Rightarrow> g_contents G b' = m \<or> (\<exists>b. db_store db = Some b \<and> g_contents G b' \<in> g_past G b)
      | New \<Rightarrow> g_contents G b' = g_stream G rc
      | Gone \<Rightarrow> g_contents G b' = Map.empty \<and>
          (disk G (w_fs w') (backupDir_of (db_badgerDir db)) = m \<or>
           (\<exists>b fs. db_store db = Some b \<and> snd (s_Close S b fs) \<noteq> None))
      | Unclear \<Rightarrow> (\<exists>n. F n (RemoveAll (db_badgerDir db)) \<noteq> None) \<or>
          (\<exists>b fs. db_store db = Some b \<and> snd (s_Close S b fs) \<noteq> None)) \<and>
     (\<forall>F'' rc' db3 w3.
        fsm_Restore S F'' (new_db (db_cfg db) (db_badgerOpts db) nil b', w2) rc' = ((db3, w3), None) \<longrightarrow>
        (\<exists>b3. db_store db3 = Some b3 \<and> g_contents G b3 = g_stream G rc'))"
proof (intro conjI allI impI)
  let ?lv = "db_badgerDir db"
  note L = staged_layoutD [OF wf]
  have m1: "serves G db w1 m" using serves_confined [OF restore_stage_confined [OF ok(1) stage], of db G m] m by simp
  obtain w0 y where r0: "os_RemoveAll F (backupDir_of ?lv) w1 = (w0, y)" by fastforce
  note K = killed_moment [OF ok wf m1 refl at r0, where k = k] and new = restore_stage_success(1) [OF ok(1) stage]
  have b': "g_contents G b' = disk G (killed S k h v) ?lv"
    using open_badger_contents(2) [OF ok(1) start] L dies by simp
  show "case g of
        Old \<Rightarrow> g_contents G b' = m \<or> (\<exists>b. db_store db = Some b \<and> g_contents G b' \<in> g_past G b)
      | New \<Rightarrow> g_contents G b' = g_stream G rc
      | Gone \<Rightarrow> g_contents G b' = Map.empty \<and> (disk G (w_fs w') (backupDir_of ?lv) = m \<or>
           (\<exists>b fs. db_store db = Some b \<and> snd (s_Close S b fs) \<noteq> None))
      | Unclear \<Rightarrow> (\<exists>n. F n (RemoveAll ?lv) \<noteq> None) \<or>
          (\<exists>b fs. db_store db = Some b \<and> snd (s_Close S b fs) \<noteq> None)"
  proof (cases g)
    case Gone
    with K b' new dies close_failed_unclean [of S db w0] show ?thesis by auto
  next
    case Unclear
    from swap_unclear [OF at [unfolded Unclear]] Unclear show ?thesis by (auto dest: close_failed_unclean)
  qed (use K(1) b' new in auto)
  fix F'' rc' db3 w3
  assume "fsm_Restore S F'' (new_db (db_cfg db) (db_badgerOpts db) nil b', w2) rc' = ((db3, w3), None)"
  from restore_staged_success(1) [OF ok(1) reopened_layout [OF ok(1) wf start] this]
  show "\<exists>b3. db_store db3 = Some b3 \<and> g_contents G b3 = g_stream G rc'" .
qed

text \<open>Between the two renames: the next start serves nothing, the old data is in the backup.\<close>

theorem crash_during_swap_example:
  "\<exists>w1 v w2 b'.
     restore_stage ref_storage no_faults sample_options (stagingDir_of ''/d/badger'') sample_world new_store =
       (w1, None) \<and>
     (Gone, None, v) \<in> set (swap_moments ref_storage no_faults ''/d/badger'' (stagingDir_of ''/d/badger'')
       (backupDir_of ''/d/badger'') (sample_node old_store sample_leader, w1)) \<and>
     open_badger ref_storage no_faults sample_options v = (w2, Inr b') \<and>
     g_contents ref_storage_ghost b' = Map.empty \<and>
     disk ref_storage_ghost (w_fs v) (backupDir_of ''/d/badger'') = map_of old_store"
proof -
  let ?db = "sample_node old_store sample_leader" and ?lv = "''/d/badger''"
  let ?st = "restore_stage ref_storage no_faults sample_options (stagingDir_of ?lv) sample_world new_store"
  let ?ms = "\<lambda>w. swap_moments ref_storage no_faults ?lv (stagingDir_of ?lv) (backupDir_of ?lv) (?db, w)"
  have "snd ?st = None" by (simp add: restore_eval)
  then obtain w1 where st: "?st = (w1, None)" by (metis prod.collapse)
  have fst: "w1 = fst ?st" using st by simp
  have "\<exists>v. (Gone, None, v) \<in> set (?ms w1)"
    unfolding fst by (simp add: restore_eval swap_moments_def close_failed_def)
  then obtain v where at: "(Gone, None, v) \<in> set (?ms w1)" by blast
  obtain w2 b' where op: "open_badger ref_storage no_faults sample_options v = (w2, Inr b')"
    by (simp add: open_badger_def os_MkdirAll_def no_faults_def badger_Open_def ref_storage_def ref_Open_def Let_def)
  have m: "serves ref_storage_ghost ?db sample_world (map_of old_store)"
    by (simp add: serves_def ref_storage_ghost_def)
  have v: "v = v\<lparr>w_fs := killed ref_storage 0 None v\<rparr>" by (simp add: killed_def)
  have c: "snd (s_Close ref_storage b fs) = None" for b fs by (simp add: ref_storage_def)
  from crash_during_swap [OF ref_storage_ok ref_kill_ok sample_layout m, of no_faults new_store w1 Gone None v v 0
      no_faults w2 b' sample_leader] st at v op c
  have "g_contents ref_storage_ghost b' = Map.empty \<and> disk ref_storage_ghost (w_fs v) (backupDir_of ?lv) = map_of old_store"
    by simp
  with st at op show ?thesis by blast
qed

end
