(* ===== verification/Write_Props.thy ===== *)
theory Write_Props
  imports Samples
begin

text \<open>
  The properties of the write path: what \<open>Apply\<close> does to the key-value map and to the
  applied index, the command format, redelivery, what a successful write, delete or batch
  leaves, how long a TTL lasts, and what is refused.
\<close>

section \<open>Apply\<close>

text \<open>
  C4: a committed entry is applied all or nothing. When \<open>Apply\<close> answers nil, the entry
  decoded, the map went through exactly that command's sets and then deletes, and the
  applied index is the entry's; otherwise the map and the applied index are unchanged.
\<close>

theorem apply_refines_command:
  assumes "update_ok B G" and "fsm_Apply B db l = (db', r)"
  shows "case r of
      None \<Rightarrow> \<exists>c m. decodeCommand (log_Data l) = Inr c \<and> node_contents G db = Some m \<and>
        node_contents G db' = Some (apply_command c m) \<and> db_appliedIndex db' = log_Index l
    | Some e \<Rightarrow> node_contents G db' = node_contents G db \<and> db_appliedIndex db' = db_appliedIndex db"
proof (cases r)
  case None
  with assms(2) fsm_Apply_success [OF assms(1)] obtain c where
    "decodeCommand (log_Data l) = Inr c" "db_store db \<noteq> None"
    "node_contents G db' = map_option (apply_command c) (node_contents G db)" by metis
  with None fsm_Apply_appliedIndex [OF assms(2)] show ?thesis
    by (auto simp: node_contents_def)
next
  case (Some e)
  with assms fsm_Apply_error [OF assms(1)] fsm_Apply_appliedIndex [OF assms(2)] show ?thesis by simp
qed

theorem apply_refines_command_example:
  "\<exists>c m. decodeCommand (log_Data (sample_log 7 (set_command key_k val_v 0))) = Inr c \<and>
     node_contents ref_ghost (sample_node [] sample_leader) = Some m \<and>
     node_contents ref_ghost ((sample_node [] sample_leader)
       \<lparr>db_store := Some (sample_options, [(key_k, val_v, 0)]), db_appliedIndex := 7\<rparr>) =
     Some (apply_command c m) \<and> (7 :: uint64) = log_Index (sample_log 7 (set_command key_k val_v 0))"
  using apply_refines_command [OF ref_update_ok,
      of "sample_node [] sample_leader" "sample_log 7 (set_command key_k val_v 0)", OF Apply_set]
  by simp

text \<open>
  Over a run of entries the applied index ends at the last entry whose response was
  nil, failed ones before or after it notwithstanding, and stays where it was when there is
  none.
\<close>

theorem applied_index_of_run:
  assumes "fsm_run B db ls = (db', rs)"
  shows "db_appliedIndex db' =
    (case find (\<lambda>(l, r). r = None) (rev (zip ls rs)) of
       None \<Rightarrow> db_appliedIndex db | Some (l, r) \<Rightarrow> log_Index l)"
  using assms
proof (induction ls arbitrary: db rs)
  case (Cons l ls)
  then obtain db1 r rs' where one: "fsm_Apply B db l = (db1, r)"
    and more: "fsm_run B db1 ls = (db', rs')" and rs: "rs = r # rs'"
    by (auto split: prod.splits)
  from Cons.IH [OF more] fsm_Apply_appliedIndex [OF one] show ?case
    by (auto simp: rs find_append split: option.splits)
qed simp

theorem applied_index_of_run_example:
  "fsm_run ref_badger (sample_node [] sample_leader)
     [sample_log 4 (set_command key_k val_v 0), \<lparr>log_Index = 5, log_Data = []\<rparr>] =
   (log_fsm ((sample_node [] sample_leader)
      \<lparr>db_store := Some (sample_options, [(key_k, val_v, 0)]), db_appliedIndex := 4\<rparr>)
      (decode_error \<lparr>log_Index = 5, log_Data = []\<rparr> (Sentinel IO_EOF)),
    [None, Some (decode_error \<lparr>log_Index = 5, log_Data = []\<rparr> (Sentinel IO_EOF))]) \<and>
   db_appliedIndex (log_fsm ((sample_node [] sample_leader)
      \<lparr>db_store := Some (sample_options, [(key_k, val_v, 0)]), db_appliedIndex := 4\<rparr>)
      (decode_error \<lparr>log_Index = 5, log_Data = []\<rparr> (Sentinel IO_EOF))) = 4"
proof -
  let ?fin = "log_fsm ((sample_node [] sample_leader)
      \<lparr>db_store := Some (sample_options, [(key_k, val_v, 0)]), db_appliedIndex := 4\<rparr>)
      (decode_error \<lparr>log_Index = 5, log_Data = []\<rparr> (Sentinel IO_EOF))"
  have "decodeCommand [] = Inl (Sentinel IO_EOF)"
    by (simp add: decodeCommand_def dec_stream.simps read_message_def dec_uint_def)
  then have run: "fsm_run ref_badger (sample_node [] sample_leader)
     [sample_log 4 (set_command key_k val_v 0), \<lparr>log_Index = 5, log_Data = []\<rparr>] =
   (?fin, [None, Some (decode_error \<lparr>log_Index = 5, log_Data = []\<rparr> (Sentinel IO_EOF))])"
    by (simp add: fsm_Apply_def [of _ _ "\<lparr>log_Index = 5, log_Data = []\<rparr>"] Let_def)
  with applied_index_of_run [OF run] show ?thesis by simp
qed

text \<open>
  C36: while a node is up but its store is gone (a failed restore left the pointer nil),
  every decodable entry is answered with an error that is \<open>ErrClosed\<close>, and nothing is
  logged: the entry is lost on this node without a trace, although the comment on \<open>Apply\<close>
  says that failures are logged so that a diverging node does not go unnoticed.
\<close>

theorem apply_without_store_is_silent:
  assumes "\<not> db_closed db" and "db_store db = None" and "decodeCommand (log_Data l) = Inr c"
  shows "\<exists>e. fsm_Apply B db l = (db, Some e) \<and> errors_is e ErrClosed"
  using assms by (simp add: fsm_Apply_def withStore_unavailable Let_def)

theorem apply_without_store_is_silent_example:
  "\<exists>e. fsm_Apply ref_badger ((sample_node [] sample_leader)\<lparr>db_store := None\<rparr>)
        (sample_log 9 (set_command key_k val_v 0)) =
      ((sample_node [] sample_leader)\<lparr>db_store := None\<rparr>, Some e) \<and> errors_is e ErrClosed"
  by (rule apply_without_store_is_silent) simp_all

section \<open>The command format\<close>

text \<open>
  C24: what the leader encoded, every node decodes to the same command: the gob stream of a
  command of admissible size round-trips, whatever type numbers the sender registered.
\<close>

theorem command_roundtrip:
  assumes "wf_registry reg" and "command_fits cmd" and "encodeCommand reg cmd = Inr data"
  shows "decodeCommand data = Inr cmd"
  using assms by (intro gob.dec_enc [of reg]) simp_all

theorem command_roundtrip_example:
  "decodeCommand (encoded (set_command key_k val_v 61)) = Inr (set_command key_k val_v 61)"
proof -
  have "encodable (set_command key_k val_v 61)" by simp
  then show ?thesis
    using command_roundtrip [OF wf_sample_registry _ encodable_encode] by (simp add: encodable_def)
qed

section \<open>Redelivery\<close>

lemma fsm_run_all_ok:
  assumes "update_ok B G" and "fsm_run B db ls = (db', rs)" and "\<forall>r \<in> set rs. r = None"
    and "node_contents G db = Some m" and "map (\<lambda>l. decodeCommand (log_Data l)) ls = map Inr cs"
  shows "node_contents G db' = Some (fold apply_command cs m)"
  using fsm_run_contents [OF assms(1,2)] effective_all [OF length_fsm_run [OF assms(2)] assms(3,5)] assms(4)
  by simp

text \<open>In a run without failures every entry decoded.\<close>

lemma fsm_run_decodes:
  "fsm_run B db ls = (db', rs) \<Longrightarrow> \<forall>r \<in> set rs. r = None \<Longrightarrow>
     \<exists>cs. map (\<lambda>l. decodeCommand (log_Data l)) ls = map Inr cs"
proof (induction ls arbitrary: db rs)
  case (Cons l ls)
  then obtain db1 r rs' where one: "fsm_Apply B db l = (db1, r)"
    and more: "fsm_run B db1 ls = (db', rs')" and rs: "rs = r # rs'"
    by (auto split: prod.splits)
  from one Cons.prems(2) rs obtain c where "decodeCommand (log_Data l) = Inr c"
    by (auto simp: fsm_Apply_def Let_def split: sum.splits)
  moreover from Cons.IH [OF more] Cons.prems(2) rs obtain cs where
    "map (\<lambda>l. decodeCommand (log_Data l)) ls = map Inr cs" by auto
  ultimately show ?case by (intro exI [of _ "c # cs"]) simp
qed simp

text \<open>
  C23: delivering entries again does no harm. A node that has run \<open>xs @ ys\<close> and is then
  handed \<open>ys @ zs\<close> (a restart replays the log from the last snapshot over a database that
  already contains a part of it) ends with the same map as one that ran \<open>xs @ ys @ zs\<close> once.
\<close>

theorem redelivery_harmless:
  assumes "update_ok B G" and "node_contents G db = Some m"
    and "fsm_run B db (xs @ ys) = (db1, rs1)" and "fsm_run B db1 (ys @ zs) = (db2, rs2)"
    and "fsm_run B db (xs @ ys @ zs) = (db3, rs3)" and "\<forall>r \<in> set (rs1 @ rs2 @ rs3). r = None"
  shows "node_contents G db2 = node_contents G db3"
proof -
  from assms(6) have ok: "\<forall>r \<in> set rs1. r = None" "\<forall>r \<in> set rs2. r = None" "\<forall>r \<in> set rs3. r = None"
    by auto
  from fsm_run_decodes [OF assms(5) ok(3)] obtain cx cy cz where
    x: "map (\<lambda>l. decodeCommand (log_Data l)) xs = map Inr cx"
    and y: "map (\<lambda>l. decodeCommand (log_Data l)) ys = map Inr cy"
    and z: "map (\<lambda>l. decodeCommand (log_Data l)) zs = map Inr cz"
    by (fastforce simp: append_eq_map_conv)
  have "node_contents G db1 = Some (fold apply_command (cx @ cy) m)"
    by (rule fsm_run_all_ok [OF assms(1,3) ok(1) assms(2)]) (simp add: x y)
  then have "node_contents G db2 = Some (fold apply_command (cy @ cz) (fold apply_command (cx @ cy) m))"
    by (rule fsm_run_all_ok [OF assms(1,4) ok(2)]) (simp add: y z)
  moreover have "node_contents G db3 = Some (fold apply_command (cx @ cy @ cz) m)"
    by (rule fsm_run_all_ok [OF assms(1,5) ok(3) assms(2)]) (simp add: x y z)
  ultimately show ?thesis by (simp only: cmds.replay_overlap)
qed

theorem redelivery_harmless_example:
  "node_contents ref_ghost (fst (fsm_run ref_badger (fst (fsm_run ref_badger (sample_node [] sample_leader)
       ([sample_log 1 (set_command key_k val_w 0)] @ [sample_log 2 (set_command key_k val_v 0)])))
       ([sample_log 2 (set_command key_k val_v 0)] @ [sample_log 3 (delete_command key_k)]))) =
   node_contents ref_ghost (fst (fsm_run ref_badger (sample_node [] sample_leader)
       ([sample_log 1 (set_command key_k val_w 0)] @ [sample_log 2 (set_command key_k val_v 0)] @
        [sample_log 3 (delete_command key_k)])))"
  by (rule redelivery_harmless [OF ref_update_ok, where db = "sample_node [] sample_leader" and m = Map.empty,
      OF _ prod.collapse [symmetric] prod.collapse [symmetric] prod.collapse [symmetric]])
    (simp_all add: node_contents_def ref_ghost_def)

section \<open>Single writes\<close>

lemma SetBytes_command:
  assumes "SetBytes B R reg now db key v opts = (db', None)"
  obtains x where "key \<noteq> []" and "resolveSetOptions now opts = Inr x"
    and "DB_apply B R reg db (set_command key v x) = (db', None)"
proof -
  have "valid_set key opts" using set_call.success_leads [OF assms] by simp
  then obtain x where "resolveSetOptions now opts = Inr x"
    and "SetBytes B R reg now db key v opts = DB_apply B R reg db (set_command key v x)"
    unfolding set_command_def by (rule SetBytes_valid [of key opts now B R reg db v])
  with assms \<open>valid_set key opts\<close> that show ?thesis by (auto simp: valid_set_def)
qed

lemma set_command_fits [simp]: "command_fits (set_command key v x)"
  by (simp add: command_fits_def set_command_def tooBig_def)

lemma SetBytes_success:
  assumes "update_ok B G" and "raft_apply_ok R" and "wf_registry reg"
    and run: "SetBytes B R reg now db key v opts = (db', None)"
  obtains x m cs where "resolveSetOptions now opts = Inr x" and "node_contents G db = Some m"
    and "node_contents G db' = Some ((fold apply_command cs m)(key \<mapsto> (v, x)))"
proof -
  obtain x where x: "resolveSetOptions now opts = Inr x"
    and eq: "DB_apply B R reg db (set_command key v x) = (db', None)" by (rule SetBytes_command [OF run])
  obtain cs where "db_store db \<noteq> None" and c: "node_contents G db' =
      map_option (apply_command (set_command key v x) \<circ> fold apply_command cs) (node_contents G db)"
    by (rule DB_apply_success [OF assms(1-3) set_command_fits eq])
  then obtain m where "node_contents G db = Some m" by (auto simp: node_contents_def)
  with c that [OF x, of m cs] show ?thesis
    by (simp add: apply_command_def apply_pairs_def apply_deletes_def set_command_def)
qed

text \<open>
  A \<open>Set\<close> that returns nil has been applied on the leader as the last of the entries
  delivered meanwhile: the key holds the value, with the expiry its options resolve to (none
  without a TTL), and every other key is what those other entries made of it.
\<close>

theorem set_is_applied:
  assumes "update_ok B G" and "raft_apply_ok R" and "wf_registry reg"
    and "SetBytes B R reg now db key v opts = (db', None)"
  shows "\<exists>x m cs. resolveSetOptions now opts = Inr x \<and> node_contents G db = Some m \<and>
     node_contents G db' = Some ((fold apply_command cs m)(key \<mapsto> (v, x)))"
  using SetBytes_success [OF assms] by metis

theorem set_is_applied_example:
  "\<exists>x m cs. resolveSetOptions 0 [] = Inr x \<and>
     node_contents ref_ghost (sample_node [] sample_leader) = Some m \<and>
     node_contents ref_ghost (after_set 0) = Some ((fold apply_command cs m)(key_k \<mapsto> (val_v, x)))"
  by (rule set_is_applied [OF ref_update_ok ref_raft_apply_ok wf_sample_registry SetBytes_sample])

text \<open>
  C16: a TTL never outlives its request and is cut short by less than a second. After a
  \<open>Set\<close> with \<open>WithTTL d\<close> at clock reading \<open>now\<close>, any node that holds the entry shows it at
  every clock reading up to a second before \<open>now + d\<close>, and never from \<open>now + d\<close> on.
\<close>

theorem ttl_bounds:
  assumes "update_ok B G" and "raft_apply_ok R" and "wf_registry reg"
    and "SetBytes B R reg now db key v [WithTTL d] = (db', None)"
    and "second \<le> now" and "unix_seconds (now + d) < 2 ^ 64"
  shows "\<exists>m. node_contents G db' = Some m \<and>
     (\<forall>t. t + second \<le> now + d \<longrightarrow> live t m key = Some v) \<and>
     (\<forall>t. now + d \<le> t \<longrightarrow> live t m key = None)"
proof -
  obtain x m cs where x: "resolveSetOptions now [WithTTL d] = Inr x"
    and m: "node_contents G db' = Some ((fold apply_command cs m)(key \<mapsto> (v, x)))"
    by (rule SetBytes_success [OF assms(1-4)])
  from x have d: "0 < d" and x: "x = absExpiry now d"
    by (auto simp: resolveSetOptions_WithTTL split: if_splits)
  from d assms(5,6) have u: "uint x = unix_seconds (now + d)"
    unfolding x by (intro uint_absExpiry) auto
  have "1 \<le> unix_seconds (now + d)"
    using unix_seconds_mono [of second "now + d"] d assms(5) by (simp add: unix_seconds_def)
  with u have nz: "x \<noteq> 0" by auto
  have "alive t x" if "t + second \<le> now + d" for t
  proof -
    have "unix_seconds t + 1 = unix_seconds (t + second)" by (simp add: unix_seconds_def)
    also have "\<dots> \<le> unix_seconds (now + d)" using that by (rule unix_seconds_mono)
    finally show ?thesis by (simp add: alive_def u)
  qed
  moreover have "\<not> alive t x" if "now + d \<le> t" for t
    using unix_seconds_mono [OF that] nz by (simp add: alive_def u)
  ultimately show ?thesis using m by (auto simp: live_def)
qed

theorem ttl_bounds_example:
  "\<exists>m. node_contents ref_ghost (after_set 61) = Some m \<and>
     (\<forall>t. t + second \<le> second + 60 * second \<longrightarrow> live t m key_k = Some val_v) \<and>
     (\<forall>t. second + 60 * second \<le> t \<longrightarrow> live t m key_k = None)"
  by (rule ttl_bounds [OF ref_update_ok ref_raft_apply_ok wf_sample_registry SetBytes_ttl_sample])
    (simp_all add: unix_seconds_def)

section \<open>Batches\<close>

text \<open>
  C15: a non-empty batch that returns nil was applied as a whole, and its effect is that of
  its mutations one after the other in the order given, although the command keeps sets and
  deletes apart and applies all sets first.
\<close>

theorem batch_is_sequential:
  assumes "update_ok B G" and "raft_apply_ok R" and "wf_registry reg"
    and "Batch B R reg clock db ms = (db', None)" and "ms \<noteq> []" and "length ms * 56 \<le> tooBig"
  shows "\<exists>m cs. node_contents G db = Some m \<and>
     node_contents G db' = Some (mutate_all clock 0 ms (fold apply_command cs m))"
proof -
  have o: "\<not> db_closed db"
    using assms(4) by (auto simp: Batch_def guard_simps)
  have "valid_batch ms" using Batch_invalid [OF o, of ms B R reg clock] assms(4) by auto
  then obtain cmd where c: "batch_command clock ms = Inr cmd"
    and eq: "Batch B R reg clock db ms = DB_apply B R reg db cmd"
    and seq: "\<And>s. apply_command cmd s = mutate_all clock 0 ms s"
    by (rule Batch_valid [OF o _ assms(5), of clock B R reg]) (rule that)
  have "length (cmd_Pairs cmd) + length (cmd_Deletes cmd) = length ms"
    using batch_loop_length [OF c [unfolded batch_command_def]] by simp
  with assms(6) have "command_fits cmd" by (simp add: command_fits_def)
  from DB_apply_success [OF assms(1-3) this assms(4) [unfolded eq]] obtain cs where
    "db_store db \<noteq> None" and "node_contents G db' =
      map_option (apply_command cmd \<circ> fold apply_command cs) (node_contents G db)" by metis
  then show ?thesis by (auto simp: node_contents_def seq)
qed

theorem batch_is_sequential_example:
  "\<exists>m cs. node_contents ref_ghost (sample_node [] sample_leader) = Some m \<and>
     node_contents ref_ghost (after_set 0) =
       Some (mutate_all (\<lambda>i. 0) 0 [SetBytesOp key_k val_v []] (fold apply_command cs m))"
proof (rule batch_is_sequential [OF ref_update_ok ref_raft_apply_ok wf_sample_registry])
  show "Batch ref_badger ref_raft sample_registry (\<lambda>i. 0) (sample_node [] sample_leader)
      [SetBytesOp key_k val_v []] = (after_set 0, None)"
    by (rule Batch_set_sample)
qed (simp_all add: tooBig_def)

text \<open>
  \<open>Batch\<close> accepts exactly the batches whose mutations all come from the constructors, with
  non-empty keys, valid options and no key twice; the command then writes each key once. Every
  refusal is an \<open>ErrInvalidArgument\<close>.
\<close>

theorem batch_accepts_valid:
  "(\<exists>cmd. batch_command clock ms = Inr cmd) = valid_batch ms \<and>
   (case batch_command clock ms of
      Inl e \<Rightarrow> errors_is e ErrInvalidArgument
    | Inr cmd \<Rightarrow> length (cmd_Pairs cmd) + length (cmd_Deletes cmd) = length ms)"
proof
  show "(\<exists>cmd. batch_command clock ms = Inr cmd) = valid_batch ms"
    by (simp add: batch_command_def batch_loop_Inr valid_batch_def)
  show "case batch_command clock ms of
      Inl e \<Rightarrow> errors_is e ErrInvalidArgument
    | Inr cmd \<Rightarrow> length (cmd_Pairs cmd) + length (cmd_Deletes cmd) = length ms"
    by (auto simp: batch_command_def dest: batch_loop_Inl batch_loop_length split: sum.split)
qed

section \<open>What is refused\<close>



end
