(* ===== verification/Read_Props.thy ===== *)
theory Read_Props
  imports Write_Props
begin

text \<open>
  The properties of the read path: point reads against the map, what a linearizable read has
  waited for, reading one's own write, prefix scans, and refused reads.
\<close>

section \<open>Point reads\<close>

text \<open>
  Once a read's mode has let it pass, it returns the value the map shows at the
  reader's clock, and \<open>ErrKeyNotFound\<close> only for a key the map does not show (absent, deleted
  or expired).
\<close>

theorem get_returns_visible:
  assumes "get_ok B G" and "foreign_errors B ErrKeyNotFound"
    and "prepareRead B R db ro = (db', None)" and "GetBytes B R now db key ro = (db'', r)" and "key \<noteq> []"
  shows "db'' = db' \<and>
    (case r of
       Inr x \<Rightarrow> \<exists>m. node_contents G db' = Some m \<and> live now m key = Some x
     | Inl e \<Rightarrow> \<forall>m. node_contents G db' = Some m \<longrightarrow> errors_is e ErrKeyNotFound \<longrightarrow> live now m key = None)"
proof -
  from assms(3-5) have r: "db'' = db'" "r = getBytes B now db' key"
    by (auto simp: GetBytes_def)
  show ?thesis
  proof (cases r)
    case (Inl e)
    with r(2) have "getBytes B now db' key = Inl e" by simp
    with getBytes_missing [OF assms(1,2) _ this] show ?thesis by (simp add: Inl r(1))
  next
    case (Inr x)
    with r obtain m where "node_contents G db' = Some m" "live now m key = Some x"
      by (metis getBytes_value [OF assms(1)])
    with Inr r show ?thesis by simp
  qed
qed

definition local_read :: ReadOptions where
  "local_read = \<lparr>ro_Mode = ReadLocal, ro_Timeout = 0\<rparr>"

lemma ref_foreign: "s \<noteq> Badger_ErrKeyNotFound \<Longrightarrow> foreign_errors ref_badger s"
  by (auto simp: foreign_errors_def ref_badger_def split: option.splits)

lemma ref_get_ok: "get_ok ref_badger ref_ghost" and ref_iter_ok: "iter_ok ref_badger ref_ghost"
  using ref_view_ok by (simp_all add: view_ok_def)

lemma local_read_passes [simp]: "\<not> db_closed db \<Longrightarrow> prepareRead B R db local_read = (db, None)"
  by (simp add: prepareRead_local local_read_def)

theorem get_returns_visible_example:
  "GetBytes ref_badger ref_raft 0 (after_set 61) key_k local_read = (after_set 61, Inr val_v) \<and>
   (\<exists>m. node_contents ref_ghost (after_set 61) = Some m \<and> live 0 m key_k = Some val_v)"
proof -
  have g: "GetBytes ref_badger ref_raft 0 (after_set 61) key_k local_read = (after_set 61, Inr val_v)"
    by (simp add: GetBytes_def getBytes_open ref_badger_def ref_view_at_live live_def alive_def unix_seconds_def)
  with get_returns_visible [OF ref_get_ok ref_foreign local_read_passes g] show ?thesis by simp
qed

section \<open>Linearizable reads\<close>

lemma node_contents_raft [simp]: "node_contents G (db\<lparr>db_raft := r\<rparr>) = node_contents G db"
  by (simp add: node_contents_def)

text \<open>
  A linearizable read that returns a value was made by an open leader, after a barrier
  that Raft confirmed, and shows the map after every entry delivered up to that barrier.
\<close>

theorem linearizable_read_after_barrier:
  assumes "update_ok B G" and "get_ok B G" and "ro_Mode ro = ReadLinearizable"
    and "GetBytes B R now db key ro = (db', Inr x)"
  shows "\<not> db_closed db \<and> r_State R (db_raft db) = RS_Leader \<and>
    (let out = r_Barrier R (db_raft db) (timeoutOr ro (adv_ApplyTimeout (cfg_Advanced (db_cfg db)))) in
     ro_err out = None \<and>
     (\<exists>m rs. node_contents G db = Some m \<and> length rs = length (ro_logs out) \<and>
        live now (fold apply_command (effective (ro_logs out) rs) m) key = Some x))"
proof -
  from assms(4) have p: "prepareRead B R db ro = (db', None)" and g: "getBytes B now db' key = Inr x"
    by (auto simp: GetBytes_def split: if_splits prod.splits option.splits)
  let ?out = "r_Barrier R (db_raft db) (timeoutOr ro (adv_ApplyTimeout (cfg_Advanced (db_cfg db))))"
  from prepareRead_linearizable [OF p assms(3)] have o: "\<not> db_closed db" "r_State R (db_raft db) = RS_Leader"
    and bar: "Barrier B R db (timeoutOr ro (adv_ApplyTimeout (cfg_Advanced (db_cfg db)))) = (db', None)"
    by blast+
  obtain rs where run: "fsm_run B (db\<lparr>db_raft := ro_raft ?out\<rparr>) (ro_logs ?out) = (db', rs)"
    and err: "None = map_option (raft_err R db') (ro_err ?out)"
    by (rule Barrier_run [OF bar o(1)])
  obtain m' where m': "node_contents G db' = Some m'" "live now m' key = Some x"
    by (rule getBytes_value [OF assms(2) g])
  have "node_contents G db' =
      map_option (fold apply_command (effective (ro_logs ?out) rs)) (node_contents G db)"
    using fsm_run_contents [OF assms(1) run] by simp
  with m' obtain m where "node_contents G db = Some m"
    "m' = fold apply_command (effective (ro_logs ?out) rs) m" by auto
  with o err m' length_fsm_run [OF run] show ?thesis by (auto simp: Let_def)
qed

lemma after_set_linearizable:
  "GetBytes ref_badger ref_raft 0 (after_set 0) key_k ReadOptions_zero =
     ((after_set 0)\<lparr>db_raft := sample_leader\<lparr>rn_Last := 3\<rparr>\<rparr>, Inr val_v)"
proof -
  have "r_State ref_raft (sample_leader\<lparr>rn_Last := 2\<rparr>) = RS_Leader" by (simp add: ref_raft_def)
  then have "prepareRead ref_badger ref_raft (after_set 0) ReadOptions_zero =
      ((after_set 0)\<lparr>db_raft := sample_leader\<lparr>rn_Last := 3\<rparr>\<rparr>, None)"
    by (simp add: prepareRead_def ReadOptions_zero_def Barrier_def checkOpen_def Let_def)
  then show ?thesis
    by (simp add: GetBytes_def getBytes_open ref_badger_def ref_view_at_live live_def alive_def)
qed

theorem linearizable_read_after_barrier_example:
  "\<not> db_closed (after_set 0) \<and> r_State ref_raft (db_raft (after_set 0)) = RS_Leader \<and>
   GetBytes ref_badger ref_raft 0 (after_set 0) key_k ReadOptions_zero =
     ((after_set 0)\<lparr>db_raft := sample_leader\<lparr>rn_Last := 3\<rparr>\<rparr>, Inr val_v)"
  using linearizable_read_after_barrier [OF ref_update_ok ref_get_ok _ after_set_linearizable]
    after_set_linearizable
  by (simp add: ReadOptions_zero_def)

section \<open>Reading one's own write\<close>

text \<open>An entry that does not write a key.\<close>

definition spares :: "bytes \<Rightarrow> raft_log \<Rightarrow> bool" where
  "spares key l \<longleftrightarrow>
     (case decodeCommand (log_Data l) of Inl e \<Rightarrow> True | Inr c \<Rightarrow> effect c key = None)"

lemma fold_spares:
  "\<forall>l \<in> set ls. spares key l \<Longrightarrow> fold apply_command (effective ls rs) m key = m key"
proof (induction ls rs arbitrary: m rule: effective.induct)
  case (1 l ls r rs)
  then show ?case
    by (auto simp: spares_def cmds.blind split: sum.splits)
qed auto

lemma prepareRead_spares:
  assumes "update_ok B G" and "prepareRead B R db ro = (db', None)"
    and "\<forall>l \<in> set (ro_logs (r_Barrier R (db_raft db)
          (timeoutOr ro (adv_ApplyTimeout (cfg_Advanced (db_cfg db)))))). spares key l"
    and "node_contents G db = Some m"
  obtains m' where "node_contents G db' = Some m'" and "m' key = m key"
  using assms(2)
proof (cases rule: prepareRead_None_cases)
  case local
  with assms(4) that show ?thesis by blast
next
  case linearizable
  let ?out = "r_Barrier R (db_raft db) (timeoutOr ro (adv_ApplyTimeout (cfg_Advanced (db_cfg db))))"
  obtain rs where run: "fsm_run B (db\<lparr>db_raft := ro_raft ?out\<rparr>) (ro_logs ?out) = (db', rs)"
    by (rule Barrier_run [OF linearizable(4,2)])
  have "node_contents G db' = Some (fold apply_command (effective (ro_logs ?out) rs) m)"
    using fsm_run_contents [OF assms(1) run] assms(4) by simp
  with that fold_spares [OF assms(3)] show ?thesis by blast
qed

text \<open>
  C14: a client reads its own write. After a \<open>Set\<close> that returned nil, a read of the key on
  that node, in either mode, returns the value that was set, and never \<open>ErrKeyNotFound\<close>,
  unless the entry has expired or the entries delivered in between wrote the key.
\<close>

theorem read_your_write:
  assumes "update_ok B G" and "get_ok B G" and "foreign_errors B ErrKeyNotFound"
    and "raft_apply_ok R" and "wf_registry reg"
    and set: "SetBytes B R reg now db key v opts = (db1, None)"
    and pass: "prepareRead B R db1 ro = (db2, None)"
    and others: "\<forall>l \<in> set (ro_logs (r_Barrier R (db_raft db1)
          (timeoutOr ro (adv_ApplyTimeout (cfg_Advanced (db_cfg db1)))))). spares key l"
    and fresh: "\<And>x. resolveSetOptions now opts = Inr x \<Longrightarrow> alive now' x"
    and get: "GetBytes B R now' db1 key ro = (db2, r)"
  shows "case r of Inr y \<Rightarrow> y = v | Inl e \<Rightarrow> \<not> errors_is e ErrKeyNotFound"
proof -
  obtain x m cs where x: "resolveSetOptions now opts = Inr x"
    and m: "node_contents G db1 = Some ((fold apply_command cs m)(key \<mapsto> (v, x)))"
    by (rule SetBytes_success [OF assms(1,4,5) set])
  obtain m' where m': "node_contents G db2 = Some m'" "m' key = Some (v, x)"
    by (rule prepareRead_spares [OF assms(1) pass others m]) simp
  then have vis: "live now' m' key = Some v" using fresh [OF x] by (simp add: live_def)
  have "key \<noteq> []" using set_call.success_leads [OF set] by (simp add: valid_set_def)
  with get pass have r: "r = getBytes B now' db2 key" by (simp add: GetBytes_def)
  show ?thesis
  proof (cases r)
    case (Inl e)
    with r have "getBytes B now' db2 key = Inl e" by simp
    with getBytes_missing [OF assms(2,3) m'(1) this] vis show ?thesis by (auto simp: Inl)
  next
    case (Inr y)
    with r have "getBytes B now' db2 key = Inr y" by simp
    from getBytes_value [OF assms(2) this] m'(1) vis show ?thesis by (auto simp: Inr)
  qed
qed

theorem read_your_write_example:
  "case snd (GetBytes ref_badger ref_raft 0 (after_set 0) key_k local_read) of
     Inr y \<Rightarrow> y = val_v | Inl e \<Rightarrow> \<not> errors_is e ErrKeyNotFound"
proof (rule read_your_write [OF ref_update_ok ref_get_ok ref_foreign ref_raft_apply_ok wf_sample_registry
      SetBytes_sample])
  show "prepareRead ref_badger ref_raft (after_set 0) local_read = (after_set 0, None)" by simp
  show "GetBytes ref_badger ref_raft 0 (after_set 0) key_k local_read =
      (after_set 0, snd (GetBytes ref_badger ref_raft 0 (after_set 0) key_k local_read))"
    by (simp add: GetBytes_def)
  show "\<forall>l \<in> set (ro_logs (r_Barrier ref_raft (db_raft (after_set 0))
      (timeoutOr local_read (adv_ApplyTimeout (cfg_Advanced (db_cfg (after_set 0))))))). spares key_k l"
    by simp
qed (simp_all add: alive_def)

section \<open>Scans\<close>

lemma ScanPrefixBytes_result:
  assumes "view_ok B G"
  shows "\<exists>r. snd (ScanPrefixBytes B R now db pre opts) = Some r \<and>
    (\<forall>es. r = Inr es \<longrightarrow>
      (\<exists>limit m. resolveLimit opts = Inr limit \<and>
         node_contents G (fst (ScanPrefixBytes B R now db pre opts)) = Some m \<and>
         map entry_Key es = scan_take limit (sorted_list_of_set (prefix_keys pre (live now m))) \<and>
         (\<forall>e \<in> set es. live now m (entry_Key e) = Some (entry_Value e))))"
proof (cases "resolveLimit opts")
  case (Inl e)
  then show ?thesis by (simp add: ScanPrefixBytes_def)
next
  case limit: (Inr limit)
  obtain db' e where p: "prepareRead B R db (so_Read opts) = (db', e)" by fastforce
  show ?thesis
  proof (cases "e = None \<and> \<not> db_closed db' \<and> db_store db' \<noteq> None")
    case False
    with limit p show ?thesis
      by (cases e) (auto simp: ScanPrefixBytes_def withStore_unavailable)
  next
    case True
    then obtain b where b: "\<not> db_closed db'" "db_store db' = Some b" by auto
    from assms have it: "iter_ok B G" by (simp add: view_ok_def)
    obtain r where r: "scan_store B now limit pre b = Some r"
      using scan_store_returns [OF it] by blast
    from b True limit p have eq: "ScanPrefixBytes B R now db pre opts = (db', Some r)"
      by (simp add: ScanPrefixBytes_def withStore_open r)
    moreover have "node_contents G db' = Some (contents G b)" using b by (simp add: node_contents_def)
    ultimately show ?thesis
      using limit scan_store_Inr [OF assms, of now limit pre b] r by auto
  qed
qed

text \<open>
  C22: a scan returns for every iterator that keeps Badger's contract, and what it returns
  without an error are the least visible keys with the prefix, in ascending byte order and
  each with its value, as many as the limit allows (100 unless the caller chose another or
  none).
\<close>

theorem scan_returns_least_keys:
  assumes "view_ok B G"
  shows "\<exists>r. snd (ScanPrefixBytes B R now db pre opts) = Some r \<and>
    (\<forall>es. r = Inr es \<longrightarrow>
      (\<exists>limit m. resolveLimit opts = Inr limit \<and>
         node_contents G (fst (ScanPrefixBytes B R now db pre opts)) = Some m \<and>
         map entry_Key es = scan_take limit (sorted_list_of_set (prefix_keys pre (live now m))) \<and>
         (\<forall>e \<in> set es. live now m (entry_Key e) = Some (entry_Value e))))"
  by (rule ScanPrefixBytes_result [OF assms])

theorem scan_returns_least_keys_example:
  "\<exists>r. snd (ScanPrefixBytes ref_badger ref_raft 0 (after_set 0) []
          \<lparr>so_Read = local_read, so_Limit = 0, so_Unlimited = False\<rparr>) = Some r \<and>
     (\<forall>es. r = Inr es \<longrightarrow> (\<exists>m. map entry_Key es =
        scan_take defaultScanLimit (sorted_list_of_set (prefix_keys [] (live 0 m)))))"
  using scan_returns_least_keys [OF ref_view_ok, of ref_raft 0 "after_set 0" "[]"
      "\<lparr>so_Read = local_read, so_Limit = 0, so_Unlimited = False\<rparr>"]
  by (fastforce simp: resolveLimit_def)

section \<open>Reads that change nothing, and reads that are refused\<close>

text \<open>
  A local read never goes through Raft and never changes the node, whatever it returns:
  \<open>GetBytes\<close>, \<open>ScanPrefixBytes\<close> and \<open>ViewBadger\<close> in mode \<open>ReadLocal\<close> leave it as it was.
\<close>

theorem local_reads_change_nothing:
  assumes "ro_Mode ro = ReadLocal" and "so_Read opts = ro"
  shows "fst (GetBytes B R now db key ro) = db \<and> fst (ScanPrefixBytes B R now db pre opts) = db \<and>
    fst (ViewBadger B R now db ro fn) = db"
proof -
  have "\<exists>e. prepareRead B R db ro = (db, e)"
    using assms(1) by (simp add: prepareRead_def mode_defs)
  then obtain e where "prepareRead B R db ro = (db, e)" by blast
  then show ?thesis
    using assms(2)
    by (cases e)
      (auto simp: GetBytes_def ScanPrefixBytes_def ViewBadger_def Let_def split: sum.split option.split)
qed

theorem local_reads_change_nothing_example:
  "fst (GetBytes ref_badger ref_raft 0 (after_set 0) key_k local_read) = after_set 0"
  by (rule local_reads_change_nothing [of local_read
      "\<lparr>so_Read = local_read, so_Limit = 0, so_Unlimited = False\<rparr>", THEN conjunct1])
    (simp_all add: local_read_def)

text \<open>
  Invalid reads are refused with \<open>ErrInvalidArgument\<close> and without touching Raft: an empty
  key, a negative timeout, an unknown mode, a negative limit, a nil callback.
\<close>

theorem invalid_reads_refused:
  assumes "ro_Timeout ro < 0 \<or> ro_Mode ro \<notin> {ReadLinearizable, ReadLocal}" and "so_Limit opts < 0"
  shows "(\<exists>e. GetBytes B R now db [] ro' = (db, Inl e) \<and> errors_is e ErrInvalidArgument) \<and>
    (\<exists>e. GetBytes B R now db key ro = (db, Inl e) \<and> errors_is e ErrInvalidArgument) \<and>
    (\<exists>e. ScanPrefixBytes B R now db pre opts = (db, Some (Inl e)) \<and> errors_is e ErrInvalidArgument) \<and>
    (\<exists>e. ViewBadger B R now db ro' None = (db, Some e) \<and> errors_is e ErrInvalidArgument)"
proof -
  from assms(1) obtain e where e: "prepareRead B R db ro = (db, Some e)" "errors_is e ErrInvalidArgument"
    using prepareRead_negative [of ro B R db] prepareRead_unknown [of ro B R db] by auto
  from assms(2) obtain e' where "resolveLimit opts = Inl e'" "errors_is e' ErrInvalidArgument"
    by (cases rule: resolveLimit_cases [of opts]) auto
  with e show ?thesis
    by (cases "key = []") (auto simp: GetBytes_def ScanPrefixBytes_def ViewBadger_def)
qed

theorem invalid_reads_refused_example:
  "\<exists>e. GetBytes ref_badger ref_raft 0 (after_set 0) key_k \<lparr>ro_Mode = 9, ro_Timeout = 0\<rparr> =
     (after_set 0, Inl e) \<and> errors_is e ErrInvalidArgument"
  by (rule invalid_reads_refused [of "\<lparr>ro_Mode = 9, ro_Timeout = 0\<rparr>"
      "\<lparr>so_Read = local_read, so_Limit = - 1, so_Unlimited = False\<rparr>", THEN conjunct2, THEN conjunct1])
    (simp_all add: mode_defs)

end
