(* ===== verification/Replication_Props.thy ===== *)
theory Replication_Props
  imports Replication Read_Props Restore_Props
begin

text \<open>
  The properties of the cluster as a whole: every synced node that has reached the end of the
  committed log shows the map of that log, whatever mixture of applies, snapshots,
  installations and restarts brought it there; an acknowledged write is what local reads
  elsewhere return; a killed node recovers; and a restart repairs a node that missed entries.
\<close>

section \<open>A sample cluster\<close>

text \<open>
  Two entries are committed; node 0 applies the first, has a snapshot taken, applies the
  second, persists the snapshot; node 1, which has seen nothing, installs it and is then
  handed the second entry once more.
\<close>

definition first_replica :: "(ref_db, ref_raft_node, unit, ref_store) replica" where
  "first_replica =
     \<lparr>rep_db = sample_node [] sample_leader, rep_world = \<lparr>w_fs = [''/d/badger'' \<mapsto> []], w_tick = 0\<rparr>,
      rep_pos = 0, rep_health = Synced\<rparr>"

definition first_cluster :: "(ref_db, ref_raft_node, unit, ref_store, ref_store) cluster" where
  "first_cluster = \<lparr>cl_log = [], cl_node = (\<lambda>n. first_replica), cl_taken = {}, cl_stored = {}, cl_clock = 0\<rparr>"

definition log_w :: raft_log where "log_w = sample_log 1 (set_command key_k val_w 0)"
definition log_v :: raft_log where "log_v = sample_log 2 (set_command key_k val_v 0)"

lemma sample_restorable [simp]: "restorable ref_storage_ghost (sample_node s r)"
  by (simp add: restorable_def sample_options_def colocated_def ref_storage_ghost_def)

lemma ref_deps_ok: "deps_ok ref_badger ref_ghost ref_storage ref_storage_ghost"
proof -
  have "stays_put ref_badger ref_storage_ghost"
    by (auto simp: stays_put_def ref_badger_def ref_storage_ghost_def split: sum.splits)
  moreover have "contents ref_ghost = g_contents ref_storage_ghost"
    by (simp add: ref_ghost_def ref_storage_ghost_def)
  moreover have "past_grows ref_badger ref_storage_ghost"
    by (auto simp: past_grows_def ref_badger_def ref_storage_ghost_def split: sum.splits)
  ultimately show ?thesis by (simp add: deps_ok_def ref_update_ok ref_storage_ok ref_backup_ok ref_kill_ok)
qed

lemma first_new_cluster: "new_cluster ref_storage_ghost first_cluster"
  by (simp add: new_cluster_def first_cluster_def first_replica_def)
    (simp add: serves_def ref_storage_ghost_def)

definition reached :: "(ref_db, ref_raft_node, unit, ref_store, ref_store) cluster \<Rightarrow> bool" where
  "reached C \<longleftrightarrow> cluster_reach ref_badger ref_storage ref_raft (\<lambda>n. no_faults) first_cluster C"

lemma reached_first: "reached first_cluster"
  and reached_step: "reached C \<Longrightarrow> cluster_step ref_badger ref_storage ref_raft (\<lambda>n. no_faults) C C' \<Longrightarrow> reached C'"
  by (auto simp: reached_def intro: cluster_reach.intros)

lemma log_vw_effects [simp]:
  "entry_effect ref_badger log_w = effect (set_command key_k val_w 0)"
  "entry_effect ref_badger log_v = effect (set_command key_k val_v 0)"
proof -
  have "\<not> refuses ref_badger (set_command key_k v 0)" for v
    by (auto simp: refuses_def ref_badger_def command_txn_def set_command_def pair_entry_def)
  then show "entry_effect ref_badger log_w = effect (set_command key_k val_w 0)"
    "entry_effect ref_badger log_v = effect (set_command key_k val_v 0)"
    by (simp_all add: entry_effect_def log_w_def log_v_def)
qed

text \<open>The nodes along the way.\<close>

definition served :: "ref_store \<Rightarrow> nat \<Rightarrow> (ref_db, ref_raft_node, unit) DB" where
  "served s i = (sample_node s sample_leader)\<lparr>db_appliedIndex := of_nat i\<rparr>"

lemma served_fields [simp]:
  "db_store (served s i) = Some (sample_options, s)" "\<not> db_closed (served s i)"
  by (simp_all add: served_def)

lemma served_zero: "sample_node s sample_leader = served s 0"
  by (simp add: served_def sample_node_def)

lemma served_apply:
  "fsm_Apply ref_badger (served s i) log_w = (served ((key_k, val_w, 0) # s) 1, None)"
  "fsm_Apply ref_badger (served s i) log_v = (served ((key_k, val_v, 0) # s) 2, None)"
  by (simp_all add: log_w_def log_v_def served_def sample_node_def)

lemma deliver_to:
  assumes "reached C" and "cl_node C n = r" and "rep_pos r < length (cl_log C)"
    and "fsm_Apply ref_badger (rep_db r) (cl_log C ! rep_pos r) = (db', None)"
  shows "reached (set_node C n (r\<lparr>rep_db := db', rep_pos := Suc (rep_pos r)\<rparr>))"
proof -
  have "cluster_step ref_badger ref_storage ref_raft (\<lambda>n. no_faults) C (set_node C n
      (r\<lparr>rep_db := db', rep_pos := Suc (rep_pos r),
         rep_health := (if harmless ref_badger (cl_log C ! rep_pos r) None then rep_health r else miss (rep_health r))\<rparr>))"
    by (rule cluster_step.deliver) (use assms in auto)
  with reached_step [OF assms(1)] show ?thesis by (simp add: harmless_def)
qed

definition store_w :: ref_store where "store_w = [(key_k, val_w, 0)]"
definition store_vw :: ref_store where "store_vw = [(key_k, val_v, 0), (key_k, val_w, 0)]"

lemma first_fields [simp]:
  "cl_log first_cluster = []" "cl_node first_cluster n = first_replica" "cl_taken first_cluster = {}"
  "cl_stored first_cluster = {}" "cl_clock first_cluster = 0" "rep_db first_replica = served [] 0" "rep_pos first_replica = 0"
  "rep_health first_replica = Synced"
  by (simp_all add: first_cluster_def first_replica_def served_zero)

lemma first_restore:
  obtains db w where "fsm_Restore ref_storage no_faults (rep_db first_replica, rep_world first_replica) store_vw =
      ((db, w), None)" and "db_store db = Some (sample_options, store_vw)" and "\<not> db_closed db"
proof -
  let ?r = "fsm_Restore ref_storage no_faults
    (sample_node [] sample_leader, \<lparr>w_fs = [''/d/badger'' \<mapsto> []], w_tick = 0\<rparr>) store_vw"
  have "snd ?r = None" "db_store (fst (fst ?r)) = Some (sample_options, store_vw)" "\<not> db_closed (fst (fst ?r))"
    by (simp_all add: restore_eval)
  moreover have "(rep_db first_replica, rep_world first_replica) =
      (sample_node [] sample_leader, \<lparr>w_fs = [''/d/badger'' \<mapsto> []], w_tick = 0\<rparr>)"
    by (simp add: first_replica_def)
  ultimately show ?thesis by (metis prod.collapse that)
qed

lemma sample_cluster:
  obtains C where "reached C" and "cl_log C = [log_w, log_v]" and "cl_clock C = 0"
    and "rep_health (cl_node C 1) = Synced"
    and "rep_pos (cl_node C 1) = 2" and "\<not> db_closed (rep_db (cl_node C 1))"
    and "db_store (rep_db (cl_node C 1)) = Some (sample_options, (key_k, val_v, 0) # store_vw)"
proof -
  let ?C2 = "first_cluster\<lparr>cl_log := [log_w, log_v]\<rparr>"
  let ?r1 = "first_replica\<lparr>rep_db := served store_w 1, rep_pos := 1\<rparr>"
  let ?r2 = "?r1\<lparr>rep_db := served store_vw 2, rep_pos := 2\<rparr>"
  let ?C3 = "set_node ?C2 0 ?r1" and ?sn = "\<lparr>sn_stream = store_vw, sn_label = 1, sn_health = Synced\<rparr>"
  let ?C4 = "?C3\<lparr>cl_taken := {(0, 1)}\<rparr>"
  let ?C5 = "set_node ?C4 0 ?r2"
  let ?C6 = "?C5\<lparr>cl_taken := {}, cl_stored := {?sn}\<rparr>"
  have "reached (first_cluster\<lparr>cl_log := [log_w]\<rparr>)"
    using reached_step [OF reached_first cluster_step.commit, of log_w] by simp
  then have "reached ?C2" using reached_step [OF _ cluster_step.commit, of _ log_v] by fastforce
  from deliver_to [OF this, of 0 first_replica] have "reached ?C3"
    by (simp add: served_apply store_w_def)
  from reached_step [OF this cluster_step.take_snapshot, of 0] have "reached ?C4"
    by (simp add: fsm_Snapshot_def set_node_def first_cluster_def)
  from deliver_to [OF this, of 0 ?r1] have c5: "reached ?C5"
    by (simp add: set_node_def served_apply store_w_def store_vw_def numeral_2_eq_2)
  have "Persist ref_storage 0 FsmSnapshot (served store_vw 2) None None = (SinkClosed store_vw, None)"
    by (simp add: Persist_def ref_storage_def)
  with reached_step [OF c5 cluster_step.persist, of ?r2 0 1 0 FsmSnapshot None None store_vw]
  have c6: "reached ?C6" by (simp add: set_node_def first_cluster_def)
  obtain db w where run: "fsm_Restore ref_storage no_faults (rep_db first_replica, rep_world first_replica)
      store_vw = ((db, w), None)"
    and st: "db_store db = Some (sample_options, store_vw)" and op: "\<not> db_closed db"
    by (rule first_restore)
  let ?r7 = "first_replica\<lparr>rep_db := db, rep_world := w, rep_pos := 1, rep_health := Synced\<rparr>"
  let ?C7 = "set_node ?C6 1 ?r7"
  from reached_step [OF c6 cluster_step.install, of first_replica 1 ?sn db w] run
  have c7: "reached ?C7" by (simp add: set_node_def)
  let ?db8 = "db\<lparr>db_store := Some (sample_options, (key_k, val_v, 0) # store_vw), db_appliedIndex := 2\<rparr>"
  have "fsm_Apply ref_badger db log_v = (?db8, None)" using st op by (simp add: log_v_def)
  with deliver_to [OF c7, of 1 ?r7] have c8: "reached (set_node ?C7 1 (?r7\<lparr>rep_db := ?db8, rep_pos := Suc 1\<rparr>))"
    by (simp add: set_node_def)
  show ?thesis by (rule that [OF c8]) (use op in \<open>simp_all add: set_node_def\<close>)
qed

section \<open>Replicas and the log\<close>

text \<open>
  C2: the cluster refines its log. Start from nodes with empty databases and let entries be
  committed, delivered, snapshots be taken, persisted (while entries are being applied) and
  installed, restores fail, nodes stop, be killed (also in the middle of a restore) and start,
  in any order. Then every node that is up to
  date with its position (it answered nil to the entries handed to it, or got them from a
  synced snapshot, or is replaying after a restart) and has reached the end of the log shows
  readers the map that the log defines. Readers' clocks are not before those of the backups
  taken so far, which may have left out what had expired.
\<close>

theorem replicas_refine_log:
  assumes "deps_ok B G S SG" and "new_cluster SG C0" and "cluster_reach B S R F C0 C"
    and "rep_health (cl_node C n) = Synced" and "rep_pos (cl_node C n) = length (cl_log C)"
  shows "\<exists>m. serves SG (rep_db (cl_node C n)) (rep_world (cl_node C n)) m \<and>
     same_from (cl_clock C) m (log_map B (cl_log C))"
proof -
  obtain m where "serves SG (rep_db (cl_node C n)) (rep_world (cl_node C n)) m"
    and "\<forall>k. (\<forall>l \<in> set (drop (rep_pos (cl_node C n)) (cl_log C)). entry_effect B l k = None) \<longrightarrow>
      seen_same (cl_clock C) (m k) (log_map B (cl_log C) k)"
    by (rule synced_settled [OF assms(1-4)])
  with assms(5) show ?thesis by (auto simp: same_from_pointwise)
qed

theorem replicas_refine_log_example:
  "\<exists>C m. cluster_reach ref_badger ref_storage ref_raft (\<lambda>n. no_faults) first_cluster C \<and>
     cl_log C = [log_w, log_v] \<and> rep_pos (cl_node C 1) = 2 \<and>
     serves ref_storage_ghost (rep_db (cl_node C 1)) (rep_world (cl_node C 1)) m \<and>
     same_from 0 m (log_map ref_badger [log_w, log_v])"
proof -
  obtain C where C: "reached C" "cl_log C = [log_w, log_v]" "cl_clock C = 0" "rep_health (cl_node C 1) = Synced"
    "rep_pos (cl_node C 1) = 2" by (rule sample_cluster)
  from replicas_refine_log [OF ref_deps_ok first_new_cluster C(1) [unfolded reached_def] C(4)] C
  show ?thesis unfolding reached_def by auto
qed

section \<open>Catching up\<close>

text \<open>Badger commits every transaction that it does not refuse in all states.\<close>

definition commits_all :: "('b,'t,'v,'i,'m) badger_api \<Rightarrow> bool" where
  "commits_all B \<longleftrightarrow> (\<forall>c b. \<not> refuses B c \<longrightarrow> snd (b_Update B b (command_txn B c)) = None)"

definition synced_open :: "('b,'r,'o,'d) replica \<Rightarrow> bool" where
  "synced_open r \<longleftrightarrow> rep_health r = Synced \<and> \<not> db_closed (rep_db r) \<and> db_store (rep_db r) \<noteq> None"

lemma Apply_harmless:
  assumes "commits_all B" and "\<not> db_closed db" and "db_store db \<noteq> None" and "fsm_Apply B db l = (db', resp)"
  shows "harmless B l resp"
proof (cases "\<exists>c. decodeCommand (log_Data l) = Inr c \<and> \<not> refuses B c")
  case True
  then obtain c where c: "decodeCommand (log_Data l) = Inr c" "\<not> refuses B c" by blast
  have "snd (b_Update B b (command_txn B c)) = None" for b using assms(1) c(2) by (simp add: commits_all_def)
  then show ?thesis
    using assms(2-4) c(1) by (cases rule: fsm_Apply_cases [of l B db]) (auto simp: harmless_def; metis snd_conv option.distinct(1))+
next
  case False
  then show ?thesis by (auto simp: harmless_def entry_effect_def split: sum.split)
qed

lemma catch_up_one:
  assumes "commits_all B" and "cluster_reach B S R F C0 C" and "synced_open (cl_node C n)"
    and "rep_pos (cl_node C n) < length (cl_log C)"
  shows "\<exists>C'. cluster_reach B S R F C0 C' \<and> cl_log C' = cl_log C \<and> cl_clock C' = cl_clock C \<and> synced_open (cl_node C' n) \<and>
     rep_pos (cl_node C' n) = Suc (rep_pos (cl_node C n))"
proof -
  let ?r = "cl_node C n" and ?l = "cl_log C ! rep_pos (cl_node C n)"
  obtain db' resp where run: "fsm_Apply B (rep_db ?r) ?l = (db', resp)" by fastforce
  have h: "harmless B ?l resp"
    using assms(3) by (intro Apply_harmless [OF assms(1) _ _ run]) (simp_all add: synced_open_def)
  have "cluster_reach B S R F C0 (set_node C n (?r\<lparr>rep_db := db', rep_pos := Suc (rep_pos ?r),
         rep_health := (if harmless B ?l resp then rep_health ?r else miss (rep_health ?r))\<rparr>))"
    by (rule cluster_reach.one_more [OF assms(2) cluster_step.deliver [OF refl assms(4) refl run]])
  with h assms(3) fsm_Apply_frame(1,7) [OF run] show ?thesis
    by (intro exI) (auto simp: set_node_def synced_open_def)
qed

lemma catch_up:
  assumes "deps_ok B G S SG" and "commits_all B" and "new_cluster SG C0" and "cluster_reach B S R F C0 C"
    and "synced_open (cl_node C n)"
  shows "\<exists>C' m. cluster_reach B S R F C0 C' \<and> cl_log C' = cl_log C \<and>
     rep_pos (cl_node C' n) = length (cl_log C) \<and> synced_open (cl_node C' n) \<and>
     serves SG (rep_db (cl_node C' n)) (rep_world (cl_node C' n)) m \<and> same_from (cl_clock C) m (log_map B (cl_log C))"
proof -
  have le: "rep_pos (cl_node C n) \<le> length (cl_log C)"
    using cluster_reach_inv [OF assms(1) new_cluster_inv [OF assms(3)] assms(4)]
    by (simp add: cluster_inv_def node_inv_def)
  have "\<exists>C'. cluster_reach B S R F C0 C' \<and> cl_log C' = cl_log C \<and> cl_clock C' = cl_clock C \<and>
      rep_pos (cl_node C' n) = length (cl_log C) \<and> synced_open (cl_node C' n)"
    using assms(4,5) le
  proof (induction "length (cl_log C) - rep_pos (cl_node C n)" arbitrary: C)
    case 0
    then show ?case by (intro exI [of _ C]) simp
  next
    case (Suc k)
    from Suc.hyps(2) have "rep_pos (cl_node C n) < length (cl_log C)" by simp
    from catch_up_one [OF assms(2) Suc.prems(1,2) this] obtain C1 where
      "cluster_reach B S R F C0 C1" "cl_log C1 = cl_log C" "cl_clock C1 = cl_clock C" "synced_open (cl_node C1 n)"
      "rep_pos (cl_node C1 n) = Suc (rep_pos (cl_node C n))" by blast
    with Suc.hyps(1) [of C1] Suc.hyps(2) show ?case by auto
  qed
  then obtain C' where C': "cluster_reach B S R F C0 C'" "cl_log C' = cl_log C" "cl_clock C' = cl_clock C"
    "rep_pos (cl_node C' n) = length (cl_log C)" "synced_open (cl_node C' n)" by blast
  obtain m where "serves SG (rep_db (cl_node C' n)) (rep_world (cl_node C' n)) m"
    and "\<forall>k. (\<forall>l \<in> set (drop (rep_pos (cl_node C' n)) (cl_log C')). entry_effect B l k = None) \<longrightarrow>
      seen_same (cl_clock C') (m k) (log_map B (cl_log C') k)"
    by (rule synced_settled [OF assms(1,3) C'(1) C'(5) [unfolded synced_open_def, THEN conjunct1]])
  with C' show ?thesis by (auto simp: same_from_pointwise)
qed


lemma ref_commits_all: "commits_all ref_badger"
  by (auto simp: commits_all_def refuses_def ref_badger_def split: sum.splits)


section \<open>Killed nodes\<close>

text \<open>
  What a kill may leave in the live directory: what Badger leaves of the database that was open
  there, whatever a staging restore left elsewhere; or the files at some moment of the swap of
  a known snapshot, or of its rollback.
\<close>

definition kill_leaves ::
    "('b,'o,'d,'s) storage_api \<Rightarrow> 'd faults \<Rightarrow> 's snapshot set \<Rightarrow> ('b,'r,'o,'d) replica \<Rightarrow> 'd world \<Rightarrow> bool" where
  "kill_leaves S F sns r w' \<longleftrightarrow>
     (let db = rep_db r; dir = db_badgerDir db in
      (\<exists>k. \<forall>q. under dir q \<longrightarrow> w_fs w' q = killed S k (db_store db) (rep_world r) q) \<or>
      (\<exists>sn \<in> sns. \<exists>w1 g h v k. sn_health sn \<noteq> Lost \<and>
         restore_stage S F (db_badgerOpts db) (stagingDir_of dir) (rep_world r) (sn_stream sn) = (w1, None) \<and>
         (g, h, v) \<in> set (swap_moments S F dir (stagingDir_of dir) (backupDir_of dir) (db, w1)) \<and>
         g \<noteq> Unclear \<and> w' = v\<lparr>w_fs := killed S k h v\<rparr>))"

lemma killed_reach:
  assumes D: "deps_ok B G S SG" and cluster: "new_cluster SG C0" "cluster_reach B S R F C0 C"
    and known: "rep_health (cl_node C n) \<noteq> Lost" and layout: "colocated (db_badgerOpts (rep_db (cl_node C n)))"
    and left: "kill_leaves S (F n) (cl_stored C) (cl_node C n) w'"
  shows "cluster_reach B S R F C0 (set_node C n (dead (cl_node C n) w' Missed))"
proof -
  let ?r = "cl_node C n" and ?dir = "db_badgerDir (rep_db (cl_node C n))"
  have h: "miss (rep_health ?r) = Missed" using known by (cases "rep_health ?r") simp_all
  have "restorable SG (rep_db ?r)"
    using cluster_reach_inv [OF D new_cluster_inv [OF cluster(1)] cluster(2)]
    by (simp add: cluster_inv_def node_inv_def)
  then have np: "\<not> in_place (rep_db ?r)" by (rule staged_layoutD(4) [OF restorable_layout [OF _ layout]])
  let ?ms = "\<lambda>w. swap_moments S (F n) ?dir (stagingDir_of ?dir) (backupDir_of ?dir) (rep_db ?r, w)"
  let ?stage = "\<lambda>sn. restore_stage S (F n) (db_badgerOpts (rep_db ?r)) (stagingDir_of ?dir) (rep_world ?r) (sn_stream sn)"
  from left have "(\<exists>k. \<forall>q. under ?dir q \<longrightarrow> w_fs w' q = killed S k (db_store (rep_db ?r)) (rep_world ?r) q) \<or>
      (\<exists>sn \<in> cl_stored C. \<exists>w1 g hd v k. sn_health sn \<noteq> Lost \<and> ?stage sn = (w1, None) \<and>
         (g, hd, v) \<in> set (?ms w1) \<and> g \<noteq> Unclear \<and> w' = v\<lparr>w_fs := killed S k hd v\<rparr>)"
    unfolding kill_leaves_def Let_def .
  then consider
      k where "\<And>q. under ?dir q \<Longrightarrow> w_fs w' q = killed S k (db_store (rep_db ?r)) (rep_world ?r) q"
    | sn w1 g hd v k where "sn \<in> cl_stored C" "sn_health sn \<noteq> Lost" "g \<noteq> Unclear" "w' = v\<lparr>w_fs := killed S k hd v\<rparr>"
        "?stage sn = (w1, None)" "(g, hd, v) \<in> set (?ms w1)"
    by (elim disjE exE bexE conjE) simp_all
  then have "cluster_step B S R F C (set_node C n (dead ?r w' Missed))"
  proof cases
    case 1
    from cluster_step.kill [OF refl 1, of B R F] h layout show ?thesis by simp
  next
    case 2
    then have "miss (left_by g (rep_health ?r) (sn_health sn)) = Missed"
      using h by (cases g; cases "sn_health sn") simp_all
    with cluster_step.kill_in_swap [where F = F and n = n, OF refl 2(1) np 2(5,6), of B R k] 2(4) show ?thesis by simp
  qed
  from cluster_reach.one_more [OF cluster(2) this] show ?thesis .
qed



section \<open>Acknowledged writes\<close>

lemma DB_apply_accepted:
  assumes "update_ok B G" and "raft_apply_ok R" and "wf_registry reg" and "command_fits cmd"
    and "DB_apply B R reg db cmd = (db', None)"
  shows "\<not> refuses B cmd"
proof -
  obtain b b' where "b_Update B b (command_txn B cmd) = (b', None)"
    using DB_apply_success [OF assms] by blast
  then show ?thesis by (metis refuses_def snd_conv)
qed

lemma log_map_last_write:
  assumes "i < length log" and "entry_effect B (log ! i) k = Some x"
    and "\<forall>l \<in> set (drop (Suc i) log). entry_effect B l k = None"
  shows "log_map B log k = x"
proof -
  have "last_effect (entry_effect B) log k = last_effect (entry_effect B) (drop i log) k"
    by (subst append_take_drop_id [of i log, symmetric], subst last_effect_append)
      (use assms in \<open>simp add: Cons_nth_drop_Suc [symmetric] split: option.split\<close>)
  moreover have "last_effect (entry_effect B) (drop i log) k = Some x"
    using assms last_effect_None [of "entry_effect B" "drop (Suc i) log" k]
    by (simp add: Cons_nth_drop_Suc [symmetric])
  ultimately show ?thesis by (simp add: log_map_def ents.run_eff)
qed

lemma spares_effect: "spares k l \<Longrightarrow> entry_effect B l k = None"
  by (auto simp: spares_def entry_effect_def split: sum.splits)

lemma local_get_shows:
  assumes link: "contents G = g_contents SG" and ok: "get_ok B G" "foreign_errors B ErrKeyNotFound"
    and m: "serves SG db w m" and key: "key \<noteq> []" and vis: "live now m key = Some v"
    and get: "GetBytes B R now db key local_read = (db', r)"
  shows "case r of Inr y \<Rightarrow> y = v | Inl e \<Rightarrow> \<not> errors_is e ErrKeyNotFound"
proof (cases "db_closed db \<or> db_store db = None")
  case True
  with get key have "r = Inl (Sentinel ErrClosed)"
    by (cases "db_closed db") (auto simp: GetBytes_def local_read_def guard_simps)
  then show ?thesis by simp
next
  case False
  with m link have c: "node_contents G db = Some m" by (auto simp: serves_def node_contents_def)
  from False get key have r: "getBytes B now db key = r" by (auto simp: GetBytes_def)
  show ?thesis
  proof (cases r)
    case (Inl e)
    with getBytes_missing [OF ok c r [unfolded Inl]] vis show ?thesis by auto
  next
    case (Inr y)
    from getBytes_value [OF ok(1) r [unfolded Inr]] c vis show ?thesis by (auto simp: Inr)
  qed
qed

text \<open>
  C5: an acknowledged write reaches the replicas. A \<open>Set\<close> returned nil on the leader and its
  command is in the committed log at position \<open>i\<close>, with no later entry writing the key. Then
  a local read of the key on any synced node that has got past \<open>i\<close> (whether by applying
  entries, by a snapshot, or by replaying after a restart) returns the value that was set and
  never \<open>ErrKeyNotFound\<close>, until the entry expires, if the read's clock is not before those of the
  backups taken so far.
\<close>

theorem set_reaches_replicas:
  assumes deps: "deps_ok B G S SG" "get_ok B G" "foreign_errors B ErrKeyNotFound"
      "raft_apply_ok R" "wf_registry reg"
    and cluster: "new_cluster SG C0" "cluster_reach B S R F C0 C"
    and set: "SetBytes B R reg now db key v opts = (db', None)" "resolveSetOptions now opts = Inr x"
    and logged: "i < length (cl_log C)"
      "encodeCommand reg (set_command key v x) = Inr (log_Data (cl_log C ! i))"
      "\<forall>l \<in> set (drop (Suc i) (cl_log C)). spares key l"
    and node: "rep_health (cl_node C n) = Synced" "i < rep_pos (cl_node C n)"
    and clock: "cl_clock C \<le> now'" "alive now' x"
    and get: "GetBytes B R now' (rep_db (cl_node C n)) key local_read = (db'', r)"
  shows "case r of Inr y \<Rightarrow> y = v | Inl e \<Rightarrow> \<not> errors_is e ErrKeyNotFound"
proof -
  let ?db = "rep_db (cl_node C n)"
  note D = deps_okD [OF deps(1)]
  obtain x' where key: "key \<noteq> []" and "resolveSetOptions now opts = Inr x'"
    and run: "DB_apply B R reg db (set_command key v x') = (db', None)" by (rule SetBytes_command [OF set(1)])
  with set(2) have [simp]: "x' = x" by simp
  have "\<not> refuses B (set_command key v x)"
    using DB_apply_accepted [OF D(1) deps(4,5) set_command_fits run] by simp
  then have "entry_effect B (cl_log C ! i) key = Some (Some (v, x))"
    using decode_encode [OF deps(5) set_command_fits logged(2)]
    by (simp add: entry_effect_def effect_def pair_effect_def set_command_def)
  then have final: "log_map B (cl_log C) key = Some (v, x)"
    using log_map_last_write [OF logged(1)] logged(3) spares_effect by blast
  obtain m where m: "serves SG ?db (rep_world (cl_node C n)) m"
    and settled: "\<forall>k. (\<forall>l \<in> set (drop (rep_pos (cl_node C n)) (cl_log C)). entry_effect B l k = None) \<longrightarrow>
      seen_same (cl_clock C) (m k) (log_map B (cl_log C) k)"
    by (rule synced_settled [OF deps(1) cluster node(1)])
  have "set (drop (rep_pos (cl_node C n)) (cl_log C)) \<subseteq> set (drop (Suc i) (cl_log C))"
    using node(2) by (intro set_drop_subset_set_drop) simp
  with logged(3) settled have "seen_same (cl_clock C) (m key) (log_map B (cl_log C) key)"
    by (metis spares_effect subsetD)
  then have "live now' m key = live now' (log_map B (cl_log C)) key"
    using clock(1) by (simp add: seen_same_live)
  then have "live now' m key = Some v" using clock(2) final by (simp add: live_def)
  with local_get_shows [OF D(4) deps(2,3) m key _ get] show ?thesis by simp
qed

theorem set_reaches_replicas_example:
  "\<exists>C. cluster_reach ref_badger ref_storage ref_raft (\<lambda>n. no_faults) first_cluster C \<and>
     rep_pos (cl_node C 1) = 2 \<and>
     (case snd (GetBytes ref_badger ref_raft 0 (rep_db (cl_node C 1)) key_k local_read) of
        Inr y \<Rightarrow> y = val_v | Inl e \<Rightarrow> \<not> errors_is e ErrKeyNotFound)"
proof -
  obtain C where C: "reached C" "cl_log C = [log_w, log_v]" "cl_clock C = 0" "rep_health (cl_node C 1) = Synced"
    "rep_pos (cl_node C 1) = 2" by (rule sample_cluster)
  let ?g = "GetBytes ref_badger ref_raft 0 (rep_db (cl_node C 1)) key_k local_read"
  have "case snd ?g of Inr y \<Rightarrow> y = val_v | Inl e \<Rightarrow> \<not> errors_is e ErrKeyNotFound"
  proof (rule set_reaches_replicas [OF ref_deps_ok ref_get_ok ref_foreign ref_raft_apply_ok
        wf_sample_registry first_new_cluster C(1) [unfolded reached_def] SetBytes_sample])
    show "encodeCommand sample_registry (set_command key_k val_v 0) = Inr (log_Data (cl_log C ! 1))"
      by (simp add: C(2) log_v_def encodable_encode)
    show "?g = (fst ?g, snd ?g)" by simp
  qed (use C in \<open>simp_all add: alive_def\<close>)
  with C show ?thesis by (auto simp: reached_def)
qed

section \<open>Restarts\<close>

lemma effective_subset:
  "map (\<lambda>l. decodeCommand (log_Data l)) ls = map Inr cs \<Longrightarrow> set (effective ls rs) \<subseteq> set cs"
proof (induction ls rs arbitrary: cs rule: effective.induct)
  case (1 l ls r rs)
  then obtain c cs' where "cs = c # cs'" "decodeCommand (log_Data l) = Inr c"
    "map (\<lambda>l. decodeCommand (log_Data l)) ls = map Inr cs'" by (cases cs) auto
  with "1.IH" show ?case by (cases "r = None") auto
qed auto

text \<open>
  C13: a restart repairs a node that missed entries. A node that started empty ran a log with
  whatever responses, failures included; it was closed without an error, its database
  reopened as \<open>Open\<close> does, and the whole log handed to it again. If this time every response
  is nil, it holds exactly the map of the log, although some entries ran twice and some
  earlier failures came between them.
\<close>

theorem restart_heals:
  assumes deps: "deps_ok B G S SG" and lay: "restorable SG db" "colocated (db_badgerOpts db)"
    and start: "node_contents G db = Some Map.empty" "db_closeResult db = None"
    and run: "fsm_run B db ls = (db1, rs)"
    and close: "DB_Close B S R (db1, w) = (((db2, w2), es), None)"
    and reopen: "open_badger S F (db_badgerOpts db2) w2 = (w3, Inr b)"
    and rerun: "fsm_run B (new_db (db_cfg db2) (db_badgerOpts db2) nil b) ls = (db4, rs')"
    and ok: "\<forall>r \<in> set rs'. r = None"
  shows "\<exists>cs. map (\<lambda>l. decodeCommand (log_Data l)) ls = map Inr cs \<and>
     node_contents G db4 = Some (fold apply_command cs Map.empty)"
proof -
  note D = deps_okD [OF deps] and fr = fsm_run_frame [OF run]
  let ?m1 = "fold apply_command (effective ls rs) Map.empty"
  have lay1: "restorable SG db1" by (rule fsm_run_restorable [OF D(5) lay(1) run])
  have "node_contents G db1 = Some ?m1" using fsm_run_contents [OF D(1) run] start(1) by simp
  then have "serves SG db1 w ?m1" using D(4) by (auto simp: serves_def node_contents_def)
  from stop_serves [OF D(2) lay1 this close] start(2) lay(2) fr have m2: "serves SG db2 w2 ?m1" by simp
  have c: "db_store db2 = None" "db_badgerOpts db2 = db_badgerOpts db" "db_badgerDir db2 = db_badgerDir db"
    using Close_first_world(1,3,4) [OF close] start(2) fr by simp_all
  have "g_contents SG b = ?m1"
    using open_badger_contents(2) [OF D(2) reopen] c m2 lay by (simp add: serves_def restorable_def)
  then have m3: "node_contents G (new_db (db_cfg db2) (db_badgerOpts db2) nil b) = Some ?m1"
    using D(4) by (simp add: node_contents_def new_db_def)
  from fsm_run_decodes [OF rerun ok] obtain cs where
    cs: "map (\<lambda>l. decodeCommand (log_Data l)) ls = map Inr cs" by blast
  have "node_contents G db4 = Some (fold apply_command cs ?m1)"
    by (rule fsm_run_all_ok [OF D(1) rerun ok m3 cs])
  with cs cmds.replay_heals [OF effective_subset [OF cs], of rs Map.empty] show ?thesis by auto
qed

theorem restart_heals_example:
  "\<exists>db2 w2 b w3 db4 cs.
     DB_Close ref_badger ref_storage ref_raft (served store_vw 2, sample_world) =
       (((db2, w2), map Released [RaftHandle, TransportHandle, BoltHandle, StoreHandle]), None) \<and>
     open_badger ref_storage no_faults (db_badgerOpts db2) w2 = (w3, Inr b) \<and>
     db4 = fst (fsm_run ref_badger (new_db (db_cfg db2) (db_badgerOpts db2) sample_leader b) [log_w, log_v]) \<and>
     map (\<lambda>l. decodeCommand (log_Data l)) [log_w, log_v] = map Inr cs \<and>
     node_contents ref_ghost db4 = Some (fold apply_command cs Map.empty)"
proof -
  let ?c = "DB_Close ref_badger ref_storage ref_raft (served store_vw 2, sample_world)"
  have run: "fsm_run ref_badger (sample_node [] sample_leader) [log_w, log_v] =
      (served store_vw 2, [None, None])"
    by (simp add: served_zero served_apply store_vw_def)
  have first: "db_closeResult (served store_vw 2) = None" by (simp add: served_def)
  have "snd ?c = None"
    by (simp add: DB_Close_def served_def ref_raft_def closeStore_def badger_Close_def ref_storage_def
        errors_Join_None_iff Let_def)
  then obtain db2 w2 es where close: "?c = (((db2, w2), es), None)" by (metis prod.collapse)
  obtain w3 s where reopen: "open_badger ref_storage no_faults (db_badgerOpts db2) w2 =
      (w3, Inr (db_badgerOpts db2, s))"
    by (simp add: open_badger_def os_MkdirAll_def no_faults_def badger_Open_def ref_storage_def ref_Open_def Let_def)
  let ?n = "new_db (db_cfg db2) (db_badgerOpts db2) sample_leader (db_badgerOpts db2, s)"
  have rerun: "fsm_run ref_badger ?n [log_w, log_v] = (fst (fsm_run ref_badger ?n [log_w, log_v]), [None, None])"
    by (simp add: log_w_def log_v_def new_db_def)
  have "colocated (db_badgerOpts (sample_node [] sample_leader))"
    by (simp add: sample_options_def colocated_def)
  from restart_heals [OF ref_deps_ok sample_restorable this _ _ run close reopen rerun]
    DB_Close_first(4) [OF close first] close reopen show ?thesis
    by (auto simp: node_contents_def ref_ghost_def)
qed

section \<open>Writes that Badger refuses\<close>

lemma fsm_run_last_refused:
  assumes "fsm_run B db (ls @ [l]) = (db', rs)" and "decodeCommand (log_Data l) = Inr c" and "refuses B c"
  shows "\<exists>e rs1. rs = rs1 @ [Some e]"
proof -
  obtain db1 rs1 where a: "fsm_run B db ls = (db1, rs1)" by fastforce
  obtain r where b: "fsm_Apply B db1 l = (db', r)" and rs: "rs = rs1 @ [r]"
    using assms(1) a by (auto simp: fsm_run_append split: prod.splits)
  have "r \<noteq> None"
    using fsm_Apply_committed [of B db1 l db'] b assms(2,3) by (metis refuses_def snd_conv)
  with rs show ?thesis by auto
qed

text \<open>
  C31: the library checks that a key is not empty, Badger refuses more: keys under its reserved
  prefix, or keys that are too long. Such a \<open>Set\<close> is not turned down before Raft: on an open
  leader whose Raft commits it, the caller's entry is the last one delivered, the call fails,
  and the entry stays in the log, where it changes nothing on this or any other node.
\<close>

theorem refused_set_is_logged:
  assumes upd: "update_ok B G" and raft: "raft_apply_ok R" and reg: "wf_registry reg"
    and args: "key \<noteq> []" "resolveSetOptions now opts = Inr x"
    and node: "\<not> db_closed db" "r_State R (db_raft db) = RS_Leader"
    and enc: "encodeCommand reg (set_command key v x) = Inr data"
    and out: "out = r_Apply R (db_raft db) data (adv_ApplyTimeout (cfg_Advanced (db_cfg db)))"
    and committed: "ro_err out = None" and refused: "refuses B (set_command key v x)"
    and run: "SetBytes B R reg now db key v opts = (db', r)"
  shows "r \<noteq> None \<and> db_raft db' = ro_raft out \<and>
    (\<exists>ls l rs. ro_logs out = ls @ [l] \<and> log_Data l = data \<and> entry_effect B l = Map.empty \<and>
       node_contents G db' = map_option (fold apply_command (effective ls rs)) (node_contents G db))"
proof -
  obtain ls l where logs: "ro_logs out = ls @ [l]" and l: "log_Data l = data"
    using raft committed unfolding raft_apply_ok_def out by (metis append_butlast_last_id)
  have dec: "decodeCommand (log_Data l) = Inr (set_command key v x)"
    using decode_encode [OF reg set_command_fits enc] l by simp
  then have none: "entry_effect B l = Map.empty" using refused by (simp add: entry_effect_def)
  obtain db1 rs where all: "fsm_run B (db\<lparr>db_raft := ro_raft out\<rparr>) (ls @ [l]) = (db1, rs)" by fastforce
  obtain e rs1 where rs: "rs = rs1 @ [Some e]" using fsm_run_last_refused [OF all dec refused] by blast
  have "SetBytes B R reg now db key v opts = DB_apply B R reg db (set_command key v x)"
    using args by (simp add: SetBytes_def set_command_def)
  with run node enc out committed all logs rs have res: "db' = db1" "r = Some e"
    by (auto simp: DB_apply_def guard_simps)
  have len: "length rs1 = length ls" using length_fsm_run [OF all] rs by simp
  then have "effective (ls @ [l]) rs = effective ls rs1" by (simp add: rs effective_append dec)
  then have "node_contents G db' = map_option (fold apply_command (effective ls rs1)) (node_contents G db)"
    using fsm_run_contents [OF upd all] res by simp
  moreover have "db_raft db' = ro_raft out" using fsm_run_frame(3) [OF all] res by simp
  ultimately show ?thesis using logs l none res by blast
qed

definition reserved_key :: bytes where "reserved_key = badger_prefix @ [107]"

lemma reserved_refused: "refuses ref_badger (set_command reserved_key v x)"
  by (auto simp: refuses_def ref_badger_def command_txn_def set_command_def pair_entry_def
      ref_reject_def reserved_key_def)

theorem refused_set_is_logged_example:
  "snd (SetBytes ref_badger ref_raft sample_registry 0 (sample_node [] sample_leader) reserved_key val_v [])
     \<noteq> None \<and>
   db_raft (fst (SetBytes ref_badger ref_raft sample_registry 0 (sample_node [] sample_leader)
     reserved_key val_v [])) = sample_leader\<lparr>rn_Last := 2\<rparr>"
proof -
  let ?s = "SetBytes ref_badger ref_raft sample_registry 0 (sample_node [] sample_leader) reserved_key val_v []"
  have "\<exists>d. encodeCommand sample_registry (set_command reserved_key val_v 0) = Inr d"
    by (auto simp: sample_defs encode_defs reserved_key_def badger_prefix_def bytes_of_def)
  then obtain d where d: "encodeCommand sample_registry (set_command reserved_key val_v 0) = Inr d" ..
  have k: "reserved_key \<noteq> []" and x: "resolveSetOptions 0 [] = Inr 0"
    by (simp_all add: reserved_key_def)
  have "?s = (fst ?s, snd ?s)" by simp
  from refused_set_is_logged [OF ref_update_ok ref_raft_apply_ok wf_sample_registry k x _ _ d refl _
      reserved_refused this] show ?thesis by simp
qed

end
