(* ===== verification/Clients.thy ===== *)
theory Clients
  imports Replication_Props "HOL-Library.Multiset"
begin

text \<open>
  The cluster as its clients see it. Clients call the write methods and the point reads and
  scans of any node; the log grows only by what such calls submit to Raft; nodes apply,
  snapshot, restore, stop, start and change leader in between. The specification is one map:
  an acknowledged write changes it when it returns, a failed one may still do so later, once,
  or never; a linearizable read sees the map as it is, a local one a value that its key had at
  some moment. The simulation shows that every history of the cluster is one of that map.
\<close>

section \<open>Write calls\<close>

datatype write_call =
    WriteSet time bytes bytes "SetOption list"
  | WriteDelete bytes
  | WriteBatch "nat \<Rightarrow> time" "Mutation list"

fun call_write ::
    "('b,'t,'v,'i,'m) badger_api \<Rightarrow> 'r raft_api \<Rightarrow> gob_registry \<Rightarrow> write_call \<Rightarrow> ('b,'r,'o) DB \<Rightarrow>
     ('b,'r,'o) DB \<times> gerror option" where
  "call_write B R reg (WriteSet now key v opts) db = SetBytes B R reg now db key v opts"
| "call_write B R reg (WriteDelete key) db = DeleteBytes B R reg db key"
| "call_write B R reg (WriteBatch clock ms) db = Batch B R reg clock db ms"

text \<open>What the caller asks for, on the map.\<close>

fun asked :: "write_call \<Rightarrow> kv \<Rightarrow> kv" where
  "asked (WriteSet now key v opts) m =
     (case resolveSetOptions now opts of Inl e \<Rightarrow> m | Inr x \<Rightarrow> m(key \<mapsto> (v, x)))"
| "asked (WriteDelete key) m = m(key := None)"
| "asked (WriteBatch clock ms) m = mutate_all clock 0 ms m"

text \<open>The command a call submits, if its arguments are valid and there is anything to do.\<close>

fun write_command :: "write_call \<Rightarrow> command option" where
  "write_command (WriteSet now key v opts) =
     (if key = [] then None
      else case resolveSetOptions now opts of Inl e \<Rightarrow> None | Inr x \<Rightarrow> Some (set_command key v x))"
| "write_command (WriteDelete key) =
     (if key = [] then None else Some \<lparr>cmd_Pairs = [], cmd_Deletes = [key]\<rparr>)"
| "write_command (WriteBatch clock ms) =
     (if ms = [] then None
      else case batch_command clock ms of Inl e \<Rightarrow> None | Inr cmd \<Rightarrow> Some cmd)"

lemma call_write_command:
  "write_command c = Some cmd \<Longrightarrow> call_write B R reg c db = DB_apply B R reg db cmd"
  by (cases c)
    (auto simp: SetBytes_def DeleteBytes_def Batch_def set_command_def DB_apply_def
      split: if_splits sum.splits option.splits)

lemma call_write_nothing:
  "write_command c = None \<Longrightarrow> \<exists>r. call_write B R reg c db = (db, r) \<and> (r = None \<longrightarrow> asked c = id)"
  by (cases c) (auto simp: SetBytes_def DeleteBytes_def Batch_def fun_eq_iff split: if_splits sum.splits option.splits)

lemma asked_command: "write_command c = Some cmd \<Longrightarrow> apply_command cmd m = asked c m"
  by (cases c)
    (auto simp: set_command_def batch_command_def apply_command_def apply_pairs_def apply_deletes_def
      dest!: batch_loop_sequential [where s = m] split: if_splits sum.splits)

text \<open>Batches within the decoder's limit of about nineteen million mutations.\<close>

fun sized :: "write_call \<Rightarrow> bool" where
  "sized (WriteBatch clock ms) \<longleftrightarrow> length ms * 56 \<le> tooBig"
| "sized c \<longleftrightarrow> True"

lemma sized_command: "sized c \<Longrightarrow> write_command c = Some cmd \<Longrightarrow> command_fits cmd"
proof (cases c)
  case (WriteBatch clock ms)
  assume "sized c" and "write_command c = Some cmd"
  with WriteBatch have "length ms * 56 \<le> tooBig" "batch_loop clock 0 {} [] [] ms = Inr cmd"
    by (auto simp: batch_command_def split: if_splits sum.splits)
  moreover from this(2) have "length (cmd_Pairs cmd) + length (cmd_Deletes cmd) = length ms"
    by (auto dest: batch_loop_length)
  ultimately show ?thesis by (simp add: command_fits_def)
next
  case (WriteSet now key v opts)
  assume "write_command c = Some cmd"
  with WriteSet show ?thesis by (auto split: if_splits sum.splits)
next
  case (WriteDelete key)
  assume "write_command c = Some cmd"
  with WriteDelete show ?thesis by (auto simp: command_fits_def tooBig_def split: if_splits)
qed

section \<open>The specification\<close>

datatype event =
    Wrote write_call "gerror option"
  | Got time bytes "gerror + bytes"
  | Scanned time bytes ScanOptions "(gerror + Entry list) option"
  | GotLocal nat time bytes "gerror + bytes"

text \<open>The answers a map allows to a point read and to a scan at a clock.\<close>

definition answers :: "time \<Rightarrow> kv \<Rightarrow> bytes \<Rightarrow> gerror + bytes \<Rightarrow> bool" where
  "answers now m key r \<longleftrightarrow>
     (case r of
        Inr x \<Rightarrow> live now m key = Some x
      | Inl e \<Rightarrow> errors_is e ErrKeyNotFound \<longrightarrow> live now m key = None)"

definition lists :: "time \<Rightarrow> kv \<Rightarrow> bytes \<Rightarrow> ScanOptions \<Rightarrow> (gerror + Entry list) option \<Rightarrow> bool" where
  "lists now m pre opts r \<longleftrightarrow>
     (case r of
        None \<Rightarrow> False
      | Some (Inl e) \<Rightarrow> True
      | Some (Inr es) \<Rightarrow>
          (\<exists>limit. resolveLimit opts = Inr limit \<and>
             map entry_Key es = scan_take limit (sorted_list_of_set (prefix_keys pre (live now m))) \<and>
             (\<forall>e \<in> set es. live now m (entry_Key e) = Some (entry_Value e))))"

text \<open>
  \<open>kv_spec es hs P\<close>: the events \<open>es\<close> are explained by a map that went through the states \<open>hs\<close>
  (the last is the present one), and the failed writes \<open>P\<close> may still take effect.
\<close>

inductive kv_spec :: "event list \<Rightarrow> kv list \<Rightarrow> write_call multiset \<Rightarrow> bool" where
  nothing: "kv_spec [] [Map.empty] {#}"
| acknowledged: "kv_spec (es @ [Wrote c None]) (hs @ [asked c (last hs)]) P" if "kv_spec es hs P"
| idle: "kv_spec (es @ [Wrote c None]) hs P" if "kv_spec es hs P" and "asked c = id"
| failed: "kv_spec (es @ [Wrote c (Some e)]) hs P" if "kv_spec es hs P"
| unknown: "kv_spec (es @ [Wrote c (Some e)]) hs (add_mset c P)" if "kv_spec es hs P"
| late: "kv_spec es (hs @ [asked c (last hs)]) P" if "kv_spec es hs (add_mset c P)"
| refused: "kv_spec es (hs @ [last hs]) P" if "kv_spec es hs (add_mset c P)"
| read: "kv_spec (es @ [Got now key r]) hs P" if "kv_spec es hs P" and "answers now (last hs) key r"
| scan: "kv_spec (es @ [Scanned now pre opts r]) hs P"
  if "kv_spec es hs P" and "lists now (last hs) pre opts r"
| local: "kv_spec (es @ [GotLocal i now key r]) hs P"
  if "kv_spec es hs P" and "i \<le> j" and "j < length hs" and "answers now (hs ! j) key r"

section \<open>Handing out entries\<close>

text \<open>The entries that Raft hands to a node's FSM while a call waits, and Raft's own moves.\<close>

definition raft_moved :: "('b,'r,'o,'d) replica \<Rightarrow> 'r \<Rightarrow> ('b,'r,'o,'d) replica" where
  "raft_moved r x = r\<lparr>rep_db := (rep_db r)\<lparr>db_raft := x\<rparr>\<rparr>"

fun hand_out ::
    "('b,'t,'v,'i,'m) badger_api \<Rightarrow> ('b,'r,'o,'d) replica \<Rightarrow> raft_log list \<Rightarrow> ('b,'r,'o,'d) replica" where
  "hand_out B r [] = r"
| "hand_out B r (l # ls) =
     (let (db', resp) = fsm_Apply B (rep_db r) l in
      hand_out B (r\<lparr>rep_db := db', rep_pos := Suc (rep_pos r),
        rep_health := (if harmless B l resp then rep_health r else miss (rep_health r))\<rparr>) ls)"

lemma hand_out_fields [simp]:
  "rep_db (hand_out B r ls) = fst (fsm_run B (rep_db r) ls)"
  "rep_pos (hand_out B r ls) = rep_pos r + length ls"
  "rep_world (hand_out B r ls) = rep_world r"
  by (induction ls arbitrary: r) (auto split: prod.split)

lemma raft_moved_fields [simp]:
  "rep_db (raft_moved r x) = (rep_db r)\<lparr>db_raft := x\<rparr>" "rep_pos (raft_moved r x) = rep_pos r"
  "rep_world (raft_moved r x) = rep_world r" "rep_health (raft_moved r x) = rep_health r"
  by (simp_all add: raft_moved_def)

lemma raft_moved_inv [simp]: "node_inv B SG t log (raft_moved r x) = node_inv B SG t log r"
  by (simp add: node_inv_def past_inv_def restorable_def serves_def in_place_def cong: option.case_cong)

lemma hand_out_inv:
  assumes D: "deps_ok B G S SG"
  shows "node_inv B SG t log r \<Longrightarrow> prefix ls (drop (rep_pos r) log) \<Longrightarrow> node_inv B SG t log (hand_out B r ls)"
proof (induction ls arbitrary: r)
  case (Cons l ls)
  obtain db' resp where run: "fsm_Apply B (rep_db r) l = (db', resp)" by fastforce
  from Cons.prems(2) have pos: "rep_pos r < length log"
    by (cases "rep_pos r < length log") simp_all
  then have "drop (rep_pos r) log = log ! rep_pos r # drop (Suc (rep_pos r)) log"
    by (simp add: Cons_nth_drop_Suc)
  with Cons.prems(2) have l: "l = log ! rep_pos r" and ls: "prefix ls (drop (Suc (rep_pos r)) log)"
    by auto
  from Cons.IH [OF deliver_node [OF D Cons.prems(1) pos l run]] ls run show ?case by simp
qed simp

section \<open>Histories of the cluster\<close>

text \<open>
  What Raft does with a submission. The entry is committed (\<open>new\<close> is what the log gains) or
  not; the FSM is handed the next entries in order; a future without an error means that the
  entry was committed and everything up to it handed out.
\<close>

definition raft_commits :: "raft_log list \<Rightarrow> nat \<Rightarrow> bytes \<Rightarrow> 'r raft_outcome \<Rightarrow> raft_log list \<Rightarrow> bool" where
  "raft_commits log pos data out new \<longleftrightarrow>
     (new = [] \<or> (\<exists>l. new = [l] \<and> log_Data l = data)) \<and>
     prefix (ro_logs out) (drop pos (log @ new)) \<and>
     (ro_err out = None \<longrightarrow> new \<noteq> [] \<and> ro_logs out = drop pos (log @ new))"

text \<open>A barrier without an error means that all committed entries were handed out.\<close>

definition raft_waits :: "raft_log list \<Rightarrow> nat \<Rightarrow> 'r raft_outcome \<Rightarrow> bool" where
  "raft_waits log pos out \<longleftrightarrow>
     prefix (ro_logs out) (drop pos log) \<and> (ro_err out = None \<longrightarrow> ro_logs out = drop pos log)"

text \<open>What a call gives to Raft, if it gets that far.\<close>

definition submits ::
    "'r raft_api \<Rightarrow> gob_registry \<Rightarrow> write_call \<Rightarrow> ('b,'r,'o) DB \<Rightarrow> (bytes \<times> 'r raft_outcome) option" where
  "submits R reg c db =
     (case write_command c of
        None \<Rightarrow> None
      | Some cmd \<Rightarrow>
          if db_closed db \<or> r_State R (db_raft db) \<noteq> RS_Leader then None
          else (case encodeCommand reg cmd of
                  Inl e \<Rightarrow> None
                | Inr data \<Rightarrow>
                    Some (data, r_Apply R (db_raft db) data (adv_ApplyTimeout (cfg_Advanced (db_cfg db))))))"

definition read_waits :: "'r raft_api \<Rightarrow> ReadOptions \<Rightarrow> ('b,'r,'o) DB \<Rightarrow> 'r raft_outcome option" where
  "read_waits R ro db =
     (if ro_Timeout ro < 0 \<or> db_closed db \<or> r_State R (db_raft db) \<noteq> RS_Leader then None
      else Some (r_Barrier R (db_raft db) (timeoutOr ro (adv_ApplyTimeout (cfg_Advanced (db_cfg db))))))"

text \<open>
  \<open>client_run es C P\<close>: the events \<open>es\<close> led to the cluster \<open>C\<close>, and the submissions \<open>P\<close> failed
  without being committed so far. Clocks of reads are not before those
  of the backups taken so far, which may have left out what had expired by then. Reads are recorded on nodes that are in step with
  the log, local ones also on nodes that missed entries.
\<close>

inductive client_run ::
    "('b,'t,'v,'i,'m) badger_api \<Rightarrow> ('b,'o,'d,'s) storage_api \<Rightarrow> 'r raft_api \<Rightarrow> (nat \<Rightarrow> 'd faults) \<Rightarrow>
     gob_registry \<Rightarrow> ('b,'r,'o,'d,'s) cluster \<Rightarrow>
     event list \<Rightarrow> ('b,'r,'o,'d,'s) cluster \<Rightarrow> write_call multiset \<Rightarrow> bool"
  for B S R F reg C0 where
  begins: "client_run B S R F reg C0 [] C0 {#}"
| inside: "client_run B S R F reg C0 es C' P"
  if "client_run B S R F reg C0 es C P" and "cluster_step B S R F C C'" and "cl_log C' = cl_log C"
| moves: "client_run B S R F reg C0 es (set_node C n (raft_moved (cl_node C n) x)) P"
  if "client_run B S R F reg C0 es C P"
| late_commit: "client_run B S R F reg C0 es (C\<lparr>cl_log := cl_log C @ [l]\<rparr>) P"
  if "client_run B S R F reg C0 es C (add_mset c P)" and "write_command c = Some cmd"
    and "encodeCommand reg cmd = Inr (log_Data l)"
| write_refused: "client_run B S R F reg C0 (es @ [Wrote c resp]) C P"
  if "client_run B S R F reg C0 es C P" and "submits R reg c (rep_db (cl_node C n)) = None"
    and "call_write B R reg c (rep_db (cl_node C n)) = (db', resp)"
| write_sent: "client_run B S R F reg C0 (es @ [Wrote c resp])
      ((set_node C n (hand_out B (raft_moved r (ro_raft out)) (ro_logs out)))\<lparr>cl_log := cl_log C @ new\<rparr>)
      (if new = [] then add_mset c P else P)"
  if "client_run B S R F reg C0 es C P" and "r = cl_node C n"
    and "submits R reg c (rep_db r) = Some (data, out)" and "raft_commits (cl_log C) (rep_pos r) data out new"
    and "call_write B R reg c (rep_db r) = (db', resp)" and "sized c"
| get_refused: "client_run B S R F reg C0 (es @ [Got now key res]) C P"
  if "client_run B S R F reg C0 es C P" and "ro_Mode ro = ReadLinearizable"
    and "key = [] \<or> read_waits R ro (rep_db (cl_node C n)) = None"
    and "GetBytes B R now (rep_db (cl_node C n)) key ro = (db', res)"
| get: "client_run B S R F reg C0 (es @ [Got now key res]) (set_node C n r') P"
  if "client_run B S R F reg C0 es C P" and "r = cl_node C n" and "ro_Mode ro = ReadLinearizable"
    and "key \<noteq> []" and "read_waits R ro (rep_db r) = Some out" and "raft_waits (cl_log C) (rep_pos r) out"
    and "r' = hand_out B (raft_moved r (ro_raft out)) (ro_logs out)" and "rep_health r' = Synced" and "cl_clock C \<le> now"
    and "GetBytes B R now (rep_db r) key ro = (db', res)"
| scan: "client_run B S R F reg C0 (es @ [Scanned now pre opts res]) (set_node C n r') P"
  if "client_run B S R F reg C0 es C P" and "r = cl_node C n"
    and "ro_Mode (so_Read opts) = ReadLinearizable" and "resolveLimit opts = Inr limit"
    and "read_waits R (so_Read opts) (rep_db r) = Some out" and "raft_waits (cl_log C) (rep_pos r) out"
    and "r' = hand_out B (raft_moved r (ro_raft out)) (ro_logs out)" and "rep_health r' = Synced" and "cl_clock C \<le> now"
    and "ScanPrefixBytes B R now (rep_db r) pre opts = (db', res)"
| get_local: "client_run B S R F reg C0 (es @ [GotLocal i now key res]) C P"
  if "client_run B S R F reg C0 es C P" and "r = cl_node C n" and "ro_Mode ro = ReadLocal"
    and "rep_health r \<noteq> Lost" and "i = (if rep_health r = Synced then rep_pos r else 0)" and "cl_clock C \<le> now"
    and "GetBytes B R now (rep_db r) key ro = (db', res)"

section \<open>What the calls do to the node\<close>

lemma write_submitted:
  assumes "submits R reg c db = Some (data, out)"
    and "fsm_run B (db\<lparr>db_raft := ro_raft out\<rparr>) (ro_logs out) = (db', rs)"
  shows "call_write B R reg c db =
     (db', case ro_err out of Some e \<Rightarrow> Some (raft_err R db' e) | None \<Rightarrow> if rs = [] then None else last rs)"
  using assms
  by (auto simp: submits_def call_write_command DB_apply_def guard_simps Let_def
      split: option.splits if_splits sum.splits)

lemma write_not_submitted:
  assumes "submits R reg c db = None"
  shows "\<exists>r. call_write B R reg c db = (db, r) \<and> (r = None \<longrightarrow> asked c = id)"
proof (cases "write_command c")
  case None
  then show ?thesis by (rule call_write_nothing)
next
  case (Some cmd)
  with assms show ?thesis
    by (auto simp: submits_def call_write_command DB_apply_def checkOpen_def split: if_splits sum.splits)
qed

lemma read_waited:
  assumes "read_waits R ro db = Some out" and "ro_Mode ro = ReadLinearizable"
    and "fsm_run B (db\<lparr>db_raft := ro_raft out\<rparr>) (ro_logs out) = (db', rs)"
  shows "prepareRead B R db ro = (db', map_option (raft_err R db') (ro_err out))"
  using assms by (auto simp: read_waits_def prepareRead_def Barrier_def guard_simps Let_def split: if_splits)

lemma read_not_waited:
  assumes "read_waits R ro db = None" and "ro_Mode ro = ReadLinearizable"
  shows "\<exists>e. prepareRead B R db ro = (db, Some e) \<and> \<not> errors_is e ErrKeyNotFound"
  using assms by (auto simp: read_waits_def prepareRead_def checkOpen_def split: if_splits)

lemma submits_command:
  assumes "submits R reg c db = Some (data, out)"
  obtains cmd where "write_command c = Some cmd" and "encodeCommand reg cmd = Inr data"
  using assms by (auto simp: submits_def split: option.splits if_splits sum.splits)

section \<open>The invariant along a history\<close>

lemma set_node_log: "(set_node C n r)\<lparr>cl_log := log\<rparr> = set_node (C\<lparr>cl_log := log\<rparr>) n r"
  by (simp add: set_node_def)

lemma cluster_inv_handed:
  assumes D: "deps_ok B G S SG" and inv: "cluster_inv B SG C"
    and ls: "prefix ls (drop (rep_pos (cl_node C n)) (cl_log C))"
  shows "cluster_inv B SG (set_node C n (hand_out B (raft_moved (cl_node C n) x) ls))"
proof -
  have "node_inv B SG (cl_clock C) (cl_log C) (raft_moved (cl_node C n) x)" using inv by (simp add: cluster_inv_def)
  from hand_out_inv [OF D this] ls show ?thesis by (intro cluster_inv_forward [OF inv]) simp_all
qed

lemma client_run_inv:
  assumes D: "deps_ok B G S SG" and new: "new_cluster SG C0" and run: "client_run B S R F reg C0 es C P"
  shows "cluster_inv B SG C"
  using run
proof induction
  case begins
  then show ?case by (rule new_cluster_inv [OF new])
next
  case (inside es C P C')
  then show ?case by (blast intro: cluster_step_inv [OF D])
next
  case (moves es C P n x)
  then show ?case using cluster_inv_handed [OF D moves.IH, of "[]" n x] by simp
next
  case (late_commit es C c P cmd l)
  then show ?case by (blast intro: cluster_inv_commit)
next
  case (write_sent es C P r n c data out new db' resp)
  have "new = [] \<or> (\<exists>l. new = [l])" using write_sent.hyps(4) by (auto simp: raft_commits_def)
  then have "cluster_inv B SG (C\<lparr>cl_log := cl_log C @ new\<rparr>)"
    using write_sent.IH by (auto intro: cluster_inv_commit)
  from cluster_inv_handed [OF D this, of "ro_logs out" n "ro_raft out"] write_sent.hyps(2,4) show ?case
    by (simp add: raft_commits_def set_node_log)
next
  case (get es C P r n ro key out r' now db' res)
  then show ?case using cluster_inv_handed [OF D get.IH] by (simp add: raft_waits_def)
next
  case (scan es C P r n opts limit out r' now pre db' res)
  then show ?case using cluster_inv_handed [OF D scan.IH] by (simp add: raft_waits_def)
qed

lemma client_run_pending: "client_run B S R F reg C0 es C P \<Longrightarrow> c \<in># P \<Longrightarrow> sized c"
  by (induction rule: client_run.induct) (auto split: if_splits)

text \<open>What a node shows of a key, and what it shows as a whole once it is at the end of the log.\<close>

lemma shown_since:
  assumes inv: "cluster_inv B SG C" and n: "rep_health (cl_node C n) \<noteq> Lost"
    and i: "i = (if rep_health (cl_node C n) = Synced then rep_pos (cl_node C n) else 0)"
  obtains m where "serves SG (rep_db (cl_node C n)) (rep_world (cl_node C n)) m"
    and "\<And>k. \<exists>j \<ge> i. j \<le> length (cl_log C) \<and> seen_same (cl_clock C) (m k) (log_map B (take j (cl_log C)) k)"
proof -
  from inv have "node_inv B SG (cl_clock C) (cl_log C) (cl_node C n)" by (simp add: cluster_inv_def)
  then obtain m where m: "serves SG (rep_db (cl_node C n)) (rep_world (cl_node C n)) m"
    and "conforms B (cl_clock C) (cl_log C) (rep_health (cl_node C n)) (rep_pos (cl_node C n)) m"
    by (auto simp: node_inv_def)
  with n i have "shows_since (entry_step B) (seen_same (cl_clock C)) (cl_log C) Map.empty i m"
    by (cases "rep_health (cl_node C n)") (auto simp: conforms_def)
  with that [OF m] show ?thesis by (auto simp: shows_since_def log_map_def)
qed

lemma shown_at_end:
  assumes inv: "cluster_inv B SG C" and "rep_health (cl_node C n) = Synced"
    and "rep_pos (cl_node C n) = length (cl_log C)" and "contents G = g_contents SG" and "cl_clock C \<le> now"
    and m: "node_contents G (rep_db (cl_node C n)) = Some m"
  shows "live now m = live now (log_map B (cl_log C))"
proof -
  obtain m' where "serves SG (rep_db (cl_node C n)) (rep_world (cl_node C n)) m'"
    and *: "\<And>k. \<exists>j \<ge> length (cl_log C). j \<le> length (cl_log C) \<and> seen_same (cl_clock C) (m' k) (log_map B (take j (cl_log C)) k)"
    by (rule shown_since [OF inv, of n "length (cl_log C)"]) (use assms in auto)
  then have "m' = m" using m assms(4) by (auto simp: serves_def node_contents_def split: option.splits)
  with * have "seen_same (cl_clock C) (m k) (log_map B (cl_log C) k)" for k
    by (metis le_antisym take_all order_refl)
  with assms(5) show ?thesis by (simp add: seen_same_live fun_eq_iff)
qed

section \<open>The simulation\<close>

text \<open>The states the log went through.\<close>

definition hist :: "('b,'t,'v,'i,'m) badger_api \<Rightarrow> raft_log list \<Rightarrow> kv list" where
  "hist B log = map (\<lambda>j. log_map B (take j log)) [0..<Suc (length log)]"

lemma hist_Nil [simp]: "hist B [] = [Map.empty]"
  by (simp add: hist_def log_map_def)

lemma hist_length [simp]: "length (hist B log) = Suc (length log)"
  by (simp add: hist_def)

lemma hist_nth [simp]: "j \<le> length log \<Longrightarrow> hist B log ! j = log_map B (take j log)"
  by (simp add: hist_def del: upt_Suc)

lemma hist_last [simp]: "last (hist B log) = log_map B log"
  by (simp add: hist_def)

lemma hist_snoc: "hist B (log @ [l]) = hist B log @ [entry_step B l (log_map B log)]"
  by (simp add: hist_def log_map_def)

lemma entry_step_asked:
  assumes "wf_registry reg" and "sized c" and "write_command c = Some cmd"
    and "encodeCommand reg cmd = Inr (log_Data l)"
  shows "entry_step B l m = (if refuses B cmd then m else asked c m)"
  using decode_encode [OF assms(1) sized_command [OF assms(2,3)] assms(4)] asked_command [OF assms(3)]
  by (simp add: entry_step_def entry_effect_def apply_command_effect [symmetric])
    (simp add: apply_writes_def fun_eq_iff)

text \<open>Raft's own errors are not this package's.\<close>

definition raft_foreign :: "'r raft_api \<Rightarrow> sentinel \<Rightarrow> bool" where
  "raft_foreign R s \<longleftrightarrow> (\<forall>r t e. ro_err (r_Barrier R r t) = Some e \<longrightarrow> \<not> errors_is e s)"

lemma getBytes_answers:
  assumes "get_ok B G" and "foreign_errors B ErrKeyNotFound"
    and "\<And>m. node_contents G db = Some m \<Longrightarrow> live now m key = live now m' key"
  shows "answers now m' key (getBytes B now db key)"
proof (cases "getBytes B now db key")
  case (Inr x)
  from getBytes_value [OF assms(1) Inr] assms(3) show ?thesis by (auto simp: answers_def Inr)
next
  case (Inl e)
  show ?thesis
  proof (cases "node_contents G db")
    case None
    then have "e = Sentinel ErrClosed"
      using Inl by (simp add: getBytes_unavailable node_contents_def)
    with Inl show ?thesis by (simp add: answers_def)
  next
    case (Some m)
    from getBytes_missing [OF assms(1,2) Some Inl] assms(3) [OF Some] Inl show ?thesis
      by (simp add: answers_def)
  qed
qed

lemma get_answers:
  assumes ok: "get_ok B G" "foreign_errors B ErrKeyNotFound" "raft_foreign R ErrKeyNotFound"
    and w: "read_waits R ro db = Some out" "ro_Mode ro = ReadLinearizable" "key \<noteq> []"
    and at_end: "\<And>m. ro_err out = None \<Longrightarrow> node_contents G (fst (fsm_run B (db\<lparr>db_raft := ro_raft out\<rparr>) (ro_logs out))) = Some m
      \<Longrightarrow> live now m key = live now m' key"
    and get: "GetBytes B R now db key ro = (db', res)"
  shows "answers now m' key res"
proof -
  obtain db1 rs where run: "fsm_run B (db\<lparr>db_raft := ro_raft out\<rparr>) (ro_logs out) = (db1, rs)" by fastforce
  note p = read_waited [OF w(1,2) run]
  show ?thesis
  proof (cases "ro_err out")
    case None
    with get p w(3) have "res = getBytes B now db1 key" by (auto simp: GetBytes_def)
    moreover have "answers now m' key (getBytes B now db1 key)"
      by (rule getBytes_answers [OF ok(1,2)]) (use at_end None run in simp)
    ultimately show ?thesis by simp
  next
    case (Some e)
    with w(1) ok(3) have "\<not> errors_is e ErrKeyNotFound"
      by (auto simp: read_waits_def raft_foreign_def split: if_splits)
    with Some get p w(3) show ?thesis
      by (auto simp: GetBytes_def answers_def raft_err_def split: if_splits)
  qed
qed

lemma scan_lists:
  assumes ok: "view_ok B G"
    and w: "read_waits R (so_Read opts) db = Some out" "ro_Mode (so_Read opts) = ReadLinearizable"
    and at_end: "\<And>m. ro_err out = None \<Longrightarrow> node_contents G (fst (fsm_run B (db\<lparr>db_raft := ro_raft out\<rparr>) (ro_logs out))) = Some m
      \<Longrightarrow> live now m = live now m'"
    and scan: "ScanPrefixBytes B R now db pre opts = (db', res)"
  shows "lists now m' pre opts res"
proof -
  obtain db1 rs where run: "fsm_run B (db\<lparr>db_raft := ro_raft out\<rparr>) (ro_logs out) = (db1, rs)" by fastforce
  note p = read_waited [OF w(1,2) run]
  obtain r where r: "res = Some r" and rest: "\<forall>es. r = Inr es \<longrightarrow>
      (\<exists>limit m. resolveLimit opts = Inr limit \<and> node_contents G db' = Some m \<and>
         map entry_Key es = scan_take limit (sorted_list_of_set (prefix_keys pre (live now m))) \<and>
         (\<forall>e \<in> set es. live now m (entry_Key e) = Some (entry_Value e)))"
    using ScanPrefixBytes_result [OF ok, of R now db pre opts] by (auto simp: scan)
  show ?thesis
  proof (cases r)
    case (Inl e)
    then show ?thesis by (simp add: lists_def r)
  next
    case (Inr es)
    with scan p r have "db' = db1" "ro_err out = None"
      by (auto simp: ScanPrefixBytes_def split: sum.splits option.splits)
    with at_end run rest Inr show ?thesis by (fastforce simp: lists_def r)
  qed
qed

lemma kv_late:
  assumes "wf_registry reg" and "sized c" and "write_command c = Some cmd"
    and "encodeCommand reg cmd = Inr (log_Data l)" and "kv_spec es (hist B log) (add_mset c P)"
  shows "kv_spec es (hist B (log @ [l])) P"
  using kv_spec.late [OF assms(5)] kv_spec.refused [OF assms(5)] entry_step_asked [OF assms(1-4), where B = B]
  by (cases "refuses B cmd") (simp_all add: hist_snoc)

lemma kv_write:
  assumes reg: "wf_registry reg" and c: "sized c" and pos: "pos \<le> length log"
    and sub: "submits R reg c db = Some (data, out)" and out: "raft_commits log pos data out new"
    and call: "call_write B R reg c db = (db', resp)" and spec: "kv_spec es (hist B log) P"
  shows "kv_spec (es @ [Wrote c resp]) (hist B (log @ new)) (if new = [] then add_mset c P else P)"
proof -
  obtain cmd where cmd: "write_command c = Some cmd" and enc: "encodeCommand reg cmd = Inr data"
    by (rule submits_command [OF sub])
  obtain db1 rs where run: "fsm_run B (db\<lparr>db_raft := ro_raft out\<rparr>) (ro_logs out) = (db1, rs)" by fastforce
  have resp: "resp = (case ro_err out of Some e \<Rightarrow> Some (raft_err R db1 e) | None \<Rightarrow> if rs = [] then None else last rs)"
    using write_submitted [OF sub run] call by simp
  show ?thesis
  proof (cases resp)
    case (Some e)
    have "kv_spec (es @ [Wrote c (Some e)]) (hist B log) (add_mset c P)" by (rule kv_spec.unknown [OF spec])
    with Some kv_late [OF reg c cmd, where B = B] enc out show ?thesis by (auto simp: raft_commits_def)
  next
    case None
    with resp have ok: "ro_err out = None" by (cases "ro_err out") simp_all
    with out obtain l where l: "new = [l]" "log_Data l = data" and logs: "ro_logs out = drop pos log @ [l]"
      using pos by (auto simp: raft_commits_def)
    have "\<not> refuses B cmd"
    proof
      assume "refuses B cmd"
      with fsm_run_last_refused [OF run [unfolded logs]] decode_encode [OF reg sized_command [OF c cmd]] enc l
      obtain e rs1 where "rs = rs1 @ [Some e]" by auto
      with resp ok None show False by simp
    qed
    then have "entry_step B l (log_map B log) = asked c (log_map B log)"
      using entry_step_asked [OF reg c cmd, of l B] enc l by simp
    with kv_spec.acknowledged [OF spec, of c] l None show ?thesis by (simp add: hist_snoc)
  qed
qed

lemma client_run_pos:
  assumes "cluster_inv B SG C"
  shows "rep_pos (cl_node C n) \<le> length (cl_log C)"
  using assms by (simp add: cluster_inv_def node_inv_def)

text \<open>At the end of a barrier that Raft confirmed, the node shows the map of the log.\<close>

lemma barrier_shows:
  assumes D: "deps_ok B G S SG" and inv: "cluster_inv B SG C" and r: "r = cl_node C n"
    and w: "raft_waits (cl_log C) (rep_pos r) out" and "r' = hand_out B (raft_moved r (ro_raft out)) (ro_logs out)"
    and "rep_health r' = Synced" and "cl_clock C \<le> now" and "ro_err out = None"
    and "node_contents G (fst (fsm_run B ((rep_db r)\<lparr>db_raft := ro_raft out\<rparr>) (ro_logs out))) = Some m"
  shows "live now m = live now (log_map B (cl_log C))"
proof -
  let ?C = "set_node C n r'"
  have "cluster_inv B SG ?C"
    using cluster_inv_handed [OF D inv, of "ro_logs out" n "ro_raft out"] assms(5) w r by (simp add: raft_waits_def)
  moreover have "rep_pos r' = length (cl_log C)"
    using w assms(5,8) client_run_pos [OF inv, of n] r by (simp add: raft_waits_def)
  ultimately have "live now m = live now (log_map B (cl_log ?C))"
    by (intro shown_at_end [where C = ?C and n = n, OF _ _ _ deps_okD(4) [OF D]])
      (use assms in \<open>simp_all add: set_node_def\<close>)
  then show ?thesis by (simp add: set_node_def)
qed

lemma local_answers:
  assumes D: "deps_ok B G S SG" and ok: "get_ok B G" "foreign_errors B ErrKeyNotFound"
    and inv: "cluster_inv B SG C" and n: "rep_health (cl_node C n) \<noteq> Lost"
    and i: "i = (if rep_health (cl_node C n) = Synced then rep_pos (cl_node C n) else 0)" and now: "cl_clock C \<le> now"
    and get: "GetBytes B R now (rep_db (cl_node C n)) key ro = (db', res)" "ro_Mode ro = ReadLocal"
  shows "\<exists>j. i \<le> j \<and> j \<le> length (cl_log C) \<and> answers now (log_map B (take j (cl_log C))) key res"
proof -
  let ?db = "rep_db (cl_node C n)"
  obtain m where m: "serves SG ?db (rep_world (cl_node C n)) m"
    and "\<And>k. \<exists>j \<ge> i. j \<le> length (cl_log C) \<and> seen_same (cl_clock C) (m k) (log_map B (take j (cl_log C)) k)"
    by (rule shown_since [OF inv n i]) blast
  then obtain j where j: "i \<le> j" "j \<le> length (cl_log C)"
    "seen_same (cl_clock C) (m key) (log_map B (take j (cl_log C)) key)" by blast
  have "answers now (log_map B (take j (cl_log C))) key (getBytes B now ?db key)"
    by (rule getBytes_answers [OF ok])
      (use m j(3) now deps_okD(4) [OF D] in \<open>auto simp: serves_def node_contents_def seen_same_live split: option.splits\<close>)
  moreover have "res = getBytes B now ?db key \<or> (\<exists>e. res = Inl e \<and> \<not> errors_is e ErrKeyNotFound)"
    using get by (auto simp: GetBytes_def prepareRead_def checkOpen_def mode_defs split: if_splits)
  ultimately show ?thesis using j(1,2) by (auto simp: answers_def)
qed

text \<open>The node recorded after a call is the one the call returned.\<close>

lemma write_sent_node:
  assumes "submits R reg c (rep_db r) = Some (data, out)" and "call_write B R reg c (rep_db r) = (db', resp)"
  shows "rep_db (hand_out B (raft_moved r (ro_raft out)) (ro_logs out)) = db'"
  using write_submitted [OF assms(1), of B] assms(2)
  by (cases "fsm_run B ((rep_db r)\<lparr>db_raft := ro_raft out\<rparr>) (ro_logs out)") simp

lemma get_node:
  assumes "read_waits R ro (rep_db r) = Some out" and "ro_Mode ro = ReadLinearizable" and "key \<noteq> []"
    and "GetBytes B R now (rep_db r) key ro = (db', res)"
  shows "rep_db (hand_out B (raft_moved r (ro_raft out)) (ro_logs out)) = db'"
  using read_waited [OF assms(1,2), of B] assms(3,4)
  by (cases "fsm_run B ((rep_db r)\<lparr>db_raft := ro_raft out\<rparr>) (ro_logs out)")
    (auto simp: GetBytes_def split: option.splits)


text \<open>A history: a write and a linearizable read on the leader, and a stale local read elsewhere.\<close>

definition sample_events :: "event list" where
  "sample_events =
     [Wrote (WriteSet 0 key_k val_v []) None, Got 0 key_k (Inr val_v),
      GotLocal 0 0 key_k (Inl (Sentinel ErrKeyNotFound))]"

lemma ref_raft_foreign: "s \<noteq> Raft_ErrNotLeader \<Longrightarrow> raft_foreign ref_raft s"
  by (auto simp: raft_foreign_def ref_raft_def ref_submit_def split: if_splits)

lemma sample_run:
  "\<exists>C. client_run ref_badger ref_storage ref_raft (\<lambda>n. no_faults) sample_registry first_cluster sample_events C {#}"
proof -
  let ?run = "client_run ref_badger ref_storage ref_raft (\<lambda>n. no_faults) sample_registry first_cluster"
  let ?c = "WriteSet 0 key_k val_v []" and ?d = "encoded (set_command key_k val_v 0)"
  let ?l = "\<lparr>log_Index = 2, log_Data = ?d\<rparr>" and ?raft = "sample_leader\<lparr>rn_Last := 2\<rparr>"
  let ?out = "\<lparr>ro_raft = ?raft, ro_logs = [?l], ro_err = None\<rparr>"
  define r1 where "r1 = hand_out ref_badger (raft_moved first_replica ?raft) [?l]"
  let ?C1 = "(set_node first_cluster 0 r1)\<lparr>cl_log := [?l]\<rparr>"
  have l: "?l = sample_log 2 (set_command key_k val_v 0)" by (simp add: sample_log_def)
  have sub: "submits ref_raft sample_registry ?c (rep_db first_replica) = Some (?d, ?out)"
    by (simp add: submits_def first_replica_def encodable_encode)
  have call: "call_write ref_badger ref_raft sample_registry ?c (rep_db first_replica) = (after_set 0, None)"
    by (simp add: first_replica_def SetBytes_sample)
  have db: "rep_db r1 = after_set 0" using write_sent_node [OF sub call] by (simp add: r1_def)
  have r1: "rep_health r1 = Synced" "rep_pos r1 = 1"
    unfolding r1_def l by (simp_all add: first_replica_def harmless_def)
  from client_run.write_sent [OF client_run.begins, of first_replica first_cluster 0 ref_raft sample_registry ?c ?d ?out
      "[?l]" ref_badger "after_set 0" None] sub call
  have run1: "?run [Wrote ?c None] ?C1 {#}" by (simp add: raft_commits_def r1_def)
  have w: "read_waits ref_raft ReadOptions_zero (after_set 0) =
      Some \<lparr>ro_raft = ?raft\<lparr>rn_Last := 3\<rparr>, ro_logs = [], ro_err = None\<rparr>"
    by (simp add: read_waits_def ReadOptions_zero_def ref_raft_def ref_submit_def)
  let ?C2 = "set_node ?C1 0 (raft_moved r1 (?raft\<lparr>rn_Last := 3\<rparr>))"
  have "?run ([Wrote ?c None] @ [Got 0 key_k (Inr val_v)]) ?C2 {#}"
    by (rule client_run.get [OF run1 _ _ _ w [folded db] _ _ _ _ after_set_linearizable [folded db]])
      (simp_all add: set_node_def raft_waits_def r1 ReadOptions_zero_def)
  then have run2: "?run [Wrote ?c None, Got 0 key_k (Inr val_v)] ?C2 {#}" by simp
  have "GetBytes ref_badger ref_raft 0 (rep_db first_replica) key_k local_read =
      (rep_db first_replica, Inl (Sentinel ErrKeyNotFound))"
    by (simp add: first_replica_def GetBytes_def getBytes_open ref_badger_def ref_view_at_def)
  from client_run.get_local [OF run2, of first_replica 1 local_read 0 0 key_k] this
  show ?thesis by (auto simp: sample_events_def set_node_def local_read_def)
qed


end
