(* ===== verification/Atomicity.thy ===== *)
theory Atomicity
  imports Restore_Steps Restore_Props
begin

text \<open>
  Why the rest of the development may treat every call on the store as one step. A restore and
  the closing of the store run action by action; any number of threads run \<open>withStore\<close> and
  \<open>Persist\<close> between the actions, as far as the lock \<open>storeMu\<close> lets them; the staging phase of a
  restore runs without the lock. Every reachable state is shown to be one that the whole calls
  reach one after the other, with the same results.
\<close>

section \<open>Whole calls\<close>

text \<open>
  The calls on the store with what they returned. The FSM also writes the applied index and the
  log, between its calls.
\<close>

datatype ('b, 's, 'a) store_event =
    Called "'b \<Rightarrow> 'b \<times> (gerror + 'a)" "gerror + 'a"
  | Persisted time "gerror option" "gerror option" "'s sink \<times> gerror option"
  | Indexed uint64
  | Logged gerror
  | Restored 's "gerror option"
  | StoreClosed "gerror option"

fun happens ::
    "('b,'o,'d,'s) storage_api \<Rightarrow> 'd faults \<Rightarrow> ('b,'s,'a) store_event \<Rightarrow>
     ('b,'r,'o) DB \<times> 'd world \<Rightarrow> ('b,'r,'o) DB \<times> 'd world \<Rightarrow> bool" where
  "happens S F (Called fn r) (db, w) dw' \<longleftrightarrow>
     (case withStore db fn of (db', r') \<Rightarrow> r' = r \<and> dw' = (db', w))"
| "happens S F (Persisted now ce cl out) (db, w) dw' \<longleftrightarrow> Persist S now FsmSnapshot db ce cl = out \<and> dw' = (db, w)"
| "happens S F (Indexed i) (db, w) dw' \<longleftrightarrow> dw' = (db\<lparr>db_appliedIndex := i\<rparr>, w)"
| "happens S F (Logged e) (db, w) dw' \<longleftrightarrow> dw' = (log_fsm db e, w)"
| "happens S F (Restored rc res) (db, w) dw' \<longleftrightarrow> fsm_Restore S F (db, w) rc = (dw', res)"
| "happens S F (StoreClosed res) (db, w) dw' \<longleftrightarrow> closeStore S (db, w) = (dw', res)"

fun in_turn ::
    "('b,'o,'d,'s) storage_api \<Rightarrow> 'd faults \<Rightarrow> ('b,'s,'a) store_event list \<Rightarrow>
     ('b,'r,'o) DB \<times> 'd world \<Rightarrow> ('b,'r,'o) DB \<times> 'd world \<Rightarrow> bool" where
  "in_turn S F [] dw dw' \<longleftrightarrow> dw' = dw"
| "in_turn S F (ev # evs) dw dw' \<longleftrightarrow> (\<exists>dw1. happens S F ev dw dw1 \<and> in_turn S F evs dw1 dw')"

lemma in_turn_snoc:
  "in_turn S F evs dw dw1 \<Longrightarrow> happens S F ev dw1 dw' \<Longrightarrow> in_turn S F (evs @ [ev]) dw dw'"
proof (induction evs arbitrary: dw)
  case Nil
  then show ?case by (cases dw') simp
next
  case (Cons e evs)
  then show ?case by (metis append_Cons in_turn.simps(2))
qed

section \<open>Threads\<close>

text \<open>
  Where a thread is. For \<open>withStore\<close>: past the open check, holding the lock in shared mode,
  done with the callback. For \<open>Persist\<close> the same without the check. For a restore: the rest
  of its staging, waiting for the lock, the rest of its swap. For \<open>Close\<close>: the flag is set and
  Raft is being stopped, waiting for the lock, the rest of \<open>closeStore\<close>.
\<close>

datatype ('b, 'r, 'o, 'd, 's, 'a) job =
    JIdle
  | JEnter "'b \<Rightarrow> 'b \<times> (gerror + 'a)"
  | JHold "'b \<Rightarrow> 'b \<times> (gerror + 'a)"
  | JPersistWait time "gerror option" "gerror option"
  | JPersist time "gerror option" "gerror option"
  | JLeave
  | JStage 's "('d world, (string \<times> gerror) option) prog"
  | JSwapWait 's
  | JSwap 's "(('b,'r,'o) DB \<times> 'd world, (string \<times> gerror) option) prog"
  | JStopping
  | JShutWait
  | JShut "(('b,'r,'o) DB \<times> 'd world, gerror option) prog"

text \<open>
  The node, its files, the lock, and the calls so far, each entered when it takes effect. The
  flag \<open>closed\<close> is an atomic of its own, set and read without the lock: it is kept here and
  not in the record of the node, where \<open>db_closed\<close> stays false.
\<close>

record ('b, 'r, 'o, 'd, 's, 'a) conc =
  c_db :: "('b,'r,'o) DB"
  c_world :: "'d world"
  c_closed :: bool
  c_stopped :: bool
  c_readers :: "nat set"
  c_writer :: "nat option"
  c_job :: "nat \<Rightarrow> ('b,'r,'o,'d,'s,'a) job"
  c_hist :: "('b,'s,'a) store_event list"

definition goes :: "nat \<Rightarrow> ('b,'r,'o,'d,'s,'a) job \<Rightarrow> ('b,'r,'o,'d,'s,'a) conc \<Rightarrow> ('b,'r,'o,'d,'s,'a) conc" where
  "goes t j c = c\<lparr>c_job := (c_job c)(t := j)\<rparr>"

definition enters :: "('b,'s,'a) store_event \<Rightarrow> ('b,'r,'o,'d,'s,'a) conc \<Rightarrow> ('b,'r,'o,'d,'s,'a) conc" where
  "enters ev c = c\<lparr>c_hist := c_hist c @ [ev]\<rparr>"

fun restoring :: "('b,'r,'o,'d,'s,'a) job \<Rightarrow> bool" where
  "restoring (JStage rc p) = True"
| "restoring (JSwapWait rc) = True"
| "restoring (JSwap rc p) = True"
| "restoring _ = False"

text \<open>The programs a restore runs on this node.\<close>

definition staging :: "('b,'o,'d,'s) storage_api \<Rightarrow> 'd faults \<Rightarrow> ('b,'r,'o) DB \<Rightarrow> 's \<Rightarrow>
    ('d world, (string \<times> gerror) option) prog" where
  "staging S F db rc = stage_prog S F (db_badgerOpts db) (stagingDir_of (db_badgerDir db)) rc"

definition swapping :: "('b,'o,'d,'s) storage_api \<Rightarrow> 'd faults \<Rightarrow> ('b,'r,'o) DB \<Rightarrow> 's \<Rightarrow>
    (('b,'r,'o) DB \<times> 'd world, (string \<times> gerror) option) prog" where
  "swapping S F db rc =
     (if in_place db then in_place_prog S F (db_badgerOpts db) (db_badgerDir db) rc
      else swap_prog S F (db_badgerOpts db) (db_badgerDir db) (stagingDir_of (db_badgerDir db))
        (backupDir_of (db_badgerDir db)))"

text \<open>
  One step of one thread. Raft runs one restore at a time and none while its FSM enters an
  index or logs, waits for the one under way when it is shut down, and starts none afterwards.
\<close>

inductive conc_step ::
    "('b,'o,'d,'s) storage_api \<Rightarrow> 'd faults \<Rightarrow> ('b,'r,'o,'d,'s,'a) conc \<Rightarrow> ('b,'r,'o,'d,'s,'a) conc \<Rightarrow> bool"
  for S F where
  check: "conc_step S F c (goes t (JEnter fn) c)"
  if "c_job c t = JIdle" and "\<not> c_closed c"
| rlock: "conc_step S F c (goes t (JHold fn) (c\<lparr>c_readers := insert t (c_readers c)\<rparr>))"
  if "c_job c t = JEnter fn" and "c_writer c = None"
| use: "conc_step S F c (enters (Called fn r) (goes t JLeave (c\<lparr>c_db := db'\<rparr>)))"
  if "c_job c t = JHold fn" and "withStore (c_db c) fn = (db', r)"
| persist: "conc_step S F c (goes t (JPersistWait now ce cl) c)"
  if "c_job c t = JIdle"
| persist_lock: "conc_step S F c (goes t (JPersist now ce cl) (c\<lparr>c_readers := insert t (c_readers c)\<rparr>))"
  if "c_job c t = JPersistWait now ce cl" and "c_writer c = None"
| backup: "conc_step S F c (enters (Persisted now ce cl (Persist S now FsmSnapshot (c_db c) ce cl)) (goes t JLeave c))"
  if "c_job c t = JPersist now ce cl"
| runlock: "conc_step S F c (goes t JIdle (c\<lparr>c_readers := c_readers c - {t}\<rparr>))"
  if "c_job c t = JLeave"
| index: "conc_step S F c (enters (Indexed i) (c\<lparr>c_db := (c_db c)\<lparr>db_appliedIndex := i\<rparr>\<rparr>))"
  if "\<not> c_stopped c" and "\<forall>u. \<not> restoring (c_job c u)"
| log: "conc_step S F c (enters (Logged e) (c\<lparr>c_db := log_fsm (c_db c) e\<rparr>))"
  if "\<not> c_stopped c" and "\<forall>u. \<not> restoring (c_job c u)"
| restore: "conc_step S F c
      (goes t (if in_place (c_db c) then JSwapWait rc else JStage rc (staging S F (c_db c) rc)) c)"
  if "c_job c t = JIdle" and "\<not> c_stopped c" and "\<forall>u. \<not> restoring (c_job c u)"
| stage: "conc_step S F c (goes t (JStage rc p) (c\<lparr>c_world := w'\<rparr>))"
  if "c_job c t = JStage rc (Act f)" and "f (c_world c) = (w', p)"
| stage_fails: "conc_step S F c (enters (Restored rc res) (goes t JIdle (c\<lparr>c_db := db'\<rparr>)))"
  if "c_job c t = JStage rc (Ret (Some e))" and "report ((c_db c, c_world c), Some e) = ((db', w'), res)"
| staged: "conc_step S F c (goes t (JSwapWait rc) c)"
  if "c_job c t = JStage rc (Ret None)"
| swap_lock: "conc_step S F c (goes t (JSwap rc (swapping S F (c_db c) rc)) (c\<lparr>c_writer := Some t\<rparr>))"
  if "c_job c t = JSwapWait rc" and "c_writer c = None" and "c_readers c = {}"
| swap: "conc_step S F c (goes t (JSwap rc p) (c\<lparr>c_db := db', c_world := w'\<rparr>))"
  if "c_job c t = JSwap rc (Act f)" and "f (c_db c, c_world c) = ((db', w'), p)"
| swap_ends: "conc_step S F c (enters (Restored rc res) (goes t JIdle (c\<lparr>c_db := db', c_writer := None\<rparr>)))"
  if "c_job c t = JSwap rc (Ret x)" and "report ((c_db c, c_world c), x) = ((db', w'), res)"
| flag: "conc_step S F c (goes t JStopping (c\<lparr>c_closed := True\<rparr>))"
  if "c_job c t = JIdle" and "\<not> c_closed c"
| stopped: "conc_step S F c (goes t JShutWait (c\<lparr>c_stopped := True\<rparr>))"
  if "c_job c t = JStopping" and "\<forall>u. \<not> restoring (c_job c u)"
| shut_lock: "conc_step S F c (goes t (JShut (close_prog S)) (c\<lparr>c_writer := Some t\<rparr>))"
  if "c_job c t = JShutWait" and "c_writer c = None" and "c_readers c = {}"
| shut: "conc_step S F c (goes t (JShut p) (c\<lparr>c_db := db', c_world := w'\<rparr>))"
  if "c_job c t = JShut (Act f)" and "f (c_db c, c_world c) = ((db', w'), p)"
| shut_ends: "conc_step S F c (enters (StoreClosed res) (goes t JIdle (c\<lparr>c_writer := None\<rparr>)))"
  if "c_job c t = JShut (Ret res)"

definition conc_init :: "('b,'r,'o) DB \<Rightarrow> 'd world \<Rightarrow> ('b,'r,'o,'d,'s,'a) conc" where
  "conc_init db w =
     \<lparr>c_db = db, c_world = w, c_closed = False, c_stopped = False, c_readers = {}, c_writer = None,
      c_job = (\<lambda>t. JIdle), c_hist = []\<rparr>"

inductive conc_reach ::
    "('b,'o,'d,'s) storage_api \<Rightarrow> 'd faults \<Rightarrow> ('b,'r,'o) DB \<Rightarrow> 'd world \<Rightarrow> ('b,'r,'o,'d,'s,'a) conc \<Rightarrow> bool"
  for S F db w where
  opened: "conc_reach S F db w (conc_init db w)"
| step: "conc_reach S F db w c \<Longrightarrow> conc_step S F c c' \<Longrightarrow> conc_reach S F db w c'"

section \<open>The lock\<close>

fun sharing :: "('b,'r,'o,'d,'s,'a) job \<Rightarrow> bool" where
  "sharing (JHold fn) = True"
| "sharing (JPersist now ce cl) = True"
| "sharing JLeave = True"
| "sharing _ = False"

fun exclusive :: "('b,'r,'o,'d,'s,'a) job \<Rightarrow> bool" where
  "exclusive (JSwap rc p) = True"
| "exclusive (JShut p) = True"
| "exclusive _ = False"

fun shutting :: "('b,'r,'o,'d,'s,'a) job \<Rightarrow> bool" where
  "shutting JShutWait = True"
| "shutting (JShut p) = True"
| "shutting _ = False"

definition conc_lock :: "('b,'r,'o,'d,'s,'a) conc \<Rightarrow> bool" where
  "conc_lock c \<longleftrightarrow>
     (\<forall>t. t \<in> c_readers c \<longleftrightarrow> sharing (c_job c t)) \<and>
     (\<forall>t. exclusive (c_job c t) \<longleftrightarrow> c_writer c = Some t) \<and>
     (c_writer c \<noteq> None \<longrightarrow> c_readers c = {}) \<and>
     (\<forall>t u. restoring (c_job c t) \<longrightarrow> restoring (c_job c u) \<longrightarrow> t = u) \<and>
     (\<forall>t. c_stopped c \<longrightarrow> \<not> restoring (c_job c t)) \<and>
     (\<forall>t. shutting (c_job c t) \<longrightarrow> c_stopped c)"

lemma conc_lockD:
  assumes "conc_lock c"
  shows "sharing (c_job c t) \<Longrightarrow> c_writer c = None"
    and "exclusive (c_job c t) \<longleftrightarrow> c_writer c = Some t"
    and "restoring (c_job c t) \<Longrightarrow> restoring (c_job c u) \<Longrightarrow> t = u"
    and "c_stopped c \<Longrightarrow> \<not> restoring (c_job c t)"
    and "shutting (c_job c t) \<Longrightarrow> c_stopped c"
    and "\<not> c_stopped c \<Longrightarrow> \<forall>u. \<not> restoring (c_job c u) \<Longrightarrow> c_writer c = None"
proof -
  show "\<not> c_stopped c \<Longrightarrow> \<forall>u. \<not> restoring (c_job c u) \<Longrightarrow> c_writer c = None"
  proof (rule ccontr)
    assume free: "\<not> c_stopped c" "\<forall>u. \<not> restoring (c_job c u)" and "c_writer c \<noteq> None"
    then obtain u where "exclusive (c_job c u)" using assms by (auto simp: conc_lock_def)
    then have "restoring (c_job c u) \<or> shutting (c_job c u)" by (cases "c_job c u") simp_all
    with free assms show False by (auto simp: conc_lock_def)
  qed
  show "sharing (c_job c t) \<Longrightarrow> c_writer c = None"
    using assms unfolding conc_lock_def by (metis empty_iff)
qed (use assms in \<open>auto simp: conc_lock_def\<close>)

lemma goes_fields [simp]:
  "c_db (goes t j c) = c_db c" "c_world (goes t j c) = c_world c" "c_closed (goes t j c) = c_closed c"
  "c_stopped (goes t j c) = c_stopped c" "c_readers (goes t j c) = c_readers c"
  "c_writer (goes t j c) = c_writer c" "c_job (goes t j c) = (c_job c)(t := j)" "c_hist (goes t j c) = c_hist c"
  by (simp_all add: goes_def)

lemma enters_fields [simp]:
  "c_db (enters ev c) = c_db c" "c_world (enters ev c) = c_world c" "c_closed (enters ev c) = c_closed c"
  "c_stopped (enters ev c) = c_stopped c" "c_readers (enters ev c) = c_readers c"
  "c_writer (enters ev c) = c_writer c" "c_job (enters ev c) = c_job c" "c_hist (enters ev c) = c_hist c @ [ev]"
  by (simp_all add: enters_def)

text \<open>One thread moves, and its new position says what becomes of the lock.\<close>

lemma conc_lock_move:
  assumes lock: "conc_lock c" and job: "c_job c' = (c_job c)(t := j)"
    and rd: "c_readers c' = (if sharing j then insert t (c_readers c) else c_readers c - {t})"
    and wr: "c_writer c' = (if exclusive j then Some t else if c_writer c = Some t then None else c_writer c)"
    and st: "c_stopped c' = c_stopped c \<or> c_stopped c' \<and> (\<forall>u. \<not> restoring (c_job c u))"
    and sh: "sharing j \<Longrightarrow> c_writer c = None"
    and ex: "exclusive j \<Longrightarrow> c_writer c = Some t \<or> c_writer c = None \<and> c_readers c = {}"
    and rs: "restoring j \<Longrightarrow> \<not> c_stopped c' \<and> (restoring (c_job c t) \<or> (\<forall>u. \<not> restoring (c_job c u)))"
    and sd: "shutting j \<Longrightarrow> c_stopped c'"
  shows "conc_lock c'"
proof -
  have "exclusive j \<Longrightarrow> \<not> sharing j" by (cases j) simp_all
  then have 1: "\<forall>u. u \<in> c_readers c' \<longleftrightarrow> sharing (c_job c' u)"
    using lock by (auto simp: conc_lock_def job rd)
  have 2: "\<forall>u. exclusive (c_job c' u) \<longleftrightarrow> c_writer c' = Some u"
    using lock ex by (auto simp: conc_lock_def job wr)
  have 3: "c_writer c' \<noteq> None \<longrightarrow> c_readers c' = {}"
    using lock sh ex \<open>exclusive j \<Longrightarrow> \<not> sharing j\<close> by (auto simp: conc_lock_def rd wr split: if_splits)
  have 4: "\<forall>u v. restoring (c_job c' u) \<longrightarrow> restoring (c_job c' v) \<longrightarrow> u = v"
    using conc_lockD(3) [OF lock] rs by (auto simp: job)
  have 5: "\<forall>u. c_stopped c' \<longrightarrow> \<not> restoring (c_job c' u)"
    using conc_lockD(4) [OF lock] rs st by (auto simp: job)
  have 6: "\<forall>u. shutting (c_job c' u) \<longrightarrow> c_stopped c'"
    using conc_lockD(5) [OF lock] sd st by (auto simp: job)
  from 1 2 3 4 5 6 show ?thesis by (simp add: conc_lock_def)
qed

lemma conc_lock_same:
  assumes "conc_lock c" and "c_job c' = c_job c" and "c_readers c' = c_readers c"
    and "c_writer c' = c_writer c" and "c_stopped c' = c_stopped c"
  shows "conc_lock c'"
  using assms by (simp add: conc_lock_def)

lemma conc_step_lock:
  assumes "conc_step S F c c'" and lock: "conc_lock c"
  shows "conc_lock c'"
proof -
  have in_readers: "t \<in> c_readers c \<longleftrightarrow> sharing (c_job c t)" for t using lock by (simp add: conc_lock_def)
  note D = conc_lockD [OF lock] and move = conc_lock_move [OF lock]
  show ?thesis
    using assms(1)
  proof cases
    case (check t fn)
    with D(2) [of t] in_readers [of t] show ?thesis by (intro move [of _ t "JEnter fn"]) auto
  next
    case (rlock t fn)
    then show ?thesis by (intro move [of _ t "JHold fn"]) auto
  next
    case (use t fn db' r)
    with D(1) [of t] in_readers [of t] show ?thesis by (intro move [of _ t JLeave]) auto
  next
    case (persist t now ce cl)
    with D(2) [of t] in_readers [of t] show ?thesis by (intro move [of _ t "JPersistWait now ce cl"]) auto
  next
    case (persist_lock t now ce cl)
    then show ?thesis by (intro move [of _ t "JPersist now ce cl"]) auto
  next
    case (backup t now ce cl)
    with D(1) [of t] in_readers [of t] show ?thesis by (intro move [of _ t JLeave]) auto
  next
    case (runlock t)
    with D(1) [of t] show ?thesis by (intro move [of _ t JIdle]) auto
  next
    case (index i)
    then show ?thesis by (intro conc_lock_same [OF lock]) auto
  next
    case (log e)
    then show ?thesis by (intro conc_lock_same [OF lock]) auto
  next
    case (restore t rc)
    with D(2) [of t] in_readers [of t] show ?thesis
      by (intro move [of _ t "if in_place (c_db c) then JSwapWait rc else JStage rc (staging S F (c_db c) rc)"])
        (auto split: if_splits)
  next
    case (stage t rc f w' p)
    with D(2) [of t] D(4) [of t] in_readers [of t] show ?thesis by (intro move [of _ t "JStage rc p"]) auto
  next
    case (stage_fails t rc e db' w' res)
    with D(2) [of t] in_readers [of t] show ?thesis by (intro move [of _ t JIdle]) auto
  next
    case (staged t rc)
    with D(2) [of t] D(4) [of t] in_readers [of t] show ?thesis by (intro move [of _ t "JSwapWait rc"]) auto
  next
    case (swap_lock t rc)
    with D(4) [of t] show ?thesis by (intro move [of _ t "JSwap rc (swapping S F (c_db c) rc)"]) auto
  next
    case (swap t rc f db' w' p)
    with D(2) [of t] D(4) [of t] in_readers [of t] show ?thesis by (intro move [of _ t "JSwap rc p"]) auto
  next
    case (swap_ends t rc x db' w' res)
    with D(2) [of t] in_readers [of t] show ?thesis by (intro move [of _ t JIdle]) auto
  next
    case (flag t)
    with D(2) [of t] in_readers [of t] show ?thesis by (intro move [of _ t JStopping]) auto
  next
    case (stopped t)
    with D(2) [of t] in_readers [of t] show ?thesis by (intro move [of _ t JShutWait]) auto
  next
    case (shut_lock t)
    with D(5) [of t] show ?thesis by (intro move [of _ t "JShut (close_prog S)"]) auto
  next
    case (shut t f db' w' p)
    with D(2) [of t] D(5) [of t] in_readers [of t] show ?thesis by (intro move [of _ t "JShut p"]) auto
  next
    case (shut_ends t res)
    with D(2) [of t] in_readers [of t] show ?thesis by (intro move [of _ t JIdle]) auto
  qed
qed

section \<open>What is explained\<close>

text \<open>
  The calls entered so far lead to \<open>(db1, w1)\<close>; a thread in the middle of a call owes the rest
  of it: what it still has to do on the node and files as they are ends where the whole call
  would from \<open>(db1, w1)\<close>.
\<close>

fun owes ::
    "('b,'o,'d,'s) storage_api \<Rightarrow> 'd faults \<Rightarrow> ('b,'r,'o) DB \<times> 'd world \<Rightarrow> ('b,'r,'o) DB \<times> 'd world \<Rightarrow>
     ('b,'r,'o,'d,'s,'a) job \<Rightarrow> bool" where
  "owes S F (db, w) (db1, w1) (JStage rc p) \<longleftrightarrow>
     \<not> in_place db \<and>
     exec p w = restore_stage S F (db_badgerOpts db) (stagingDir_of (db_badgerDir db)) w1 rc"
| "owes S F (db, w) (db1, w1) (JSwapWait rc) \<longleftrightarrow>
     (if in_place db then w1 = w
      else restore_stage S F (db_badgerOpts db) (stagingDir_of (db_badgerDir db)) w1 rc = (w, None))"
| "owes S F (db, w) (db1, w1) (JSwap rc p) \<longleftrightarrow> report (exec p (db, w)) = fsm_Restore S F (db1, w1) rc"
| "owes S F (db, w) (db1, w1) (JShut p) \<longleftrightarrow> exec p (db, w) = closeStore S (db1, w1)"
| "owes S F dw dw1 j \<longleftrightarrow> True"

definition explained ::
    "('b,'o,'d,'s) storage_api \<Rightarrow> 'd faults \<Rightarrow> ('b,'r,'o) DB \<times> 'd world \<Rightarrow> ('b,'r,'o,'d,'s,'a) conc \<Rightarrow>
     ('b,'r,'o) DB \<times> 'd world \<Rightarrow> bool" where
  "explained S F dw0 c dw1 \<longleftrightarrow>
     in_turn S F (c_hist c) dw0 dw1 \<and>
     (\<forall>t. owes S F (c_db c, c_world c) dw1 (c_job c t)) \<and>
     (c_writer c = None \<longrightarrow> fst dw1 = c_db c) \<and>
     (c_writer c = None \<longrightarrow> (\<forall>t. \<not> restoring (c_job c t)) \<longrightarrow> snd dw1 = c_world c)"

text \<open>A step that touches neither the node nor the files nor the calls entered.\<close>

lemma explained_move:
  assumes "explained S F dw0 c dw1" and "c_db c' = c_db c" and "c_world c' = c_world c" and "c_hist c' = c_hist c"
    and "c_job c' = (c_job c)(t := j)" and "owes S F (c_db c, c_world c) dw1 j"
    and "c_writer c' = None \<longrightarrow> c_writer c = None" and "restoring j \<longleftrightarrow> restoring (c_job c t)"
  shows "explained S F dw0 c' dw1"
proof -
  have "(\<forall>u. \<not> restoring (c_job c' u)) \<longleftrightarrow> (\<forall>u. \<not> restoring (c_job c u))"
    using assms(5,8) by (metis fun_upd_apply)
  with assms show ?thesis by (simp add: explained_def)
qed

text \<open>A call that takes effect under the shared lock: it acts on the node alone.\<close>

lemma owes_shared:
  assumes "owes S F (db, w) (db, w1) j" and "\<not> exclusive j"
    and "db_badgerOpts db' = db_badgerOpts db" and "db_badgerDir db' = db_badgerDir db"
  shows "owes S F (db', w) (db', w1) j"
  using assms by (cases j) (simp_all add: in_place_def)

lemma explained_shared:
  assumes lock: "conc_lock c" and ex: "explained S F dw0 c (db1, w1)" and free: "c_writer c = None"
    and ev: "happens S F ev (c_db c, w1) (db', w1)"
    and opts: "db_badgerOpts db' = db_badgerOpts (c_db c)" "db_badgerDir db' = db_badgerDir (c_db c)"
    and c': "c_db c' = db'" "c_world c' = c_world c" "c_hist c' = c_hist c @ [ev]" "c_writer c' = c_writer c"
    and job: "\<And>u. c_job c' u = c_job c u \<or> \<not> restoring (c_job c u) \<and> c_job c' u \<in> {JIdle, JLeave}"
  shows "explained S F dw0 c' (db', w1)"
proof -
  from ex free have db1: "db1 = c_db c" and turn: "in_turn S F (c_hist c) dw0 (c_db c, w1)"
    and ow: "\<forall>u. owes S F (c_db c, c_world c) (c_db c, w1) (c_job c u)" by (auto simp: explained_def)
  have "owes S F (c_db c', c_world c') (db', w1) (c_job c' u)" for u
  proof (cases "c_job c' u = c_job c u")
    case True
    have "\<not> exclusive (c_job c u)" using conc_lockD(2) [OF lock] free by simp
    with owes_shared [OF ow [rule_format] _ opts] True c'(1,2) show ?thesis by simp
  next
    case False
    then show ?thesis using job [of u] by auto
  qed
  moreover have "restoring (c_job c' u) \<longleftrightarrow> restoring (c_job c u)" for u using job [of u] by auto
  ultimately show ?thesis
    using ex free in_turn_snoc [OF turn ev] c' by (simp add: explained_def)
qed

lemma owes_free: "\<not> restoring j \<Longrightarrow> \<not> exclusive j \<Longrightarrow> owes S F dw dw' j"
  by (cases dw; cases dw'; cases j) simp_all

text \<open>A restore or a close that starts or goes on: nobody else is in the middle of one.\<close>

lemma explained_own:
  assumes ex: "explained S F dw0 c dw1" and c': "c_hist c' = c_hist c" "c_job c' = (c_job c)(t := j)"
    and own: "owes S F (c_db c', c_world c') dw1 j"
    and others: "\<And>u. u \<noteq> t \<Longrightarrow> \<not> restoring (c_job c u) \<and> \<not> exclusive (c_job c u)"
    and free: "c_writer c' = None \<Longrightarrow> fst dw1 = c_db c' \<and> restoring j"
  shows "explained S F dw0 c' dw1"
proof -
  have "owes S F (c_db c', c_world c') dw1 (c_job c' u)" for u
    using own others by (cases "u = t") (simp_all add: c' owes_free)
  with ex c'(1) free show ?thesis by (auto simp: explained_def c'(2) dest: spec [of _ t])
qed

text \<open>A restore or a close that ends: its whole call is entered.\<close>

lemma explained_end:
  assumes ex: "explained S F dw0 c dw1" and ev: "happens S F ev dw1 (c_db c', c_world c)"
    and c': "c_world c' = c_world c" "c_hist c' = c_hist c @ [ev]"
    and job: "\<And>u. c_job c' u = (if u = t then JIdle else c_job c u)"
    and alone: "\<And>u. u \<noteq> t \<Longrightarrow> \<not> restoring (c_job c u) \<and> \<not> exclusive (c_job c u)"
  shows "explained S F dw0 c' (c_db c', c_world c)"
proof -
  from alone have "owes S F (c_db c', c_world c') (c_db c', c_world c) (c_job c' u)" for u
    by (simp add: job owes_free)
  with ex in_turn_snoc [OF _ ev] c' show ?thesis by (auto simp: explained_def)
qed

lemma report_world: "report ((db, w), x) = ((db', w'), res) \<Longrightarrow> w' = w"
  by (auto simp: report_def Let_def split: option.splits prod.splits)

lemma swapping_owed:
  assumes "owes S F (db, w) (db, w1) (JSwapWait rc)"
  shows "report (exec (swapping S F db rc) (db, w)) = fsm_Restore S F (db, w1) rc"
  using assms by (simp add: swapping_def exec_in_place exec_swap fsm_Restore_def Let_def split: if_splits)

text \<open>A restore and a close never overlap, nor do two restores.\<close>

lemma alone:
  assumes lock: "conc_lock c" and t: "restoring (c_job c t) \<or> exclusive (c_job c t)" and u: "u \<noteq> t"
  shows "\<not> restoring (c_job c u)" and "\<not> exclusive (c_job c u)"
proof -
  note D = conc_lockD [OF lock]
  have cases: "exclusive j \<Longrightarrow> restoring j \<or> shutting j" for j :: "('a, 'b, 'c, 'd, 'e, 'f) job"
    by (cases j) simp_all
  show "\<not> exclusive (c_job c u)"
    using t u D(2) [of t] D(2) [of u] D(3) [of t u] D(4) [of t] D(5) [of u] cases [of "c_job c u"] by auto
  then show "\<not> restoring (c_job c u)"
    using t u D(3) [of t u] D(4) [of u] D(5) [of t] cases [of "c_job c t"] by auto
qed

lemma alone_free:
  assumes "conc_lock c" and "restoring (c_job c t)" and "\<not> exclusive (c_job c t)"
  shows "c_writer c = None"
  using assms alone(2) [OF assms(1), of t] conc_lockD(2) [OF assms(1)] by (metis not_Some_eq)

lemma conc_step_explained:
  assumes step: "conc_step S F c c'" and lock: "conc_lock c" and ex: "explained S F dw0 c (db1, w1)"
  shows "\<exists>dw1. explained S F dw0 c' dw1"
proof -
  note D = conc_lockD [OF lock] and move = explained_move [OF ex] and shared = explained_shared [OF lock ex]
  have owed: "owes S F (c_db c, c_world c) (db1, w1) (c_job c t)" for t using ex by (simp add: explained_def)
  have db1: "c_writer c = None \<Longrightarrow> db1 = c_db c" using ex by (simp add: explained_def)
  have w1: "c_writer c = None \<Longrightarrow> \<forall>u. \<not> restoring (c_job c u) \<Longrightarrow> w1 = c_world c" using ex by (simp add: explained_def)
  from step show ?thesis
  proof cases
    case (check t fn)
    then show ?thesis by - (rule exI, rule move [of _ t "JEnter fn"], auto)
  next
    case (rlock t fn)
    then show ?thesis by - (rule exI, rule move [of _ t "JHold fn"], auto)
  next
    case (use t fn db' r)
    have "c_writer c = None" using D(1) [of t] use by simp
    with use show ?thesis
      by - (rule exI, rule shared [of "Called fn r" db'], auto simp: withStore_def split: option.splits prod.splits)
  next
    case (persist t now ce cl)
    then show ?thesis by - (rule exI, rule move [of _ t "JPersistWait now ce cl"], auto)
  next
    case (persist_lock t now ce cl)
    then show ?thesis by - (rule exI, rule move [of _ t "JPersist now ce cl"], auto)
  next
    case (backup t now ce cl)
    have "c_writer c = None" using D(1) [of t] backup by simp
    with backup show ?thesis
      by - (rule exI, rule shared [of "Persisted now ce cl (Persist S now FsmSnapshot (c_db c) ce cl)" "c_db c"], auto)
  next
    case (runlock t)
    then show ?thesis by - (rule exI, rule move [of _ t JIdle], auto)
  next
    case (index i)
    with D(6) show ?thesis
      by - (rule exI, rule shared [of "Indexed i" "(c_db c)\<lparr>db_appliedIndex := i\<rparr>"], auto)
  next
    case (log e)
    with D(6) show ?thesis
      by - (rule exI, rule shared [of "Logged e" "log_fsm (c_db c) e"], auto simp: log_fsm_def)
  next
    case (restore t rc)
    have free: "c_writer c = None" using D(6) restore by blast
    have w: "w1 = c_world c" using w1 [OF free] restore by blast
    let ?j = "if in_place (c_db c) then JSwapWait rc else JStage rc (staging S F (c_db c) rc)"
    have own: "owes S F (c_db c, c_world c) (db1, w1) ?j" "restoring ?j"
      by (simp_all add: w staging_def exec_stage)
    have "\<not> exclusive (c_job c u)" for u using D(2) [of u] free by simp
    with restore own db1 [OF free] show ?thesis
      by - (rule exI, rule explained_own [OF ex, of _ t ?j], auto)
  next
    case (stage t rc f w' p)
    have free: "c_writer c = None" using alone_free [OF lock, of t] stage by simp
    with stage alone [OF lock, of t] owed [of t] db1 show ?thesis
      by - (rule exI, rule explained_own [OF ex, of _ t "JStage rc p"], auto simp: exec_Act)
  next
    case (stage_fails t rc e db' w' res)
    have db: "db1 = c_db c" using alone_free [OF lock, of t] stage_fails db1 by simp
    have w: "w' = c_world c" by (rule report_world [OF stage_fails(3)])
    from owed [of t] stage_fails have ip: "\<not> in_place (c_db c)" and
      st: "restore_stage S F (db_badgerOpts (c_db c)) (stagingDir_of (db_badgerDir (c_db c))) w1 rc = (c_world c, Some e)"
      by simp_all
    have "fsm_Restore S F (db1, w1) rc = ((db', c_world c), res)"
      using stage_fails(3) w by (cases e) (simp add: db fsm_Restore_def Let_def ip st)
    then have ev: "happens S F (Restored rc res) (db1, w1) (c_db c', c_world c)" using stage_fails by simp
    show ?thesis
      by (rule exI, rule explained_end [OF ex ev, of t]) (use stage_fails alone [OF lock, of t] in auto)
  next
    case (staged t rc)
    have free: "c_writer c = None" using alone_free [OF lock, of t] staged by simp
    with staged alone [OF lock, of t] owed [of t] db1 show ?thesis
      by - (rule exI, rule explained_own [OF ex, of _ t "JSwapWait rc"], auto)
  next
    case (swap_lock t rc)
    have "owes S F (c_db c, c_world c) (c_db c, w1) (JSwapWait rc)"
      using owed [of t] swap_lock db1 by simp
    from swapping_owed [OF this] swap_lock alone [OF lock, of t] db1 show ?thesis
      by - (rule exI, rule explained_own [OF ex, of _ t "JSwap rc (swapping S F (c_db c) rc)"], auto)
  next
    case (swap t rc f db' w' p)
    have "c_writer c = Some t" using D(2) [of t] swap by simp
    with swap alone [OF lock, of t] owed [of t] show ?thesis
      by - (rule exI, rule explained_own [OF ex, of _ t "JSwap rc p"], auto simp: exec_Act)
  next
    case (swap_ends t rc x db' w' res)
    have w: "w' = c_world c" by (rule report_world [OF swap_ends(3)])
    have ev: "happens S F (Restored rc res) (db1, w1) (c_db c', c_world c)"
      using owed [of t] swap_ends w by simp
    show ?thesis
      by (rule exI, rule explained_end [OF ex ev, of t]) (use swap_ends alone [OF lock, of t] in auto)
  next
    case (flag t)
    then show ?thesis by - (rule exI, rule move [of _ t JStopping], auto)
  next
    case (stopped t)
    then show ?thesis by - (rule exI, rule move [of _ t JShutWait], auto)
  next
    case (shut_lock t)
    have none: "\<forall>u. \<not> restoring (c_job c u)" using D(4) D(5) [of t] shut_lock by simp
    have "\<not> exclusive (c_job c u)" for u using D(2) [of u] shut_lock by simp
    with shut_lock none db1 w1 show ?thesis
      by - (rule exI, rule explained_own [OF ex, of _ t "JShut (close_prog S)"], auto simp: exec_close)
  next
    case (shut t f db' w' p)
    have "c_writer c = Some t" using D(2) [of t] shut by simp
    with shut alone [OF lock, of t] owed [of t] show ?thesis
      by - (rule exI, rule explained_own [OF ex, of _ t "JShut p"], auto simp: exec_Act)
  next
    case (shut_ends t res)
    have ev: "happens S F (StoreClosed res) (db1, w1) (c_db c', c_world c)"
      using owed [of t] shut_ends by simp
    show ?thesis
      by (rule exI, rule explained_end [OF ex ev, of t]) (use shut_ends alone [OF lock, of t] in auto)
  qed
qed

lemma conc_reach_explained:
  assumes "conc_reach S F db0 w0 c"
  shows "conc_lock c" and "\<exists>dw1. explained S F (db0, w0) c dw1"
proof -
  from assms have "conc_lock c \<and> (\<exists>dw1. explained S F (db0, w0) c dw1)"
  proof induction
    case opened
    show ?case by (auto simp: conc_lock_def explained_def conc_init_def)
  next
    case (step c c')
    then obtain db1 w1 where "conc_lock c" "explained S F (db0, w0) c (db1, w1)" by auto
    with conc_step_lock [OF step.hyps(2)] conc_step_explained [OF step.hyps(2)] show ?case by blast
  qed
  then show "conc_lock c" and "\<exists>dw1. explained S F (db0, w0) c dw1" by blast+
qed

section \<open>Calls are atomic\<close>

text \<open>
  C6: the calls on the store are atomic. Let any number of threads run \<open>withStore\<close> and
  \<open>Persist\<close> while restores stage and swap and \<open>Close\<close> shuts the store down, action by action
  and in any interleaving that the lock and Raft allow. Whenever the lock is not held
  exclusively, in the middle of a restore's staging too, the node is as if the calls so far
  had run whole, one after the other in the order in which they took effect, each with the
  result it had; outside a restore the files are so as well.
\<close>

theorem store_calls_atomic:
  assumes "conc_reach S F db0 w0 c" and "c_writer c = None"
  shows "\<exists>w. in_turn S F (c_hist c) (db0, w0) (c_db c, w) \<and>
     ((\<forall>t. \<not> restoring (c_job c t)) \<longrightarrow> w = c_world c)"
  using conc_reach_explained(2) [OF assms(1)] assms(2) by (fastforce simp: explained_def)

text \<open>A thread that is left alone carries its staging or its swap through.\<close>

lemma stage_runs:
  "conc_reach S F db0 w0 c \<Longrightarrow> c_job c t = JStage rc p \<Longrightarrow> exec p (c_world c) = (w', x) \<Longrightarrow>
     conc_reach S F db0 w0 (goes t (JStage rc (Ret x)) (c\<lparr>c_world := w'\<rparr>))"
proof (induction p arbitrary: c)
  case (Ret y)
  then have "goes t (JStage rc (Ret x)) (c\<lparr>c_world := w'\<rparr>) = c" by (simp add: goes_def fun_upd_idem)
  with Ret show ?case by simp
next
  case (Act f)
  obtain w1 p1 where f: "f (c_world c) = (w1, p1)" by fastforce
  let ?c = "goes t (JStage rc p1) (c\<lparr>c_world := w1\<rparr>)"
  have "conc_reach S F db0 w0 ?c" by (rule conc_reach.step [OF Act.prems(1) conc_step.stage [OF Act.prems(2) f]])
  then have "conc_reach S F db0 w0 (goes t (JStage rc (Ret x)) (?c\<lparr>c_world := w'\<rparr>))"
    by (rule Act.IH [of "f (c_world c)" p1, rotated 2])
      (use Act.prems(3) f rangeI [of f "c_world c"] in \<open>auto simp: exec_Act snds.simps\<close>)
  then show ?case by (simp add: goes_def)
qed

lemma swap_runs:
  "conc_reach S F db0 w0 c \<Longrightarrow> c_job c t = JSwap rc p \<Longrightarrow> exec p (c_db c, c_world c) = ((db', w'), x) \<Longrightarrow>
     conc_reach S F db0 w0 (goes t (JSwap rc (Ret x)) (c\<lparr>c_db := db', c_world := w'\<rparr>))"
proof (induction p arbitrary: c)
  case (Ret y)
  then have "goes t (JSwap rc (Ret x)) (c\<lparr>c_db := db', c_world := w'\<rparr>) = c" by (simp add: goes_def fun_upd_idem)
  with Ret show ?case by simp
next
  case (Act f)
  obtain db1 w1 p1 where f: "f (c_db c, c_world c) = ((db1, w1), p1)" by (metis prod.collapse)
  let ?c = "goes t (JSwap rc p1) (c\<lparr>c_db := db1, c_world := w1\<rparr>)"
  have "conc_reach S F db0 w0 ?c" by (rule conc_reach.step [OF Act.prems(1) conc_step.swap [OF Act.prems(2) f]])
  then have "conc_reach S F db0 w0 (goes t (JSwap rc (Ret x)) (?c\<lparr>c_db := db', c_world := w'\<rparr>))"
    by (rule Act.IH [of "f (c_db c, c_world c)" p1, rotated 2])
      (use Act.prems(3) f rangeI [of f "(c_db c, c_world c)"] in \<open>auto simp: exec_Act snds.simps\<close>)
  then show ?case by (simp add: goes_def)
qed

text \<open>A staged restore that is left alone, and would succeed as a whole, does.\<close>

lemma restore_runs:
  assumes reach: "conc_reach S F db0 w0 c" and job: "c_job c t = JStage rc (staging S F (c_db c) rc)"
    and layout: "\<not> in_place (c_db c)" and lock: "c_writer c = None" "c_readers c = {}"
    and run: "fsm_Restore S F (c_db c, c_world c) rc = ((db', w'), None)"
  obtains c' where "conc_reach S F db0 w0 c'" and "c_db c' = db'" and "c_world c' = w'"
    and "c_hist c' = c_hist c @ [Restored rc None]" and "c_writer c' = None" and "c_job c' = (c_job c)(t := JIdle)"
proof -
  let ?lv = "db_badgerDir (c_db c)"
  obtain w1 where st: "restore_stage S F (db_badgerOpts (c_db c)) (stagingDir_of ?lv) (c_world c) rc = (w1, None)"
    and sw: "report (restore_swap S F ?lv (stagingDir_of ?lv) (backupDir_of ?lv) (c_db c, w1)) = ((db', w'), None)"
    using run layout by (auto simp: fsm_Restore_def Let_def report_def split: prod.splits option.splits)
  then have sw': "exec (swapping S F (c_db c) rc) (c_db c, w1) = ((db', w'), None)"
    using layout by (auto simp: swapping_def exec_swap report_def split: prod.splits option.splits)
  let ?c1 = "goes t (JStage rc (Ret None)) (c\<lparr>c_world := w1\<rparr>)"
  have "conc_reach S F db0 w0 ?c1" by (rule stage_runs [OF reach job]) (simp add: staging_def exec_stage st)
  from conc_reach.step [OF this conc_step.staged, of t rc]
  have "conc_reach S F db0 w0 (goes t (JSwapWait rc) ?c1)" by simp
  from conc_reach.step [OF this conc_step.swap_lock, of t rc] lock
  have "conc_reach S F db0 w0 (goes t (JSwap rc (swapping S F (c_db c) rc)) ((goes t (JSwapWait rc) ?c1)\<lparr>c_writer := Some t\<rparr>))"
    (is "conc_reach S F db0 w0 ?c2") by simp
  from swap_runs [OF this, of t rc _ db' w' None] sw'
  have "conc_reach S F db0 w0 (goes t (JSwap rc (Ret None)) (?c2\<lparr>c_db := db', c_world := w'\<rparr>))"
    (is "conc_reach S F db0 w0 ?c3") by simp
  from conc_reach.step [OF this conc_step.swap_ends, of t rc None db' w' None]
  have "conc_reach S F db0 w0 (enters (Restored rc None) (goes t JIdle (?c3\<lparr>c_db := db', c_writer := None\<rparr>)))"
    by (simp add: report_def)
  then show ?thesis by (rule that) simp_all
qed

text \<open>An example: a call runs while a restore is staging.\<close>

theorem store_calls_atomic_example:
  "\<exists>c. conc_reach ref_storage no_faults (sample_node old_store sample_leader) sample_world c \<and>
     c_hist c = [Called (\<lambda>b. (b, Inr ())) (Inr ()), Restored new_store None] \<and>
     in_turn ref_storage no_faults (c_hist c) (sample_node old_store sample_leader, sample_world)
       (c_db c, c_world c)"
proof -
  let ?db = "sample_node old_store sample_leader" and ?fn = "\<lambda>b. (b, Inr ()) :: ref_db \<times> (gerror + unit)"
  let ?j = "JStage new_store (staging ref_storage no_faults ?db new_store)"
  let ?reach = "conc_reach ref_storage no_faults ?db sample_world"
  have "?reach (goes 1 ?j (conc_init ?db sample_world))"
    using conc_reach.step [OF conc_reach.opened conc_step.restore [of "conc_init ?db sample_world" 1 ref_storage no_faults new_store]]
    by (simp add: conc_init_def)
  from conc_reach.step [OF this conc_step.check, of 0 ?fn]
  have "?reach (goes 0 (JEnter ?fn) (goes 1 ?j (conc_init ?db sample_world)))" (is "conc_reach _ _ _ _ ?c2")
    by (simp add: conc_init_def)
  from conc_reach.step [OF this conc_step.rlock, of 0 ?fn]
  have "?reach (goes 0 (JHold ?fn) (?c2\<lparr>c_readers := {0}\<rparr>))" (is "conc_reach _ _ _ _ ?c3") by (simp add: conc_init_def)
  from conc_reach.step [OF this conc_step.use, of 0 ?fn ?db "Inr ()"]
  have "?reach (enters (Called ?fn (Inr ())) (goes 0 JLeave (?c3\<lparr>c_db := ?db\<rparr>)))" (is "conc_reach _ _ _ _ ?c4")
    by (simp add: conc_init_def withStore_def checkOpen_def)
  from conc_reach.step [OF this conc_step.runlock, of 0]
  have c5: "?reach (goes 0 JIdle (?c4\<lparr>c_readers := {}\<rparr>))" (is "conc_reach _ _ _ _ ?c5") by simp
  obtain db' w' where run: "fsm_Restore ref_storage no_faults (?db, sample_world) new_store = ((db', w'), None)"
    using sample_restore_runs by (metis prod.collapse)
  obtain c where c: "?reach c" "c_writer c = None"
    "c_hist c = [Called ?fn (Inr ()), Restored new_store None]" "c_job c = (c_job ?c5)(1 := JIdle)"
    by (rule restore_runs [OF c5, of 1 new_store db' w']) (simp_all add: conc_init_def run)
  have "\<forall>t. \<not> restoring (c_job c t)" by (simp add: c(4) conc_init_def)
  with store_calls_atomic [OF c(1,2)] c show ?thesis by auto
qed

end
