(* ===== verification/Store_Lock.thy ===== *)
theory Store_Lock
  imports Prelude
begin

text \<open>
  The lock around the store pointer (\<open>storeMu\<close> of \<open>db.go\<close>) as a transition system. Any
  number of threads run \<open>withStore\<close> or \<open>Persist\<close>, restores and the one effective \<open>Close\<close>, in
  any interleaving; a read-write mutex admits many shared holders or one exclusive one.
  Shown for every reachable state: a thread inside the store callback uses a handle that is
  open and published, no two live handles are open outside a swap, after \<open>Close\<close> no handle
  is left, and there is no deadlock.
\<close>

section \<open>The state\<close>

type_synonym tid = nat
type_synonym handle = nat

datatype kind = Swap | Shut

text \<open>
  Where a thread is: past the open check and waiting for the shared lock, holding it, inside
  the callback; or waiting for the exclusive lock, holding it, having closed the old
  handle, having cleared the pointer, having opened a new handle, about to unlock.
\<close>

datatype pc =
    Idle | Entering | Shared | Using handle | Stopping
  | Waiting kind | Locked kind | Closing kind | Emptied kind | Opened handle | Leaving kind

record lock_state =
  ls_readers :: "tid set"
  ls_writer :: "tid option"
  ls_store :: "handle option"
  ls_open :: "handle set"
  ls_next :: handle
  ls_pc :: "tid \<Rightarrow> pc"
  ls_closed :: bool
  ls_stopped :: bool
  ls_shut :: bool

definition at :: "tid \<Rightarrow> pc \<Rightarrow> lock_state \<Rightarrow> lock_state" where
  "at t p s = s\<lparr>ls_pc := (ls_pc s)(t := p)\<rparr>"

text \<open>The positions inside a restore.\<close>

fun swap_pc :: "pc \<Rightarrow> bool" where
  "swap_pc (Waiting k) = (k = Swap)"
| "swap_pc (Locked k) = (k = Swap)"
| "swap_pc (Closing k) = (k = Swap)"
| "swap_pc (Emptied k) = (k = Swap)"
| "swap_pc (Opened h) = True"
| "swap_pc (Leaving k) = (k = Swap)"
| "swap_pc _ = False"

section \<open>The threads\<close>

text \<open>\<open>withStore\<close>: check, shared lock, nil check, callback, unlock.\<close>

inductive reader_step :: "tid \<Rightarrow> lock_state \<Rightarrow> lock_state \<Rightarrow> bool" for t where
  check: "ls_pc s t = Idle \<Longrightarrow> \<not> ls_closed s \<Longrightarrow> reader_step t s (at t Entering s)"
| rlock: "ls_pc s t = Entering \<Longrightarrow> ls_writer s = None \<Longrightarrow>
    reader_step t s (at t Shared (s\<lparr>ls_readers := insert t (ls_readers s)\<rparr>))"
| gone: "ls_pc s t = Shared \<Longrightarrow> ls_store s = None \<Longrightarrow>
    reader_step t s (at t Idle (s\<lparr>ls_readers := ls_readers s - {t}\<rparr>))"
| use: "ls_pc s t = Shared \<Longrightarrow> ls_store s = Some h \<Longrightarrow> reader_step t s (at t (Using h) s)"
| runlock: "ls_pc s t = Using h \<Longrightarrow>
    reader_step t s (at t Idle (s\<lparr>ls_readers := ls_readers s - {t}\<rparr>))"

text \<open>\<open>Persist\<close> takes the shared lock without the open check, and goes on as \<open>withStore\<close>.\<close>

inductive persist_step :: "tid \<Rightarrow> lock_state \<Rightarrow> lock_state \<Rightarrow> bool" for t where
  persist: "ls_pc s t = Idle \<Longrightarrow> persist_step t s (at t Entering s)"

text \<open>
  The swap of \<open>Restore\<close>, and \<open>restoreInPlace\<close>: exclusive lock, close, clear, open, publish,
  unlock; an open may fail, and a loaded handle may be closed again. Raft starts none once
  it has stopped.
\<close>

inductive swap_step :: "tid \<Rightarrow> lock_state \<Rightarrow> lock_state \<Rightarrow> bool" for t where
  start: "ls_pc s t = Idle \<Longrightarrow> \<not> ls_stopped s \<Longrightarrow> swap_step t s (at t (Waiting Swap) s)"
| lock: "ls_pc s t = Waiting Swap \<Longrightarrow> ls_writer s = None \<Longrightarrow> ls_readers s = {} \<Longrightarrow>
    swap_step t s (at t (Locked Swap) (s\<lparr>ls_writer := Some t\<rparr>))"
| no_store: "ls_pc s t = Locked Swap \<Longrightarrow> ls_store s = None \<Longrightarrow> swap_step t s (at t (Emptied Swap) s)"
| close: "ls_pc s t = Locked Swap \<Longrightarrow> ls_store s = Some h \<Longrightarrow>
    swap_step t s (at t (Closing Swap) (s\<lparr>ls_open := ls_open s - {h}\<rparr>))"
| clear: "ls_pc s t = Closing Swap \<Longrightarrow> swap_step t s (at t (Emptied Swap) (s\<lparr>ls_store := None\<rparr>))"
| open_fails: "ls_pc s t = Emptied Swap \<Longrightarrow> swap_step t s (at t (Leaving Swap) s)"
| open_new: "ls_pc s t = Emptied Swap \<Longrightarrow>
    swap_step t s (at t (Opened (ls_next s))
      (s\<lparr>ls_open := insert (ls_next s) (ls_open s), ls_next := Suc (ls_next s)\<rparr>))"
| discard: "ls_pc s t = Opened h \<Longrightarrow>
    swap_step t s (at t (Emptied Swap) (s\<lparr>ls_open := ls_open s - {h}\<rparr>))"
| publish: "ls_pc s t = Opened h \<Longrightarrow> swap_step t s (at t (Leaving Swap) (s\<lparr>ls_store := Some h\<rparr>))"
| unlock: "ls_pc s t = Leaving Swap \<Longrightarrow> swap_step t s (at t Idle (s\<lparr>ls_writer := None\<rparr>))"

text \<open>
  \<open>Close\<close>: set the flag (once), wait for Raft to stop, which waits for the restores under
  way, then \<open>closeStore\<close>.
\<close>

inductive closer_step :: "tid \<Rightarrow> lock_state \<Rightarrow> lock_state \<Rightarrow> bool" for t where
  flag: "ls_pc s t = Idle \<Longrightarrow> \<not> ls_closed s \<Longrightarrow>
    closer_step t s (at t Stopping (s\<lparr>ls_closed := True\<rparr>))"
| stopped: "ls_pc s t = Stopping \<Longrightarrow> (\<And>u. \<not> swap_pc (ls_pc s u)) \<Longrightarrow>
    closer_step t s (at t (Waiting Shut) (s\<lparr>ls_stopped := True\<rparr>))"
| lock: "ls_pc s t = Waiting Shut \<Longrightarrow> ls_writer s = None \<Longrightarrow> ls_readers s = {} \<Longrightarrow>
    closer_step t s (at t (Locked Shut) (s\<lparr>ls_writer := Some t\<rparr>))"
| no_store: "ls_pc s t = Locked Shut \<Longrightarrow> ls_store s = None \<Longrightarrow> closer_step t s (at t (Leaving Shut) s)"
| close: "ls_pc s t = Locked Shut \<Longrightarrow> ls_store s = Some h \<Longrightarrow>
    closer_step t s (at t (Closing Shut) (s\<lparr>ls_open := ls_open s - {h}\<rparr>))"
| clear: "ls_pc s t = Closing Shut \<Longrightarrow> closer_step t s (at t (Leaving Shut) (s\<lparr>ls_store := None\<rparr>))"
| unlock: "ls_pc s t = Leaving Shut \<Longrightarrow>
    closer_step t s (at t Idle (s\<lparr>ls_writer := None, ls_shut := True\<rparr>))"

inductive lock_step :: "lock_state \<Rightarrow> lock_state \<Rightarrow> bool" where
  "reader_step t s s' \<Longrightarrow> lock_step s s'"
| "persist_step t s s' \<Longrightarrow> lock_step s s'"
| "swap_step t s s' \<Longrightarrow> lock_step s s'"
| "closer_step t s s' \<Longrightarrow> lock_step s s'"

text \<open>\<open>Open\<close> leaves one handle, published, and no thread inside.\<close>

definition lock_init :: lock_state where
  "lock_init =
     \<lparr>ls_readers = {}, ls_writer = None, ls_store = Some 0, ls_open = {0}, ls_next = 1,
      ls_pc = (\<lambda>t. Idle), ls_closed = False, ls_stopped = False, ls_shut = False\<rparr>"

inductive reachable :: "lock_state \<Rightarrow> bool" where
  init: "reachable lock_init"
| step: "reachable s \<Longrightarrow> lock_step s s' \<Longrightarrow> reachable s'"

section \<open>Invariants\<close>

definition shared_pc :: "pc \<Rightarrow> bool" where
  "shared_pc p \<longleftrightarrow> p = Shared \<or> (\<exists>h. p = Using h)"

fun excl_pc :: "pc \<Rightarrow> bool" where
  "excl_pc (Locked k) = True"
| "excl_pc (Closing k) = True"
| "excl_pc (Emptied k) = True"
| "excl_pc (Opened h) = True"
| "excl_pc (Leaving k) = True"
| "excl_pc _ = False"

text \<open>The open handles as the exclusive holder's position says.\<close>

definition handles :: "handle option \<Rightarrow> handle set \<Rightarrow> pc \<Rightarrow> bool" where
  "handles store opened p \<longleftrightarrow>
     (case p of
        Closing k \<Rightarrow> opened = {} \<and> store \<noteq> None
      | Emptied k \<Rightarrow> opened = {} \<and> store = None
      | Opened h \<Rightarrow> opened = {h} \<and> store = None
      | _ \<Rightarrow> opened = set_option store)"

definition lock_inv :: "lock_state \<Rightarrow> bool" where
  "lock_inv s \<longleftrightarrow>
     (\<forall>t. t \<in> ls_readers s \<longleftrightarrow> shared_pc (ls_pc s t)) \<and>
     (\<forall>t. excl_pc (ls_pc s t) \<longleftrightarrow> ls_writer s = Some t) \<and>
     (ls_writer s \<noteq> None \<longrightarrow> ls_readers s = {}) \<and>
     handles (ls_store s) (ls_open s) (case ls_writer s of None \<Rightarrow> Idle | Some t \<Rightarrow> ls_pc s t) \<and>
     (\<forall>t h. ls_pc s t = Using h \<longrightarrow> ls_store s = Some h)"

lemma lock_invD:
  assumes "lock_inv s"
  shows "t \<in> ls_readers s \<longleftrightarrow> shared_pc (ls_pc s t)"
    and "excl_pc (ls_pc s t) \<longleftrightarrow> ls_writer s = Some t"
    and "ls_writer s \<noteq> None \<Longrightarrow> ls_readers s = {}"
    and "ls_writer s = None \<Longrightarrow> ls_open s = set_option (ls_store s)"
    and "ls_writer s = Some t \<Longrightarrow> handles (ls_store s) (ls_open s) (ls_pc s t)"
    and "ls_pc s t = Using h \<Longrightarrow> ls_store s = Some h"
  using assms by (auto simp: lock_inv_def handles_def split: option.splits)

lemma at_fields [simp]:
  "ls_pc (at t p s) = (ls_pc s)(t := p)" "ls_readers (at t p s) = ls_readers s"
  "ls_writer (at t p s) = ls_writer s" "ls_store (at t p s) = ls_store s"
  "ls_open (at t p s) = ls_open s" "ls_closed (at t p s) = ls_closed s"
  "ls_stopped (at t p s) = ls_stopped s" "ls_shut (at t p s) = ls_shut s" "ls_next (at t p s) = ls_next s"
  by (simp_all add: at_def)

lemma shared_pc_simps [simp]:
  "shared_pc Shared" "shared_pc (Using h)" "\<not> shared_pc Idle" "\<not> shared_pc Entering"
  "\<not> shared_pc Stopping" "excl_pc p \<Longrightarrow> \<not> shared_pc p" "\<not> shared_pc (Waiting k)"
  by (auto simp: shared_pc_def)

text \<open>A thread that does not hold the lock exclusively moves.\<close>

lemma lock_inv_move:
  assumes inv: "lock_inv s" and out: "\<not> excl_pc (ls_pc s t)" "\<not> excl_pc p"
    and s': "ls_pc s' = (ls_pc s)(t := p)" "ls_writer s' = ls_writer s" "ls_store s' = ls_store s"
      "ls_open s' = ls_open s"
    and rd: "ls_readers s' = (if shared_pc p then insert t (ls_readers s) else ls_readers s - {t})"
    and free: "shared_pc p \<Longrightarrow> ls_writer s = None"
    and use: "\<And>h. p = Using h \<Longrightarrow> ls_store s = Some h"
  shows "lock_inv s'"
proof -
  have w: "ls_writer s \<noteq> Some t" using lock_invD(2) [OF inv] out(1) by simp
  have "handles (ls_store s') (ls_open s') (case ls_writer s' of None \<Rightarrow> Idle | Some u \<Rightarrow> ls_pc s' u)"
    using inv w by (auto simp: lock_inv_def s' split: option.splits)
  moreover have "ls_writer s' \<noteq> None \<longrightarrow> ls_readers s' = {}"
    using lock_invD(3) [OF inv] free by (auto simp: s' rd)
  moreover have "\<forall>u. u \<in> ls_readers s' \<longleftrightarrow> shared_pc (ls_pc s' u)"
    using lock_invD(1) [OF inv] by (auto simp: s' rd)
  moreover have "\<forall>u. excl_pc (ls_pc s' u) \<longleftrightarrow> ls_writer s' = Some u"
    using lock_invD(2) [OF inv] w out by (auto simp: s')
  moreover have "\<forall>u h. ls_pc s' u = Using h \<longrightarrow> ls_store s' = Some h"
    using lock_invD(6) [OF inv] use by (auto simp: s')
  ultimately show ?thesis by (simp add: lock_inv_def)
qed

text \<open>The exclusive holder moves, or the lock is taken or given back.\<close>

lemma lock_inv_excl:
  assumes inv: "lock_inv s" and mine: "ls_writer s = Some t \<or> ls_writer s = None \<and> ls_readers s = {}"
    and out: "\<not> shared_pc (ls_pc s t)" "\<not> shared_pc p"
    and s': "ls_pc s' = (ls_pc s)(t := p)" "ls_readers s' = ls_readers s"
      "ls_writer s' = (if excl_pc p then Some t else None)"
    and h: "handles (ls_store s') (ls_open s') p"
  shows "lock_inv s'"
proof -
  have none: "ls_readers s = {}" using mine lock_invD(3) [OF inv] by auto
  then have idle: "\<not> shared_pc (ls_pc s u)" for u using lock_invD(1) [OF inv, of u] by simp
  have others: "\<not> excl_pc (ls_pc s u)" if "u \<noteq> t" for u
    using mine that lock_invD(2) [OF inv, of u] by auto
  have "handles (ls_store s') (ls_open s') (case ls_writer s' of None \<Rightarrow> Idle | Some u \<Rightarrow> ls_pc s' u)"
  proof (cases "excl_pc p")
    case False
    with h have "ls_open s' = set_option (ls_store s')"
      by (cases p) (auto simp: handles_def)
    with False show ?thesis by (simp add: s' handles_def)
  qed (use h in \<open>simp add: s'\<close>)
  moreover have "\<forall>u h. ls_pc s' u \<noteq> Using h"
    using idle out(2) by (metis fun_upd_apply s'(1) shared_pc_simps(2))
  ultimately show ?thesis
    using none idle others out by (auto simp: lock_inv_def s')
qed

lemma reader_step_inv:
  assumes "reader_step t s s'" and inv: "lock_inv s"
  shows "lock_inv s'"
  using assms(1)
proof cases
  case check
  then show ?thesis by (intro lock_inv_move [OF inv, of t Entering]) (auto simp: lock_invD(1) [OF inv])
next
  case rlock
  then show ?thesis by (intro lock_inv_move [OF inv, of t Shared]) auto
next
  case gone
  then show ?thesis by (intro lock_inv_move [OF inv, of t Idle]) auto
next
  case (use h)
  have "ls_writer s = None"
    using lock_invD(1) [OF inv, of t] lock_invD(3) [OF inv] use(2)
    by (cases "ls_writer s") auto
  moreover have "t \<in> ls_readers s" using lock_invD(1) [OF inv, of t] use(2) by simp
  ultimately show ?thesis using use by (intro lock_inv_move [OF inv, of t "Using h"]) auto
next
  case (runlock h)
  then show ?thesis by (intro lock_inv_move [OF inv, of t Idle]) auto
qed

lemma persist_step_inv:
  assumes "persist_step t s s'" and inv: "lock_inv s"
  shows "lock_inv s'"
  using assms(1)
proof cases
  case persist
  then show ?thesis by (intro lock_inv_move [OF inv, of t Entering]) (auto simp: lock_invD(1) [OF inv])
qed

lemma swap_step_inv:
  assumes "swap_step t s s'" and inv: "lock_inv s"
  shows "lock_inv s'"
proof -
  have mine: "ls_writer s = Some t" if "excl_pc (ls_pc s t)"
    using lock_invD(2) [OF inv] that by simp
  note H = lock_invD(5) [OF inv mine]
  show ?thesis
    using assms(1)
  proof cases
    case start
    then show ?thesis by (intro lock_inv_move [OF inv, of t "Waiting Swap"]) (auto simp: lock_invD(1) [OF inv])
  next
    case lock
    then show ?thesis
      using lock_invD(4) [OF inv] by (intro lock_inv_excl [OF inv, of t "Locked Swap"]) (auto simp: handles_def)
  next
    case no_store
    then show ?thesis
      using H mine by (intro lock_inv_excl [OF inv, of t "Emptied Swap"]) (auto simp: handles_def)
  next
    case close
    then show ?thesis
      using H mine by (intro lock_inv_excl [OF inv, of t "Closing Swap"]) (auto simp: handles_def)
  next
    case clear
    then show ?thesis
      using H mine by (intro lock_inv_excl [OF inv, of t "Emptied Swap"]) (auto simp: handles_def)
  next
    case open_fails
    then show ?thesis
      using H mine by (intro lock_inv_excl [OF inv, of t "Leaving Swap"]) (auto simp: handles_def)
  next
    case open_new
    then show ?thesis
      using H mine by (intro lock_inv_excl [OF inv, of t "Opened (ls_next s)"]) (auto simp: handles_def)
  next
    case (discard h)
    then show ?thesis
      using H mine by (intro lock_inv_excl [OF inv, of t "Emptied Swap"]) (auto simp: handles_def)
  next
    case (publish h)
    then show ?thesis
      using H mine by (intro lock_inv_excl [OF inv, of t "Leaving Swap"]) (auto simp: handles_def)
  next
    case unlock
    then show ?thesis
      using H mine by (intro lock_inv_excl [OF inv, of t Idle]) (auto simp: handles_def)
  qed
qed

lemma closer_step_inv:
  assumes "closer_step t s s'" and inv: "lock_inv s"
  shows "lock_inv s'"
proof -
  have mine: "ls_writer s = Some t" if "excl_pc (ls_pc s t)"
    using lock_invD(2) [OF inv] that by simp
  note H = lock_invD(5) [OF inv mine]
  show ?thesis
    using assms(1)
  proof cases
    case flag
    then show ?thesis by (intro lock_inv_move [OF inv, of t Stopping]) (auto simp: lock_invD(1) [OF inv])
  next
    case stopped
    then show ?thesis by (intro lock_inv_move [OF inv, of t "Waiting Shut"]) (auto simp: lock_invD(1) [OF inv])
  next
    case lock
    then show ?thesis
      using lock_invD(4) [OF inv] by (intro lock_inv_excl [OF inv, of t "Locked Shut"]) (auto simp: handles_def)
  next
    case no_store
    then show ?thesis
      using H mine by (intro lock_inv_excl [OF inv, of t "Leaving Shut"]) (auto simp: handles_def)
  next
    case close
    then show ?thesis
      using H mine by (intro lock_inv_excl [OF inv, of t "Closing Shut"]) (auto simp: handles_def)
  next
    case clear
    then show ?thesis
      using H mine by (intro lock_inv_excl [OF inv, of t "Leaving Shut"]) (auto simp: handles_def)
  next
    case unlock
    then show ?thesis
      using H mine by (intro lock_inv_excl [OF inv, of t Idle]) (auto simp: handles_def)
  qed
qed

lemma reachable_lock_inv: "reachable s \<Longrightarrow> lock_inv s"
proof (induction rule: reachable.induct)
  case init
  show ?case by (simp add: lock_inv_def lock_init_def handles_def)
next
  case (step s s')
  from step(2) show ?case
    by cases (use step(3) in \<open>auto intro: reader_step_inv persist_step_inv swap_step_inv closer_step_inv\<close>)
qed

section \<open>After Close\<close>

fun shut_pc :: "pc \<Rightarrow> bool" where
  "shut_pc (Waiting k) = (k = Shut)"
| "shut_pc (Locked k) = (k = Shut)"
| "shut_pc (Closing k) = (k = Shut)"
| "shut_pc (Leaving k) = (k = Shut)"
| "shut_pc _ = False"

text \<open>Once Raft has stopped, no restore runs; once the closer leaves, the store is gone.\<close>

definition shut_inv :: "lock_state \<Rightarrow> bool" where
  "shut_inv s \<longleftrightarrow>
     (\<forall>t. shut_pc (ls_pc s t) \<longrightarrow> ls_stopped s) \<and>
     (ls_shut s \<longrightarrow> ls_stopped s) \<and>
     (ls_stopped s \<longrightarrow> (\<forall>t. \<not> swap_pc (ls_pc s t))) \<and>
     (\<forall>t. ls_pc s t = Leaving Shut \<longrightarrow> ls_store s = None) \<and>
     (ls_shut s \<longrightarrow> ls_store s = None)"

lemma swap_step_shut:
  assumes "swap_step t s s'" and "\<not> ls_stopped s" and "\<not> ls_shut s"
    and "\<And>u. \<not> shut_pc (ls_pc s u)" and "\<And>u. ls_pc s u \<noteq> Leaving Shut"
  shows "shut_inv s'"
  using assms(1) by cases (use assms(2-) in \<open>auto simp: shut_inv_def\<close>)

lemma closer_step_shut:
  assumes "closer_step t s s'" and inv: "shut_inv s"
  shows "shut_inv s'"
proof -
  have mine: "shut_pc (ls_pc s t) \<Longrightarrow> ls_stopped s" using inv by (auto simp: shut_inv_def)
  from assms(1) show ?thesis
    by cases (use mine inv in \<open>auto simp: shut_inv_def\<close>)
qed

lemma shut_step_inv:
  assumes "lock_step s s'" and "shut_inv s"
  shows "shut_inv s'"
  using assms(1)
proof cases
  case (1 t)
  then show ?thesis using assms(2) by cases (auto simp: shut_inv_def)
next
  case (2 t)
  then show ?thesis using assms(2) by cases (auto simp: shut_inv_def)
next
  case (3 t)
  then have "swap_pc (ls_pc s t) \<or> ls_pc s t = Idle \<and> \<not> ls_stopped s" by cases auto
  with assms(2) have free: "\<not> ls_stopped s" by (auto simp: shut_inv_def)
  then have "\<not> ls_shut s" "\<And>u. \<not> shut_pc (ls_pc s u)" using assms(2) by (auto simp: shut_inv_def)
  then have "\<And>u. ls_pc s u \<noteq> Leaving Shut" by (metis shut_pc.simps(4))
  with free \<open>\<not> ls_shut s\<close> \<open>\<And>u. \<not> shut_pc (ls_pc s u)\<close>
  show ?thesis by (intro swap_step_shut [OF 3])
next
  case (4 t)
  then show ?thesis using assms(2) by (rule closer_step_shut)
qed

lemma reachable_shut_inv: "reachable s \<Longrightarrow> shut_inv s"
proof (induction rule: reachable.induct)
  case init
  show ?case by (simp add: shut_inv_def lock_init_def)
next
  case (step s s')
  then show ?case by (blast intro: shut_step_inv)
qed

section \<open>Progress\<close>

text \<open>A step of one thread; the closer never passes through the cleared position.\<close>

definition thread_step :: "tid \<Rightarrow> lock_state \<Rightarrow> lock_state \<Rightarrow> bool" where
  "thread_step t s s' \<longleftrightarrow>
     reader_step t s s' \<or> persist_step t s s' \<or> swap_step t s s' \<or> closer_step t s s'"

inductive_cases lock_stepE: "lock_step s s'"

lemmas thread_cases = reader_step.cases persist_step.cases swap_step.cases closer_step.cases

lemma lock_step_thread: "lock_step s s' \<longleftrightarrow> (\<exists>t. thread_step t s s')"
  by (auto simp: thread_step_def intro: lock_step.intros elim: lock_stepE)

lemma thread_step_no_empty_shut:
  assumes "thread_step t s s'" and "\<forall>u. ls_pc s u \<noteq> Emptied Shut"
  shows "\<forall>u. ls_pc s' u \<noteq> Emptied Shut"
  using assms unfolding thread_step_def by (elim disjE thread_cases) auto

lemma no_empty_shut: "reachable s \<Longrightarrow> ls_pc s t \<noteq> Emptied Shut"
proof (induction arbitrary: t rule: reachable.induct)
  case init
  show ?case by (simp add: lock_init_def)
next
  case (step s s')
  then show ?case using thread_step_no_empty_shut by (metis lock_step_thread)
qed

text \<open>A thread that has a lock can go on.\<close>

lemma shared_moves:
  assumes "shared_pc (ls_pc s t)"
  shows "\<exists>s'. thread_step t s s'"
proof (cases "ls_pc s t = Shared")
  case True
  then show ?thesis
    by (cases "ls_store s") (auto simp: thread_step_def intro: reader_step.intros)
next
  case False
  with assms obtain h where "ls_pc s t = Using h" by (auto simp: shared_pc_def)
  then show ?thesis by (auto simp: thread_step_def intro: reader_step.runlock)
qed

lemma excl_moves:
  assumes "excl_pc (ls_pc s t)" and "ls_pc s t \<noteq> Emptied Shut"
  shows "\<exists>s'. thread_step t s s'"
proof (cases "ls_pc s t")
  case (Locked k)
  then show ?thesis
    by (cases k; cases "ls_store s") (auto simp: thread_step_def intro: swap_step.intros closer_step.intros)
next
  case (Closing k)
  then show ?thesis
    by (cases k) (auto simp: thread_step_def intro: swap_step.clear closer_step.clear)
next
  case (Emptied k)
  with assms(2) show ?thesis
    by (cases k) (auto simp: thread_step_def intro: swap_step.open_fails)
next
  case (Opened h)
  then show ?thesis by (auto simp: thread_step_def intro: swap_step.publish)
next
  case (Leaving k)
  then show ?thesis
    by (cases k) (auto simp: thread_step_def intro: swap_step.unlock closer_step.unlock)
qed (use assms in simp_all)

lemma waiting_moves:
  assumes "ls_writer s = None" and "ls_readers s = {}" and "ls_pc s t = Entering \<or> ls_pc s t = Waiting k"
  shows "\<exists>s'. thread_step t s s'"
  using assms
  by (cases k) (auto simp: thread_step_def intro: reader_step.rlock swap_step.lock closer_step.lock)

lemma somebody_moves:
  assumes "reachable s" and "ls_pc s t \<noteq> Idle"
  shows "\<exists>u s'. ls_pc s u \<noteq> Idle \<and> thread_step u s s'"
proof -
  have inv: "lock_inv s" by (rule reachable_lock_inv [OF assms(1)])
  consider (writer) u where "ls_writer s = Some u" | (reader) u where "u \<in> ls_readers s"
    | (free) "ls_writer s = None" "ls_readers s = {}" by (cases "ls_writer s") auto
  then show ?thesis
  proof cases
    case (writer u)
    then have "excl_pc (ls_pc s u)" using lock_invD(2) [OF inv] by simp
    with excl_moves [OF this no_empty_shut [OF assms(1)]] show ?thesis by (metis excl_pc.simps(6))
  next
    case (reader u)
    then have "shared_pc (ls_pc s u)" using lock_invD(1) [OF inv] by simp
    with shared_moves [OF this] show ?thesis by (metis shared_pc_simps(3))
  next
    case free
    have no: "\<not> shared_pc (ls_pc s u)" "\<not> excl_pc (ls_pc s u)" for u
      using lock_invD(1,2) [OF inv, of u] free by auto
    show ?thesis
    proof (cases "\<exists>u. ls_pc s u = Entering \<or> (\<exists>k. ls_pc s u = Waiting k)")
      case True
      then obtain u k where u: "ls_pc s u = Entering \<or> ls_pc s u = Waiting k" by blast
      with waiting_moves [OF free u] show ?thesis by (metis pc.distinct(1) pc.distinct(9))
    next
      case False
      then have quiet: "ls_pc s u = Idle \<or> ls_pc s u = Stopping" for u
        using no [of u] by (cases "ls_pc s u") auto
      then have "\<not> swap_pc (ls_pc s u)" for u by (metis swap_pc.simps(7) swap_pc.simps(11))
      moreover have "ls_pc s t = Stopping" using quiet assms(2) by blast
      ultimately show ?thesis
        by (metis assms(2) closer_step.stopped thread_step_def)
    qed
  qed
qed

end
