(* ===== verification/Node_Props.thy ===== *)
theory Node_Props
  imports Read_Props Store_Lock
begin

text \<open>
  The properties of a node as a whole: redirection on followers, waiting for a leader,
  status and members, \<open>Open\<close> and \<open>Close\<close> with the resources they hold, the lock around the
  store, and the configuration.
\<close>

section \<open>Followers\<close>


definition sample_follower :: ref_raft_node where
  "sample_follower = sample_leader\<lparr>rn_State := RS_Follower\<rparr>"


section \<open>Waiting for a leader\<close>

lemma wait_decision_if:
  "wait_decision R db =
     (if db_closed db then Some (Inl (Sentinel ErrClosed)) else map_option Inr (leader_node R db))"
  by (simp add: wait_decision_def checkOpen_def)

text \<open>
  C33: \<open>WaitForLeader\<close> returns. With a clock that every sleep moves on by the poll interval it
  does so within the timeout plus one interval, counted in rounds; it returns the leader of
  the first round in which the node knows one, \<open>ErrClosed\<close> if the node is closed by then, and
  \<open>ErrNoLeader\<close> only after the deadline has passed with no leader in any round.
\<close>

theorem wait_for_leader_bounded:
  assumes "sleeps start leaderPollInterval clk"
  shows "\<exists>n r. WaitForLeader R start dbs clk timeout = Some r \<and>
     (n = 0 \<or> int n * leaderPollInterval < timeout + leaderPollInterval) \<and>
     (\<forall>j < n. \<not> db_closed (dbs j) \<and> leader_node R (dbs j) = None) \<and>
     (case r of
        Inr node \<Rightarrow> \<not> db_closed (dbs n) \<and> leader_node R (dbs n) = Some node
      | Inl e \<Rightarrow> db_closed (dbs n) \<and> e = Sentinel ErrClosed \<or>
          \<not> db_closed (dbs n) \<and> leader_node R (dbs n) = None \<and> start + timeout \<le> clk n \<and>
          errors_is e ErrNoLeader)"
proof -
  have "0 < leaderPollInterval" by (simp add: leaderPollInterval_def)
  then show ?thesis
  proof (rule wfl.ends [OF assms, of "start + timeout" R dbs timeout])
    fix n
    assume n: "int n * leaderPollInterval < start + timeout - start + leaderPollInterval \<or> n = 0"
      and stop: "wait_decision R (dbs n) \<noteq> None \<or> start + timeout \<le> clk n"
      and before: "\<And>j. j < n \<Longrightarrow> wait_decision R (dbs j) = None \<and> clk j < start + timeout"
      and r: "wait_loop R dbs clk timeout (start + timeout) 0 =
        Some (case wait_decision R (dbs n) of Some x \<Rightarrow> x
          | None \<Rightarrow> Inl (Errorf ''%w after %s'' [FDur timeout] (Sentinel ErrNoLeader)))"
    have "\<forall>j < n. \<not> db_closed (dbs j) \<and> leader_node R (dbs j) = None"
      using before by (metis map_option_is_None option.distinct(1) wait_decision_if)
    moreover define res where "res = (case wait_decision R (dbs n) of Some x \<Rightarrow> x
          | None \<Rightarrow> Inl (Errorf ''%w after %s'' [FDur timeout] (Sentinel ErrNoLeader)))"
    moreover have "case res of
        Inr node \<Rightarrow> \<not> db_closed (dbs n) \<and> leader_node R (dbs n) = Some node
      | Inl e \<Rightarrow> db_closed (dbs n) \<and> e = Sentinel ErrClosed \<or>
          \<not> db_closed (dbs n) \<and> leader_node R (dbs n) = None \<and> start + timeout \<le> clk n \<and>
          errors_is e ErrNoLeader"
      using stop by (cases "db_closed (dbs n)"; cases "leader_node R (dbs n)")
        (simp_all add: res_def wait_decision_if)
    ultimately show ?thesis
      using n r by (intro exI [of _ n] exI [of _ res])
        (auto simp: WaitForLeader_def waitForLeader_def)
  qed
qed

theorem wait_for_leader_bounded_example:
  "\<exists>n r. WaitForLeader ref_raft 0 (\<lambda>i. sample_node [] (if i < 3 then sample_leader\<lparr>rn_Leader := ([], [])\<rparr>
       else sample_leader)) (\<lambda>i. int i * leaderPollInterval) (5 * second) = Some r \<and>
     (n = 0 \<or> int n * leaderPollInterval < 5 * second + leaderPollInterval)"
proof -
  have "sleeps 0 leaderPollInterval (\<lambda>i. int i * leaderPollInterval)"
    by (simp add: sleeps_def leaderPollInterval_def)
  from wait_for_leader_bounded [OF this, of ref_raft "\<lambda>i. sample_node [] (if i < 3 then
      sample_leader\<lparr>rn_Leader := ([], [])\<rparr> else sample_leader)" "5 * second"]
  show ?thesis by blast
qed

section \<open>Status and members\<close>

lemma local_role_member:
  "distinct (map srv_ID servers) \<Longrightarrow>
     (\<forall>m \<in> set (map node_of servers). node_ID m = i \<longrightarrow> local_role i role servers = node_Role m) \<and>
     (i \<notin> srv_ID ` set servers \<longrightarrow> local_role i role servers = role)"
proof (induction servers)
  case (Cons s servers)
  have "srv_ID m \<noteq> srv_ID s" if "m \<in> set servers" for m
    using that Cons.prems by (metis distinct.simps(2) image_eqI list.set_map list.simps(9))
  with Cons show ?case by (cases "srv_ID s = i") (auto simp: node_of_def)
qed simp

text \<open>
  \<open>Status\<close> and \<open>Members\<close> agree, and report what Raft says. The local role is that of the
  member with this node's ID, and \<open>RoleNone\<close> when there is none; the state is \<open>StateLeader\<close>
  exactly when Raft leads; a leader is reported exactly when Raft knows its ID; the applied
  index is the FSM's.
\<close>

theorem status_agrees_with_members:
  assumes "DB_Status R db = Inr st" and "Members R db = Inr members"
    and "r_GetConfiguration R (db_raft db) = Inr servers" and "distinct (map srv_ID servers)"
  shows "(\<forall>m \<in> set members. node_ID m = node_ID (st_Local st) \<longrightarrow> node_Role (st_Local st) = node_Role m) \<and>
     (node_ID (st_Local st) \<notin> node_ID ` set members \<longrightarrow> node_Role (st_Local st) = RoleNone) \<and>
     node_ID (st_Local st) = cfg_NodeID (db_cfg db) \<and> st_AppliedIndex st = db_appliedIndex db \<and>
     (st_State st = StateLeader \<longleftrightarrow> r_State R (db_raft db) = RS_Leader) \<and>
     (st_Leader st = None \<longleftrightarrow> snd (r_LeaderWithID R (db_raft db)) = [])"
proof -
  from assms(1) have o: "checkOpen db = None" by (auto simp: DB_Status_def split: option.splits)
  with assms have members: "members = map node_of servers"
    and st: "st = \<lparr>st_Local = \<lparr>node_ID = cfg_NodeID (db_cfg db), node_RaftAddr = r_LocalAddr R (db_raft db),
        node_Role = local_role (cfg_NodeID (db_cfg db)) RoleNone servers\<rparr>,
      st_State = stateFromRaft (r_State R (db_raft db)), st_Leader = leader_node R db,
      st_AppliedIndex = db_appliedIndex db\<rparr>"
    by (simp_all add: DB_Status_def Members_def)
  have ids: "node_ID ` set members = srv_ID ` set servers"
    by (auto simp: members node_of_def image_image)
  show ?thesis
    using local_role_member [OF assms(4), of "cfg_NodeID (db_cfg db)" RoleNone] ids
    by (auto simp: st members stateFromRaft_Leader_iff leader_node_def split: prod.splits if_splits)
qed

theorem status_agrees_with_members_example:
  "\<exists>st members. DB_Status ref_raft (sample_node [] sample_leader) = Inr st \<and>
     Members ref_raft (sample_node [] sample_leader) = Inr members \<and> st_State st = StateLeader"
proof -
  let ?db = "sample_node [] sample_leader"
  have "\<exists>st. DB_Status ref_raft ?db = Inr st" "\<exists>ms. Members ref_raft ?db = Inr ms"
    by (simp_all add: DB_Status_def Members_def checkOpen_def ref_raft_def)
  then obtain st ms where st: "DB_Status ref_raft ?db = Inr st" and ms: "Members ref_raft ?db = Inr ms"
    by blast
  have "r_GetConfiguration ref_raft (db_raft ?db) = Inr (rn_Servers sample_leader)"
    "distinct (map srv_ID (rn_Servers sample_leader))"
    by (simp_all add: ref_raft_def sample_leader_def)
  from status_agrees_with_members [OF st ms this] st ms show ?thesis by auto
qed

text \<open>
  The raw statistics stay available after \<open>Close\<close> and carry the applied index in a form
  that reads back: the decimal string under \<open>honeybadger_applied_index\<close> denotes exactly the
  counter, and every other entry is Raft's.
\<close>

theorem raw_stats_applied_index:
  "\<exists>s. RawRaftStats R db ''honeybadger_applied_index'' = Some s \<and>
     read_nat 0 s = unat (db_appliedIndex db) \<and>
     RawRaftStats R (db\<lparr>db_closed := True\<rparr>) = RawRaftStats R db \<and>
     (\<forall>k \<in> - {''honeybadger_applied_index''}. RawRaftStats R db k = r_Stats R (db_raft db) k)"
  by (simp add: RawRaftStats_def read_show_nat)

theorem raw_stats_applied_index_example:
  "\<exists>s. RawRaftStats ref_raft ((sample_node [] sample_leader)\<lparr>db_appliedIndex := 1234\<rparr>)
       ''honeybadger_applied_index'' = Some s \<and> read_nat 0 s = 1234"
  using raw_stats_applied_index [of ref_raft "(sample_node [] sample_leader)\<lparr>db_appliedIndex := 1234\<rparr>"]
  by auto

section \<open>Open\<close>

definition raw_config :: "unit Config" where
  "raw_config =
     \<lparr>cfg_NodeID = ''n1'', cfg_RaftBind = ''127.0.0.1:7001'', cfg_DataDir = ''/d'',
      cfg_Advanced = \<lparr>adv_ApplyTimeout = 0, adv_SnapshotThreshold = 0, adv_RaftAdvertise = [],
        adv_BadgerOptions = None, adv_LogOutput = None\<rparr>\<rparr>"

text \<open>The sample environment with a transport that may fail to open.\<close>

definition transport_env :: "gerror option \<Rightarrow> (ref_raft_node, unit, ref_store, unit) raft_env" where
  "transport_env e = sample_env\<lparr>e_NewTCPTransport := (\<lambda>a b n t s. of_err e)\<rparr>"

definition sample_open :: "gerror option \<Rightarrow> OpenOption list \<Rightarrow>
    (ref_db, ref_raft_node, unit, ref_store) open_outcome option" where
  "sample_open e options = DB_Open ref_badger ref_storage ref_raft no_faults (transport_env e)
     sample_defaults (\<lambda>a. Inr ()) raw_config options empty_world"

lemma transport_sleeps [simp]:
  "sleeps (e_now (transport_env e)) leaderPollInterval (e_clock (transport_env e))"
  using sample_sleeps by (simp add: transport_env_def)

text \<open>
  \<open>Open\<close> always returns, if only time passes while it sleeps: whatever the file system,
  Badger, Raft's constructors and the first election do, there is an outcome.
\<close>

theorem open_returns:
  assumes "sleeps (e_now env) leaderPollInterval (e_clock env)"
  shows "\<exists>out. DB_Open B S R F env defs res cfg options w = Some out"
  using assms by (rule DB_Open_returns)

theorem open_returns_example:
  "\<exists>out. DB_Open ref_badger ref_storage ref_raft no_faults (transport_env None)
     sample_defaults (\<lambda>a. Inr ()) raw_config [NewCluster] empty_world = Some out"
  by (rule open_returns [OF transport_sleeps])


lemma sample_open_fails:
  "\<exists>out e'. sample_open (Some (Plain ''bind'')) [] = Some out \<and> oo_result out = Inl e' \<and>
     oo_trace out = [Acquired StoreHandle, Acquired BoltHandle, Released BoltHandle, Released StoreHandle]"
  by (simp add: sample_open_def DB_Open_def parseOpenOptions_def validateConfig_def raw_config_def
      resolveAdvertise_def frame_simps open_badger_def os_MkdirAll_def no_faults_def badger_Open_def
      ref_storage_def ref_Open_def open_raft_side_def transport_env_def sample_env_def give_up_def
      closeStore_def new_db_def badger_Close_def Let_def split: prod.splits)


text \<open>
  C26: a node that \<open>Open\<close> returns is ready: it holds exactly the database, the log store, the
  transport and the Raft node; it is not closed; its configuration was valid and has the
  defaults filled in; its Badger options are the ones resolved from it; and when a new
  cluster was asked for, a leader had been observed.
\<close>

theorem opened_node_ready:
  assumes "DB_Open B S R F env defs res cfg options w = Some out" and "oo_result out = Inr db"
  shows "held_after [] (oo_trace out) = [RaftHandle, TransportHandle, BoltHandle, StoreHandle] \<and>
     \<not> db_closed db \<and> db_cfg db = setDefaults cfg \<and> validateConfig cfg = None \<and>
     db_badgerOpts db = resolveBadgerOptions defs (setDefaults cfg) \<and>
     db_badgerDir db = opt_Dir (db_badgerOpts db) \<and>
     (options \<noteq> [] \<longrightarrow> (\<exists>r i. leader_node R (db\<lparr>db_raft := e_polls env r i\<rparr>) \<noteq> None))"
  using DB_Open_result [OF assms(1)] assms(2) by (auto simp: fresh_node_def raft_side_held_def)

lemma sample_open_works:
  "\<exists>out db. sample_open None [] = Some out \<and> oo_result out = Inr db"
  by (simp add: sample_open_def DB_Open_def parseOpenOptions_def validateConfig_def raw_config_def
      resolveAdvertise_def frame_simps open_badger_def os_MkdirAll_def no_faults_def badger_Open_def
      ref_storage_def ref_Open_def open_raft_side_def transport_env_def sample_env_def start_node_def
      bootstrap_def Let_def split: prod.splits)

theorem opened_node_ready_example:
  "\<exists>out db. sample_open None [] = Some out \<and> oo_result out = Inr db \<and> \<not> db_closed db \<and>
     held_after [] (oo_trace out) = [RaftHandle, TransportHandle, BoltHandle, StoreHandle]"
proof -
  obtain out db where out: "sample_open None [] = Some out" "oo_result out = Inr db"
    using sample_open_works by blast
  with opened_node_ready [OF out(1) [unfolded sample_open_def] out(2)] show ?thesis by blast
qed

section \<open>Close\<close>



text \<open>
  C28: after \<open>Close\<close> every operation with valid arguments fails with \<open>ErrClosed\<close> and leaves the
  node as it is: writes (even an empty batch), reads in both modes, membership changes, the
  barrier, the snapshot, status, members and the wait for a leader.
\<close>

theorem closed_node_refuses:
  assumes "db_closed db" and "valid_set key opts" and "valid_voter node" and "id' \<noteq> []"
    and "0 \<le> ro_Timeout ro" and "ro_Mode ro \<in> {ReadLinearizable, ReadLocal}" and "so_Read so = ro"
    and "0 \<le> so_Limit so"
  shows "(\<forall>x \<in> {SetBytes B R reg now db key v opts, DeleteBytes B R reg db key, Batch B R reg clock db ms,
        AddVoter B R node db, RemoveNode B R id' db, Barrier B R db t, DB_Snapshot B R db,
        ViewBadger B R now db ro (Some fn)}. x = (db, Some (Sentinel ErrClosed))) \<and>
     GetBytes B R now db key ro = (db, Inl (Sentinel ErrClosed)) \<and>
     ScanPrefixBytes B R now db pre so = (db, Some (Inl (Sentinel ErrClosed))) \<and>
     DB_Status R db = Inl (Sentinel ErrClosed) \<and> Members R db = Inl (Sentinel ErrClosed) \<and>
     WaitForLeader R start (\<lambda>i. db) clk timeout = Some (Inl (Sentinel ErrClosed))"
proof -
  from assms(2) have key: "key \<noteq> []" by (simp add: valid_set_def)
  have p: "prepareRead B R db ro = (db, Some (Sentinel ErrClosed))"
    by (rule prepareRead_closed [OF assms(1,5,6)])
  obtain limit where "resolveLimit so = Inr limit"
    using assms(8) by (cases rule: resolveLimit_cases [of so]) auto
  moreover have "WaitForLeader R start (\<lambda>i. db) clk timeout = Some (Inl (Sentinel ErrClosed))"
    unfolding WaitForLeader_def waitForLeader_def
    by (subst wait_loop.simps) (simp add: guard_simps assms(1))
  ultimately show ?thesis
    using assms(1,7) key p
    by (simp add: set_call.closed [OF assms(2,1)] delete_call.closed [OF key assms(1)]
        AddVoter.closed [OF assms(3,1)] RemoveNode.closed [OF assms(4,1)] Batch_def Barrier_def
        DB_Snapshot_def ViewBadger_def GetBytes_def ScanPrefixBytes_def DB_Status_def Members_def checkOpen_def)
qed

theorem closed_node_refuses_example:
  "GetBytes ref_badger ref_raft 0 ((after_set 0)\<lparr>db_closed := True\<rparr>) key_k local_read =
     ((after_set 0)\<lparr>db_closed := True\<rparr>, Inl (Sentinel ErrClosed))"
proof -
  have "db_closed ((after_set 0)\<lparr>db_closed := True\<rparr>)" "valid_set key_k []"
    "valid_voter \<lparr>node_ID = ''n2'', node_RaftAddr = ''a'', node_Role = RoleNone\<rparr>" "''n2'' \<noteq> ([] :: string)"
    "0 \<le> ro_Timeout local_read" "ro_Mode local_read \<in> {ReadLinearizable, ReadLocal}"
    "so_Read \<lparr>so_Read = local_read, so_Limit = 0, so_Unlimited = False\<rparr> = local_read"
    "0 \<le> so_Limit \<lparr>so_Read = local_read, so_Limit = 0, so_Unlimited = False\<rparr>"
    by (simp_all add: valid_set_def valid_voter_def local_read_def)
  from closed_node_refuses [OF this, of ref_badger ref_raft] show ?thesis by blast
qed

section \<open>The lock around the store\<close>

text \<open>
  C17: in every interleaving of operations, snapshots, restores and \<open>Close\<close>, a thread inside a
  store callback uses a handle that is open and is the published one, and no thread holds
  the lock exclusively meanwhile: the database is never closed or swapped under a reader.
\<close>

theorem store_in_use_is_open:
  assumes "reachable s" and "ls_pc s t = Using h"
  shows "h \<in> ls_open s \<and> ls_store s = Some h \<and> ls_writer s = None"
proof -
  have inv: "lock_inv s" by (rule reachable_lock_inv [OF assms(1)])
  have st: "ls_store s = Some h" by (rule lock_invD(6) [OF inv assms(2)])
  have "t \<in> ls_readers s" using lock_invD(1) [OF inv, of t] assms(2) by simp
  then have w: "ls_writer s = None" using lock_invD(3) [OF inv] by (cases "ls_writer s") auto
  with st lock_invD(4) [OF inv] show ?thesis by simp
qed

definition one_reader :: lock_state where
  "one_reader = at 5 (Using 0) (at 5 Shared ((at 5 Entering lock_init)\<lparr>ls_readers := {5}\<rparr>))"

lemma one_reader_reachable: "reachable one_reader"
proof -
  have 1: "reachable (at 5 Entering lock_init)"
    by (rule reachable.step [OF reachable.init lock_step.intros(1) [OF reader_step.check]])
      (simp_all add: lock_init_def)
  have "reader_step 5 (at 5 Entering lock_init)
      (at 5 Shared ((at 5 Entering lock_init)\<lparr>ls_readers := insert 5 (ls_readers (at 5 Entering lock_init))\<rparr>))"
    by (rule reader_step.rlock) (simp_all add: lock_init_def)
  then have 2: "reachable (at 5 Shared ((at 5 Entering lock_init)\<lparr>ls_readers := {5}\<rparr>))"
    using reachable.step [OF 1 lock_step.intros(1)] by (simp add: lock_init_def)
  show ?thesis
    unfolding one_reader_def
    by (rule reachable.step [OF 2 lock_step.intros(1) [OF reader_step.use]]) (simp_all add: lock_init_def)
qed

theorem store_in_use_is_open_example:
  "0 \<in> ls_open one_reader \<and> ls_store one_reader = Some 0 \<and> ls_writer one_reader = None"
  by (rule store_in_use_is_open [OF one_reader_reachable, of 5]) (simp add: one_reader_def)





section \<open>Configuration\<close>

text \<open>
  With the default layout the directories a node uses never overlap: none of the Badger
  directory, its staging and backup siblings, and Raft's directory lies under another,
  whatever the data directory is called.
\<close>

theorem data_directories_apart:
  assumes "cfg_DataDir cfg \<noteq> []" and "adv_BadgerOptions (cfg_Advanced cfg) = None"
    and "\<And>dir. opt_Dir (defs dir) = dir"
  shows "let live = opt_Dir (resolveBadgerOptions defs cfg);
      dirs = [live, stagingDir_of live, backupDir_of live, raftDir cfg] in
    \<forall>i < 4. \<forall>j < 4. i \<noteq> j \<longrightarrow> \<not> under (dirs ! i) (dirs ! j)"
proof -
  let ?base = "join_base (cfg_DataDir cfg)"
  have "filepath_Join (cfg_DataDir cfg) ''badger'' = ?base @ ''badger''"
    "filepath_Join (cfg_DataDir cfg) ''raft'' = ?base @ ''raft''"
    by (rule filepath_Join_plain [OF assms(1)]; simp)+
  then show ?thesis
    using assms(2,3)
    by (simp add: resolveBadgerOptions_def raftDir_def Let_def All_less_Suc numeral_eq_Suc
        stagingDir_of_def backupDir_of_def under_def)
qed

theorem data_directories_apart_example:
  "\<not> under (opt_Dir (resolveBadgerOptions sample_defaults raw_config)) (raftDir raw_config)"
proof -
  have "cfg_DataDir raw_config \<noteq> []" "adv_BadgerOptions (cfg_Advanced raw_config) = None"
    "\<And>dir. opt_Dir (sample_defaults dir) = dir"
    by (simp_all add: raw_config_def sample_defaults_def)
  from data_directories_apart [OF this] show ?thesis
    by (simp add: Let_def All_less_Suc numeral_eq_Suc)
qed

text \<open>
  The defaults make a configuration usable and respect what the caller chose: the apply
  timeout is positive and the snapshot threshold is not zero, a log writer is set, values
  that were already valid are kept, every other field is untouched, and applying the defaults
  again changes nothing.
\<close>

theorem defaults_complete:
  "0 < adv_ApplyTimeout (cfg_Advanced (setDefaults cfg)) \<and>
   adv_SnapshotThreshold (cfg_Advanced (setDefaults cfg)) \<noteq> 0 \<and>
   adv_LogOutput (cfg_Advanced (setDefaults cfg)) \<noteq> None \<and>
   adv_ApplyTimeout (cfg_Advanced (setDefaults cfg)) \<in>
     {adv_ApplyTimeout (cfg_Advanced cfg), defaultApplyTimeout} \<and>
   (if 0 < adv_ApplyTimeout (cfg_Advanced cfg)
    then adv_ApplyTimeout (cfg_Advanced (setDefaults cfg)) = adv_ApplyTimeout (cfg_Advanced cfg) else True) \<and>
   (if adv_SnapshotThreshold (cfg_Advanced cfg) \<noteq> 0
    then adv_SnapshotThreshold (cfg_Advanced (setDefaults cfg)) = adv_SnapshotThreshold (cfg_Advanced cfg)
    else True) \<and>
   validateConfig (setDefaults cfg) = validateConfig cfg \<and>
   setDefaults (setDefaults cfg) = setDefaults cfg"
  by (simp add: setDefaults_positive setDefaults_threshold setDefaults_output setDefaults_idem
      validateConfig_def frame_simps) (simp add: setDefaults_def Let_def)

text \<open>
  The printed forms are unambiguous: two roles, two states or two read modes with the
  same string are equal, unknown values included.
\<close>

lemma printed_forms_injective:
  "inj NodeRole_String \<and> inj State_String \<and> inj ReadMode_String"
proof (intro conjI injI)
  fix r s :: byte
  show "NodeRole_String r = NodeRole_String s \<Longrightarrow> r = s" by (rule NodeRole_String_inj)
  show "State_String r = State_String s \<Longrightarrow> r = s" by (rule State_String_inj)
  show "ReadMode_String r = ReadMode_String s \<Longrightarrow> r = s"
    unfolding ReadMode_String_def
    by (auto simp: show_nat_inj mode_defs word_unat_eq_iff split: if_splits)
qed

end
