(* ===== verification/Node_Life.thy ===== *)
theory Node_Life
  imports Node_Props Replication
begin

text \<open>
  The life of one node as a sequence of calls: every method of \<open>DB\<close> that can change it and
  every callback that Raft makes into its FSM, in any order, between \<open>Open\<close> and after
  \<open>Close\<close>. Locale \<open>shell_call\<close> is the contract all but two of them share: what was fixed when
  the node was opened stays as it is.
\<close>

section \<open>Calls\<close>

text \<open>
  The methods, the two FSM callbacks that change the node, and whatever Raft does to its own
  state in between. A call brings the clock it reads.
\<close>

datatype ('r, 'v, 's) node_call =
    CallSetBytes time bytes bytes "SetOption list"
  | CallDeleteBytes bytes
  | CallBatch "nat \<Rightarrow> time" "Mutation list"
  | CallGetBytes time bytes ReadOptions
  | CallScan time bytes ScanOptions
  | CallView time ReadOptions "('v \<Rightarrow> gerror option) option"
  | CallBarrier duration
  | CallAddVoter Node
  | CallRemoveNode string
  | CallSnapshot
  | RaftMoves 'r
  | RaftApplies raft_log
  | RaftRestores 's
  | CallClose

text \<open>After \<open>Close\<close> Raft is shut down and restores nothing any more.\<close>

fun perform ::
    "('b,'t,'v,'i,'m) badger_api \<Rightarrow> ('b,'o,'d,'s) storage_api \<Rightarrow> 'r raft_api \<Rightarrow> 'd faults \<Rightarrow>
     gob_registry \<Rightarrow> ('r,'v,'s) node_call \<Rightarrow> ('b,'r,'o) DB \<times> 'd world \<Rightarrow> ('b,'r,'o) DB \<times> 'd world" where
  "perform B S R F reg (CallSetBytes now key v opts) (db, w) = (fst (SetBytes B R reg now db key v opts), w)"
| "perform B S R F reg (CallDeleteBytes key) (db, w) = (fst (DeleteBytes B R reg db key), w)"
| "perform B S R F reg (CallBatch clock ms) (db, w) = (fst (Batch B R reg clock db ms), w)"
| "perform B S R F reg (CallGetBytes now key ro) (db, w) = (fst (GetBytes B R now db key ro), w)"
| "perform B S R F reg (CallScan now pre so) (db, w) = (fst (ScanPrefixBytes B R now db pre so), w)"
| "perform B S R F reg (CallView now ro fn) (db, w) = (fst (ViewBadger B R now db ro fn), w)"
| "perform B S R F reg (CallBarrier t) (db, w) = (fst (Barrier B R db t), w)"
| "perform B S R F reg (CallAddVoter node) (db, w) = (fst (AddVoter B R node db), w)"
| "perform B S R F reg (CallRemoveNode id') (db, w) = (fst (RemoveNode B R id' db), w)"
| "perform B S R F reg CallSnapshot (db, w) = (fst (DB_Snapshot B R db), w)"
| "perform B S R F reg (RaftMoves r) (db, w) = (db\<lparr>db_raft := r\<rparr>, w)"
| "perform B S R F reg (RaftApplies l) (db, w) = (fst (fsm_Apply B db l), w)"
| "perform B S R F reg (RaftRestores s) (db, w) =
     (if db_closeResult db = None then fst (fsm_Restore S F (db, w) s) else (db, w))"
| "perform B S R F reg CallClose (db, w) = fst (fst (DB_Close B S R (db, w)))"

definition perform_all ::
    "('b,'t,'v,'i,'m) badger_api \<Rightarrow> ('b,'o,'d,'s) storage_api \<Rightarrow> 'r raft_api \<Rightarrow> 'd faults \<Rightarrow>
     gob_registry \<Rightarrow> ('r,'v,'s) node_call list \<Rightarrow> ('b,'r,'o) DB \<times> 'd world \<Rightarrow> ('b,'r,'o) DB \<times> 'd world" where
  "perform_all B S R F reg calls = fold (perform B S R F reg) calls"

section \<open>What a call leaves alone\<close>

text \<open>The fields set at \<open>Open\<close> and at \<open>Close\<close>, and whether there is a store.\<close>

definition same_shell :: "('b,'r,'o) DB \<Rightarrow> ('b,'r,'o) DB \<Rightarrow> bool" where
  "same_shell db db' \<longleftrightarrow>
     db_cfg db' = db_cfg db \<and> db_badgerOpts db' = db_badgerOpts db \<and> db_badgerDir db' = db_badgerDir db \<and>
     db_closed db' = db_closed db \<and> db_closeResult db' = db_closeResult db \<and>
     (db_store db' = None) = (db_store db = None)"

lemma same_shell_refl [simp]: "same_shell db db"
  and same_shell_raft [simp]: "same_shell db (db'\<lparr>db_raft := r\<rparr>) = same_shell db db'"
    "same_shell (db\<lparr>db_raft := r\<rparr>) db' = same_shell db db'"
  and same_shell_trans: "same_shell db db' \<Longrightarrow> same_shell db' db'' \<Longrightarrow> same_shell db db''"
  by (auto simp: same_shell_def)

lemma fsm_run_shell: "fsm_run B db ls = (db', rs) \<Longrightarrow> same_shell db db'"
  using fsm_run_frame [of B db ls db' rs] by (simp add: same_shell_def)

lemma submit_shell [simp]: "same_shell db (fst (fsm_run B (db\<lparr>db_raft := r\<rparr>) ls))"
  using fsm_run_shell [of B "db\<lparr>db_raft := r\<rparr>" ls] by (metis prod.collapse same_shell_raft(2))

lemma Apply_shell [simp]: "same_shell db (fst (fsm_Apply B db l))"
proof -
  obtain db' r where "fsm_Apply B db l = (db', r)" by fastforce
  then show ?thesis using fsm_Apply_frame [of B db l db' r] by (simp add: same_shell_def)
qed

lemma DB_apply_shell [simp]: "same_shell db (fst (DB_apply B R reg db cmd))"
  by (auto simp: DB_apply_def case_prod_beta Let_def split: option.split sum.split)

lemma Barrier_shell [simp]: "same_shell db (fst (Barrier B R db t))"
  by (simp add: Barrier_def case_prod_beta Let_def split: option.split)

lemma prepareRead_shell [simp]: "same_shell db (fst (prepareRead B R db ro))"
  by (auto simp: prepareRead_def split: option.split)

text \<open>A node as \<open>Open\<close> makes it and every call keeps it.\<close>

definition well_formed :: "(path \<Rightarrow> 'o badger_options) \<Rightarrow> ('b,'r,'o) DB \<Rightarrow> bool" where
  "well_formed defs db \<longleftrightarrow>
     validateConfig (db_cfg db) = None \<and> 0 < adv_ApplyTimeout (cfg_Advanced (db_cfg db)) \<and>
     adv_SnapshotThreshold (cfg_Advanced (db_cfg db)) \<noteq> 0 \<and>
     adv_LogOutput (cfg_Advanced (db_cfg db)) \<noteq> None \<and>
     db_badgerOpts db = resolveBadgerOptions defs (db_cfg db) \<and> db_badgerDir db = opt_Dir (db_badgerOpts db) \<and>
     (db_closed db \<longleftrightarrow> db_closeResult db \<noteq> None) \<and> (db_closed db \<longrightarrow> db_store db = None)"

lemma well_formed_shell: "same_shell db db' \<Longrightarrow> well_formed defs db \<Longrightarrow> well_formed defs db'"
  by (simp add: same_shell_def well_formed_def)

locale shell_call =
  fixes call :: "('b,'r,'o) DB \<Rightarrow> ('b,'r,'o) DB"
  assumes shell: "same_shell db (call db)"
begin

lemma keeps_wf: "well_formed defs db \<Longrightarrow> well_formed defs (call db)"
  using well_formed_shell [OF shell] .

lemma keeps_closed:
  "db_closeResult db = Some r \<Longrightarrow> db_store db = None \<Longrightarrow> db_closed db \<Longrightarrow>
     db_closeResult (call db) = Some r \<and> db_store (call db) = None \<and> db_closed (call db)"
  using shell [of db] by (simp add: same_shell_def)

end

interpretation sh_set: shell_call "\<lambda>db. fst (SetBytes B R reg now db key v opts)" for B R reg now key v opts
  by unfold_locales (simp add: SetBytes_def split: sum.split)

interpretation sh_delete: shell_call "\<lambda>db. fst (DeleteBytes B R reg db key)" for B R reg key
  by unfold_locales (simp add: DeleteBytes_def)

interpretation sh_batch: shell_call "\<lambda>db. fst (Batch B R reg clock db ms)" for B R reg clock ms
  by unfold_locales (simp add: Batch_def split: option.split sum.split)

interpretation sh_get: shell_call "\<lambda>db. fst (GetBytes B R now db key ro)" for B R now key ro
  by unfold_locales (simp add: GetBytes_def case_prod_beta Let_def split: option.split)

interpretation sh_scan: shell_call "\<lambda>db. fst (ScanPrefixBytes B R now db pre so)" for B R now pre so
  by unfold_locales (simp add: ScanPrefixBytes_def case_prod_beta Let_def split: option.split sum.split)

interpretation sh_view: shell_call "\<lambda>db. fst (ViewBadger B R now db ro fn)" for B R now ro fn
  by unfold_locales (simp add: ViewBadger_def case_prod_beta Let_def split: option.split)

interpretation sh_barrier: shell_call "\<lambda>db. fst (Barrier B R db t)" for B R t
  by unfold_locales simp

interpretation sh_add: shell_call "\<lambda>db. fst (AddVoter B R node db)" for B R node
  by unfold_locales (simp add: AddVoter_def case_prod_beta Let_def split: option.split)

interpretation sh_remove: shell_call "\<lambda>db. fst (RemoveNode B R id' db)" for B R id'
  by unfold_locales (simp add: RemoveNode_def case_prod_beta Let_def split: option.split)

interpretation sh_snapshot: shell_call "\<lambda>db. fst (DB_Snapshot B R db)" for B R
  by unfold_locales (simp add: DB_Snapshot_def case_prod_beta Let_def split: option.split)

interpretation sh_apply: shell_call "\<lambda>db. fst (fsm_Apply B db l)" for B l
  by unfold_locales simp

lemmas keeps_wf = sh_set.keeps_wf sh_delete.keeps_wf sh_batch.keeps_wf sh_get.keeps_wf sh_scan.keeps_wf
  sh_view.keeps_wf sh_barrier.keeps_wf sh_add.keeps_wf sh_remove.keeps_wf sh_snapshot.keeps_wf
  sh_apply.keeps_wf

lemmas keeps_closed = sh_set.keeps_closed sh_delete.keeps_closed sh_batch.keeps_closed
  sh_get.keeps_closed sh_scan.keeps_closed sh_view.keeps_closed sh_barrier.keeps_closed
  sh_add.keeps_closed sh_remove.keeps_closed sh_snapshot.keeps_closed sh_apply.keeps_closed

section \<open>Every sequence of calls\<close>

lemma restore_wf:
  assumes "well_formed defs db" and "db_closeResult db = None"
  shows "well_formed defs (fst (fst (fsm_Restore S F (db, w) s)))"
proof -
  obtain db' w' r where "fsm_Restore S F (db, w) s = ((db', w'), r)" by (metis prod.collapse)
  with fsm_Restore_frame [OF this] assms show ?thesis by (simp add: well_formed_def)
qed

lemma close_wf:
  assumes "well_formed defs db"
  shows "well_formed defs (fst (fst (fst (DB_Close B S R (db, w)))))"
proof (cases "db_closeResult db")
  case None
  obtain db' w' es r where c: "DB_Close B S R (db, w) = (((db', w'), es), r)" by (metis prod.collapse)
  from Close_first_world(1-5) [OF c None] DB_Close_first(3) [OF c None] assms c show ?thesis
    by (simp add: well_formed_def)
qed (use assms in \<open>simp add: DB_Close_again\<close>)

lemma perform_wf: "well_formed defs (fst dw) \<Longrightarrow> well_formed defs (fst (perform B S R F reg c dw))"
  by (cases dw; cases c) (simp_all add: keeps_wf restore_wf close_wf, simp add: well_formed_def)

lemma perform_closed:
  assumes "db_closeResult (fst dw) = Some r" and "db_store (fst dw) = None" and "db_closed (fst dw)"
  shows "db_closeResult (fst (perform B S R F reg c dw)) = Some r \<and>
     db_store (fst (perform B S R F reg c dw)) = None \<and> db_closed (fst (perform B S R F reg c dw)) \<and>
     snd (perform B S R F reg c dw) = snd dw"
  using assms by (cases dw; cases c) (simp_all add: keeps_closed DB_Close_again)

text \<open>
  C20: a node is well formed throughout its life. Whatever sequence of method calls, FSM
  callbacks and closes follows a successful \<open>Open\<close>, the configuration stays valid with its
  defaults filled in, the Badger options and directory stay those resolved from it, the node
  is marked closed exactly when \<open>Close\<close> has run, and a closed node has no store.
\<close>

theorem node_always_well_formed:
  assumes "DB_Open B S R F env defs res cfg options w = Some out" and "oo_result out = Inr db"
  shows "well_formed defs (fst (perform_all B S R F reg calls (db, w')))"
proof -
  have "well_formed defs db"
    using DB_Open_result [OF assms(1)] assms(2) setDefaults_positive setDefaults_threshold setDefaults_output
    by (auto simp: fresh_node_def well_formed_def validateConfig_None_iff frame_simps)
  then have "well_formed defs (fst (db, w'))" by simp
  then show ?thesis
    unfolding perform_all_def by (induction calls arbitrary: db w' rule: rev_induct) (auto intro: perform_wf)
qed

theorem node_always_well_formed_example:
  "\<exists>out db. sample_open None [] = Some out \<and> oo_result out = Inr db \<and>
     well_formed sample_defaults (fst (perform_all ref_badger ref_storage ref_raft no_faults sample_registry
       [CallSetBytes 0 key_k val_v [], RaftApplies (sample_log 2 (delete_command key_k)), RaftRestores [],
        CallClose, CallGetBytes 0 key_k local_read] (db, oo_world out)))"
proof -
  obtain out db where out: "sample_open None [] = Some out" "oo_result out = Inr db"
    using sample_open_works by blast
  with node_always_well_formed [OF out(1) [unfolded sample_open_def] out(2)] show ?thesis by blast
qed



end
