(* ===== verification/Slices.thy ===== *)
theory Slices
  imports Write_Props
begin

text \<open>
  Slices of shared arrays. Everywhere else byte slices are values; here the constructors of
  batch mutations run on a heap of arrays that slices point into, as Go's do, next to a caller
  that goes on writing to its own arrays. The constructors that take byte slices clone them,
  with the list of options, so that a \<open>Mutation\<close> keeps the value it was created with and
  \<open>Batch\<close> acts on that.
\<close>

section \<open>A heap of arrays\<close>

text \<open>A slice is a window on an array; elements are overwritten in place.\<close>

type_synonym addr = nat

record slice =
  sl_base :: addr
  sl_off :: nat
  sl_len :: nat

record heap =
  h_bytes :: "addr \<Rightarrow> bytes"
  h_opts :: "addr \<Rightarrow> SetOption list"
  h_next :: addr

definition window :: "slice \<Rightarrow> 'a list \<Rightarrow> 'a list" where
  "window s xs = take (sl_len s) (drop (sl_off s) xs)"

definition get_bytes :: "heap \<Rightarrow> slice \<Rightarrow> bytes" where
  "get_bytes h s = window s (h_bytes h (sl_base s))"

definition get_opts :: "heap \<Rightarrow> slice \<Rightarrow> SetOption list" where
  "get_opts h s = window s (h_opts h (sl_base s))"

text \<open>New arrays, and the clones of Go's standard library.\<close>

definition new_bytes :: "heap \<Rightarrow> bytes \<Rightarrow> heap \<times> slice" where
  "new_bytes h xs =
     (h\<lparr>h_bytes := (h_bytes h)(h_next h := xs), h_next := Suc (h_next h)\<rparr>,
      \<lparr>sl_base = h_next h, sl_off = 0, sl_len = length xs\<rparr>)"

definition new_opts :: "heap \<Rightarrow> SetOption list \<Rightarrow> heap \<times> slice" where
  "new_opts h os =
     (h\<lparr>h_opts := (h_opts h)(h_next h := os), h_next := Suc (h_next h)\<rparr>,
      \<lparr>sl_base = h_next h, sl_off = 0, sl_len = length os\<rparr>)"

definition bytes_Clone :: "heap \<Rightarrow> slice \<Rightarrow> heap \<times> slice" where
  "bytes_Clone h s = new_bytes h (get_bytes h s)"

definition slices_Clone :: "heap \<Rightarrow> slice \<Rightarrow> heap \<times> slice" where
  "slices_Clone h s = new_opts h (get_opts h s)"

section \<open>The constructors\<close>

record mutation_ref =
  mr_kind :: mutKind
  mr_key :: slice
  mr_value :: slice
  mr_opts :: slice

text \<open>The zero slice, of a field that the constructor does not set.\<close>

definition nil_slice :: slice where "nil_slice = \<lparr>sl_base = 0, sl_off = 0, sl_len = 0\<rparr>"

definition SetBytesOp_ref :: "heap \<Rightarrow> slice \<Rightarrow> slice \<Rightarrow> slice \<Rightarrow> heap \<times> mutation_ref" where
  "SetBytesOp_ref h key value opts =
     (let (h1, k) = bytes_Clone h key; (h2, v) = bytes_Clone h1 value; (h3, os) = slices_Clone h2 opts in
      (h3, \<lparr>mr_kind = mutSet, mr_key = k, mr_value = v, mr_opts = os\<rparr>))"

definition SetOp_ref :: "heap \<Rightarrow> string \<Rightarrow> string \<Rightarrow> slice \<Rightarrow> heap \<times> mutation_ref" where
  "SetOp_ref h key value opts =
     (let (h1, k) = new_bytes h (bytes_of key); (h2, v) = new_bytes h1 (bytes_of value);
          (h3, os) = slices_Clone h2 opts in
      (h3, \<lparr>mr_kind = mutSet, mr_key = k, mr_value = v, mr_opts = os\<rparr>))"

definition DeleteOp_ref :: "heap \<Rightarrow> string \<Rightarrow> heap \<times> mutation_ref" where
  "DeleteOp_ref h key =
     (let (h1, k) = new_bytes h (bytes_of key) in
      (h1, \<lparr>mr_kind = mutDelete, mr_key = k, mr_value = nil_slice, mr_opts = nil_slice\<rparr>))"

definition DeleteBytesOp_ref :: "heap \<Rightarrow> slice \<Rightarrow> heap \<times> mutation_ref" where
  "DeleteBytesOp_ref h key =
     (let (h1, k) = bytes_Clone h key in
      (h1, \<lparr>mr_kind = mutDelete, mr_key = k, mr_value = nil_slice, mr_opts = nil_slice\<rparr>))"

text \<open>What \<open>Batch\<close> reads when it is called.\<close>

definition read_mutation :: "heap \<Rightarrow> mutation_ref \<Rightarrow> Mutation" where
  "read_mutation h m =
     \<lparr>mut_kind = mr_kind m, mut_key = get_bytes h (mr_key m), mut_value = get_bytes h (mr_value m),
      mut_opts = get_opts h (mr_opts m)\<rparr>"

definition Batch_ref ::
    "('b,'t,'v,'i,'m) badger_api \<Rightarrow> 'r raft_api \<Rightarrow> gob_registry \<Rightarrow> (nat \<Rightarrow> time) \<Rightarrow> heap \<Rightarrow> ('b,'r,'o) DB \<Rightarrow>
     mutation_ref list \<Rightarrow> ('b,'r,'o) DB \<times> gerror option" where
  "Batch_ref B R reg clock h db ms = Batch B R reg clock db (map (read_mutation h) ms)"

section \<open>A caller that goes on writing\<close>

text \<open>
  The caller makes arrays and writes to those it made, at any index and in any order, while it
  builds mutations from slices of them. With each mutation the state keeps the value it was
  asked for.
\<close>

record caller =
  ca_heap :: heap
  ca_owned :: "addr set"
  ca_mutations :: "(mutation_ref \<times> Mutation) list"

text \<open>The slices the caller can pass: empty ones, \<open>nil\<close> among them, and windows on its own arrays.\<close>

definition can_pass :: "caller \<Rightarrow> slice \<Rightarrow> bool" where
  "can_pass c s \<longleftrightarrow> sl_len s = 0 \<or> sl_base s \<in> ca_owned c"

definition built :: "caller \<Rightarrow> heap \<times> mutation_ref \<Rightarrow> Mutation \<Rightarrow> caller" where
  "built c hm val = c\<lparr>ca_heap := fst hm, ca_mutations := ca_mutations c @ [(snd hm, val)]\<rparr>"

inductive caller_step :: "caller \<Rightarrow> caller \<Rightarrow> bool" where
  make: "caller_step c (c\<lparr>ca_heap := fst (new_bytes (ca_heap c) xs), ca_owned := insert (h_next (ca_heap c)) (ca_owned c)\<rparr>)"
| make_opts: "caller_step c (c\<lparr>ca_heap := fst (new_opts (ca_heap c) os), ca_owned := insert (h_next (ca_heap c)) (ca_owned c)\<rparr>)"
| overwrite: "caller_step c (c\<lparr>ca_heap := (ca_heap c)\<lparr>h_bytes := (h_bytes (ca_heap c))(a := (h_bytes (ca_heap c) a)[i := x])\<rparr>\<rparr>)"
  if "a \<in> ca_owned c"
| overwrite_opts: "caller_step c (c\<lparr>ca_heap := (ca_heap c)\<lparr>h_opts := (h_opts (ca_heap c))(a := (h_opts (ca_heap c) a)[i := o'])\<rparr>\<rparr>)"
  if "a \<in> ca_owned c"
| set_bytes: "caller_step c (built c (SetBytesOp_ref (ca_heap c) key val_s opts)
    (SetBytesOp (get_bytes (ca_heap c) key) (get_bytes (ca_heap c) val_s) (get_opts (ca_heap c) opts)))"
  if "can_pass c key" "can_pass c val_s" "can_pass c opts"
| set_string: "caller_step c (built c (SetOp_ref (ca_heap c) k v opts) (SetOp k v (get_opts (ca_heap c) opts)))"
  if "can_pass c opts"
| delete_bytes: "caller_step c (built c (DeleteBytesOp_ref (ca_heap c) key) (DeleteBytesOp (get_bytes (ca_heap c) key)))"
  if "can_pass c key"
| delete_string: "caller_step c (built c (DeleteOp_ref (ca_heap c) k) (DeleteOp k))"

abbreviation new_caller :: caller where
  "new_caller \<equiv> \<lparr>ca_heap = \<lparr>h_bytes = (\<lambda>a. []), h_opts = (\<lambda>a. []), h_next = 0\<rparr>, ca_owned = {}, ca_mutations = []\<rparr>"

inductive caller_reach :: "caller \<Rightarrow> bool" where
  fresh: "caller_reach new_caller"
| more: "caller_reach c \<Longrightarrow> caller_step c c' \<Longrightarrow> caller_reach c'"

section \<open>Mutations do not change\<close>

text \<open>A slice that nobody else writes to: empty, or on an allocated array that the caller does not own.\<close>

definition unshared :: "heap \<Rightarrow> addr set \<Rightarrow> slice \<Rightarrow> bool" where
  "unshared h own s \<longleftrightarrow> sl_len s = 0 \<or> sl_base s < h_next h \<and> sl_base s \<notin> own"

definition sealed :: "caller \<Rightarrow> mutation_ref \<times> Mutation \<Rightarrow> bool" where
  "sealed c mv \<longleftrightarrow>
     read_mutation (ca_heap c) (fst mv) = snd mv \<and>
     (\<forall>s \<in> {mr_key (fst mv), mr_value (fst mv), mr_opts (fst mv)}. unshared (ca_heap c) (ca_owned c) s)"

definition caller_inv :: "caller \<Rightarrow> bool" where
  "caller_inv c \<longleftrightarrow> (\<forall>a \<in> ca_owned c. a < h_next (ca_heap c)) \<and> (\<forall>mv \<in> set (ca_mutations c). sealed c mv)"

text \<open>What a step leaves of the arrays that are not the caller's.\<close>

definition extends :: "caller \<Rightarrow> caller \<Rightarrow> bool" where
  "extends c c' \<longleftrightarrow>
     h_next (ca_heap c) \<le> h_next (ca_heap c') \<and>
     (\<forall>a < h_next (ca_heap c). a \<notin> ca_owned c \<longrightarrow>
        h_bytes (ca_heap c') a = h_bytes (ca_heap c) a \<and> h_opts (ca_heap c') a = h_opts (ca_heap c) a) \<and>
     (\<forall>a \<in> ca_owned c'. a \<in> ca_owned c \<or> h_next (ca_heap c) \<le> a)"

lemma window_empty [simp]: "sl_len s = 0 \<Longrightarrow> window s xs = []"
  by (simp add: window_def)

lemma window_whole [simp]: "window \<lparr>sl_base = a, sl_off = 0, sl_len = length xs\<rparr> xs = xs"
  by (simp add: window_def)

lemma unshared_kept:
  assumes "extends c c'" and "unshared (ca_heap c) (ca_owned c) s"
  shows "unshared (ca_heap c') (ca_owned c') s"
    and "get_bytes (ca_heap c') s = get_bytes (ca_heap c) s" and "get_opts (ca_heap c') s = get_opts (ca_heap c) s"
  using assms by (auto simp: extends_def unshared_def get_bytes_def get_opts_def window_def)

lemma sealed_kept: "extends c c' \<Longrightarrow> sealed c mv \<Longrightarrow> sealed c' mv"
  by (simp add: sealed_def read_mutation_def unshared_kept)

text \<open>The arrays that a constructor allocates are new, and hold what its arguments held.\<close>

lemmas alloc_defs = new_bytes_def new_opts_def bytes_Clone_def slices_Clone_def Let_def

lemmas constructor_defs = SetBytesOp_ref_def SetOp_ref_def DeleteBytesOp_ref_def DeleteOp_ref_def
  SetBytesOp_def SetOp_def DeleteBytesOp_def DeleteOp_def

lemma step_extends: "caller_step c c' \<Longrightarrow> extends c c'"
  by (induction rule: caller_step.induct) (auto simp: extends_def built_def alloc_defs constructor_defs)

lemma constructed_sealed:
  assumes inv: "caller_inv c" and own: "can_pass c key" "can_pass c val_s" "can_pass c opts"
  shows "sealed (built c (SetBytesOp_ref (ca_heap c) key val_s opts) m)
      (snd (SetBytesOp_ref (ca_heap c) key val_s opts),
       SetBytesOp (get_bytes (ca_heap c) key) (get_bytes (ca_heap c) val_s) (get_opts (ca_heap c) opts))"
    and "sealed (built c (SetOp_ref (ca_heap c) k v opts) m)
      (snd (SetOp_ref (ca_heap c) k v opts), SetOp k v (get_opts (ca_heap c) opts))"
    and "sealed (built c (DeleteBytesOp_ref (ca_heap c) key) m)
      (snd (DeleteBytesOp_ref (ca_heap c) key), DeleteBytesOp (get_bytes (ca_heap c) key))"
    and "sealed (built c (DeleteOp_ref (ca_heap c) k) m) (snd (DeleteOp_ref (ca_heap c) k), DeleteOp k)"
proof -
  let ?h = "ca_heap c"
  have old: "a \<in> ca_owned c \<Longrightarrow> a < h_next ?h" for a using inv by (simp add: caller_inv_def)
  then have new: "h_next ?h \<notin> ca_owned c" "Suc (h_next ?h) \<notin> ca_owned c" "Suc (Suc (h_next ?h)) \<notin> ca_owned c"
    using less_asym by fastforce+
  from own old have args: "\<forall>s \<in> {key, val_s, opts}. sl_len s = 0 \<or> sl_base s < h_next ?h" by (auto simp: can_pass_def)
  note simps = sealed_def built_def read_mutation_def unshared_def get_bytes_def get_opts_def nil_slice_def
    alloc_defs constructor_defs
  with new args
  show "sealed (built c (SetBytesOp_ref (ca_heap c) key val_s opts) m)
      (snd (SetBytesOp_ref (ca_heap c) key val_s opts),
       SetBytesOp (get_bytes (ca_heap c) key) (get_bytes (ca_heap c) val_s) (get_opts (ca_heap c) opts))"
    and "sealed (built c (SetOp_ref (ca_heap c) k v opts) m)
      (snd (SetOp_ref (ca_heap c) k v opts), SetOp k v (get_opts (ca_heap c) opts))"
    and "sealed (built c (DeleteBytesOp_ref (ca_heap c) key) m)
      (snd (DeleteBytesOp_ref (ca_heap c) key), DeleteBytesOp (get_bytes (ca_heap c) key))"
    and "sealed (built c (DeleteOp_ref (ca_heap c) k) m) (snd (DeleteOp_ref (ca_heap c) k), DeleteOp k)"
    by (auto simp: simps)
qed

lemma caller_inv_step:
  assumes "caller_inv c" and "caller_step c c'" and "ca_mutations c' = ca_mutations c @ new"
    and "\<forall>mv \<in> set new. sealed c' mv" and "\<forall>a \<in> ca_owned c'. a < h_next (ca_heap c')"
  shows "caller_inv c'"
  using assms step_extends [OF assms(2)] by (auto simp: caller_inv_def intro: sealed_kept)

lemma caller_inv_built:
  assumes inv: "caller_inv c" and step: "caller_step c (built c hm val)" and new: "sealed (built c hm val) (snd hm, val)"
  shows "caller_inv (built c hm val)"
proof (rule caller_inv_step [OF inv step])
  show "ca_mutations (built c hm val) = ca_mutations c @ [(snd hm, val)]" by (simp add: built_def)
  show "\<forall>mv \<in> set [(snd hm, val)]. sealed (built c hm val) mv" using new by simp
  have "h_next (ca_heap c) \<le> h_next (ca_heap (built c hm val))" using step_extends [OF step] by (simp add: extends_def)
  then show "\<forall>a \<in> ca_owned (built c hm val). a < h_next (ca_heap (built c hm val))"
    using inv by (fastforce simp: caller_inv_def built_def)
qed

lemma caller_step_inv: "caller_step c c' \<Longrightarrow> caller_inv c \<Longrightarrow> caller_inv c'"
proof (induction rule: caller_step.induct)
  case (make c xs)
  then show ?case
    by (intro caller_inv_step [OF _ caller_step.make, where new = "[]"])
       (auto simp: caller_inv_def alloc_defs less_Suc_eq)
next
  case (make_opts c os)
  then show ?case
    by (intro caller_inv_step [OF _ caller_step.make_opts, where new = "[]"])
       (auto simp: caller_inv_def alloc_defs less_Suc_eq)
next
  case (overwrite a c i x)
  then show ?case
    by (intro caller_inv_step [OF _ caller_step.overwrite, where new = "[]"]) (auto simp: caller_inv_def)
next
  case (overwrite_opts a c i o')
  then show ?case
    by (intro caller_inv_step [OF _ caller_step.overwrite_opts, where new = "[]"]) (auto simp: caller_inv_def)
next
  case (set_bytes c key val_s opts)
  then show ?case by (intro caller_inv_built caller_step.set_bytes constructed_sealed)
next
  case (set_string c opts k v)
  then show ?case
    by (intro caller_inv_built caller_step.set_string constructed_sealed(2) [where key = opts and val_s = opts])
next
  case (delete_bytes c key)
  then show ?case
    by (intro caller_inv_built caller_step.delete_bytes constructed_sealed(3) [where val_s = key and opts = key])
next
  case (delete_string c k)
  have "can_pass c nil_slice" by (simp add: can_pass_def nil_slice_def)
  with delete_string show ?case by (intro caller_inv_built caller_step.delete_string constructed_sealed(4))
qed

lemma caller_reach_inv: "caller_reach c \<Longrightarrow> caller_inv c"
  by (induction rule: caller_reach.induct) (simp add: caller_inv_def, rule caller_step_inv)

text \<open>
  C32: A \<open>Mutation\<close> is immutable once created. Whatever the caller writes to the slices it built
  its mutations from, and in whatever order it builds and writes, a batch of mutations it holds
  is the batch of what the constructors' arguments held when each was called.
\<close>
theorem mutation_immutable:
  assumes "caller_reach c" and "set ms \<subseteq> set (ca_mutations c)"
  shows "Batch_ref B R reg clock (ca_heap c) db (map fst ms) = Batch B R reg clock db (map snd ms)"
proof -
  have "read_mutation (ca_heap c) (fst mv) = snd mv" if "mv \<in> set ms" for mv
    using caller_reach_inv [OF assms(1)] assms(2) that by (auto simp: caller_inv_def sealed_def)
  then have "map (read_mutation (ca_heap c)) (map fst ms) = map snd ms" by simp
  then show ?thesis by (simp only: Batch_ref_def)
qed

text \<open>
  The caller makes two arrays, asks for the set of k to v, and then overwrites its key: its slice
  reads differently, and the batch sets k.
\<close>

definition caller_0 :: caller where
  "caller_0 = new_caller\<lparr>ca_heap := fst (new_bytes (ca_heap new_caller) key_k), ca_owned := {0}\<rparr>"

definition caller_1 :: caller where
  "caller_1 = caller_0\<lparr>ca_heap := fst (new_bytes (ca_heap caller_0) val_v), ca_owned := {1, 0}\<rparr>"

abbreviation key_slice :: slice where "key_slice \<equiv> \<lparr>sl_base = 0, sl_off = 0, sl_len = 1\<rparr>"
abbreviation val_slice :: slice where "val_slice \<equiv> \<lparr>sl_base = 1, sl_off = 0, sl_len = 1\<rparr>"

definition caller_2 :: caller where
  "caller_2 = built caller_1 (SetBytesOp_ref (ca_heap caller_1) key_slice val_slice nil_slice) (SetBytesOp key_k val_v [])"

definition caller_3 :: caller where
  "caller_3 = caller_2\<lparr>ca_heap := (ca_heap caller_2)\<lparr>h_bytes := (h_bytes (ca_heap caller_2))
     (0 := (h_bytes (ca_heap caller_2) 0)[0 := 120])\<rparr>\<rparr>"

lemmas caller_defs = caller_0_def caller_1_def caller_2_def caller_3_def

lemma caller_3_reach: "caller_reach caller_3"
proof -
  have "caller_reach caller_0"
    using caller_reach.more [OF caller_reach.fresh caller_step.make [of new_caller key_k]] by (simp add: caller_0_def)
  then have "caller_reach caller_1"
    using caller_step.make [of caller_0 val_v] by (auto simp: caller_defs new_bytes_def intro: caller_reach.more)
  moreover have "get_bytes (ca_heap caller_1) key_slice = key_k" "get_bytes (ca_heap caller_1) val_slice = val_v"
    "get_opts (ca_heap caller_1) nil_slice = []" "can_pass caller_1 key_slice" "can_pass caller_1 val_slice"
    "can_pass caller_1 nil_slice"
    by (simp_all add: caller_defs new_bytes_def get_bytes_def get_opts_def window_def can_pass_def nil_slice_def
        key_k_def val_v_def)
  ultimately have "caller_reach caller_2"
    using caller_step.set_bytes [of caller_1 key_slice val_slice nil_slice]
    by (auto simp: caller_2_def intro: caller_reach.more)
  moreover have "0 \<in> ca_owned caller_2" by (simp add: caller_defs built_def)
  ultimately show ?thesis
    unfolding caller_3_def by (rule caller_reach.more [OF _ caller_step.overwrite])
qed

theorem mutation_immutable_example:
  "get_bytes (ca_heap caller_3) key_slice = [120] \<and>
   Batch_ref ref_badger ref_raft sample_registry (\<lambda>i. 0) (ca_heap caller_3) (sample_node [] sample_leader)
     (map fst (ca_mutations caller_3)) = (after_set 0, None)"
proof
  show "get_bytes (ca_heap caller_3) key_slice = [120]"
    by (simp add: caller_defs built_def SetBytesOp_ref_def alloc_defs get_bytes_def window_def key_k_def val_v_def)
  have ms: "map snd (ca_mutations caller_3) = [SetBytesOp key_k val_v []]" by (simp add: caller_defs built_def)
  show "Batch_ref ref_badger ref_raft sample_registry (\<lambda>i. 0) (ca_heap caller_3) (sample_node [] sample_leader)
     (map fst (ca_mutations caller_3)) = (after_set 0, None)"
    unfolding mutation_immutable [OF caller_3_reach order_refl] ms by (rule Batch_set_sample)
qed

end
