(* ===== verification/Demo.thy ===== *)
theory Demo
  imports Node_Props
begin

text \<open>
  The first half of the three-node example (\<open>examples/three-node/main.go\<close>): \<open>bootNodes\<close> with
  its deferred cleanup, the polling helper \<open>waitFor\<close> (a second instance of locale \<open>poller\<close>), the
  choice of a follower, and the writes it makes. The rest is in \<open>Demo_Run\<close>.
\<close>

section \<open>waitFor\<close>

text \<open>\<open>cond i\<close> is what the condition reports in round \<open>i\<close>, \<open>clk i\<close> the clock read after it.\<close>

definition wait_timeout :: "duration \<Rightarrow> string \<Rightarrow> gerror" where
  "wait_timeout timeout what =
     Formatted ''timed out after %s waiting for %s'' [FDur timeout, FStr what]"

partial_function (option) waitFor_loop ::
    "(nat \<Rightarrow> bool) \<Rightarrow> (nat \<Rightarrow> time) \<Rightarrow> duration \<Rightarrow> string \<Rightarrow> time \<Rightarrow> nat \<Rightarrow> gerror option option" where
  "waitFor_loop cond clk timeout what deadline i =
     (if cond i then Some None
      else if \<not> clk i < deadline then Some (Some (wait_timeout timeout what))
      else waitFor_loop cond clk timeout what deadline (Suc i))"

definition waitFor ::
    "time \<Rightarrow> (nat \<Rightarrow> time) \<Rightarrow> duration \<Rightarrow> string \<Rightarrow> (nat \<Rightarrow> bool) \<Rightarrow> gerror option option" where
  "waitFor start clk timeout what cond = waitFor_loop cond clk timeout what (start + timeout) 0"

definition demoPollInterval :: duration where "demoPollInterval = 25 * millisecond"

interpretation wf: poller "\<lambda>clk. waitFor_loop cond clk timeout what"
    "\<lambda>i. if cond i then Some None else None" "Some (wait_timeout timeout what)" for cond timeout what
  by unfold_locales (subst waitFor_loop.simps, simp)

section \<open>bootNodes\<close>

text \<open>
  The variables of \<open>bootNodes\<close> that its deferred function sees: the named results (a nil slice
  or function is \<open>None\<close> or \<open>False\<close>) and the counter. A result parameter is assigned by the
  return statement before the deferred function runs.
\<close>

record 'n boot_frame =
  bf_nodes :: "'n option list option"
  bf_ids :: "string list option"
  bf_addrs :: "string list option"
  bf_cleanup :: bool
  bf_err :: "gerror option"
  bf_opened :: nat

text \<open>How the call ends; \<open>Panicked\<close> carries the nodes that were open by then.\<close>

datatype 'n boot_result =
    Booted "'n list" "string list" "string list"
  | BootFailed gerror "'n list"
  | Panicked "'n list"

definition demo_ids :: "string list" where "demo_ids = [''node-1'', ''node-2'', ''node-3'']"

definition demo_config :: "path \<Rightarrow> string \<Rightarrow> string \<Rightarrow> 'o Config" where
  "demo_config root id' addr =
     \<lparr>cfg_NodeID = id', cfg_RaftBind = addr, cfg_DataDir = filepath_Join root id',
      cfg_Advanced = \<lparr>adv_ApplyTimeout = 0, adv_SnapshotThreshold = 0, adv_RaftAdvertise = [],
        adv_BadgerOptions = None, adv_LogOutput = None\<rparr>\<rparr>"

text \<open>
  \<open>return nil, nil, nil, nil, err\<close>: the results are assigned, then the deferred function
  calls \<open>cleanup\<close>, whose closure reads \<open>nodes\<close> and \<open>opened\<close>. Calling a nil function panics.
\<close>

definition return_nil :: "'n boot_frame \<Rightarrow> gerror \<Rightarrow> 'n boot_frame" where
  "return_nil f err =
     f\<lparr>bf_nodes := None, bf_ids := None, bf_addrs := None, bf_cleanup := False, bf_err := Some err\<rparr>"

definition open_nodes :: "'n boot_frame \<Rightarrow> 'n list" where
  "open_nodes f = (case bf_nodes f of None \<Rightarrow> [] | Some ns \<Rightarrow> List.map_filter (\<lambda>n. n) (take (bf_opened f) ns))"

definition boot_deferred :: "'n boot_frame \<Rightarrow> 'n boot_frame \<Rightarrow> 'n boot_result" where
  "boot_deferred before f =
     (case bf_err f of
        None \<Rightarrow>
          Booted (open_nodes f) (case bf_ids f of None \<Rightarrow> [] | Some x \<Rightarrow> x)
            (case bf_addrs f of None \<Rightarrow> [] | Some x \<Rightarrow> x)
      | Some err \<Rightarrow>
          if \<not> bf_cleanup f then Panicked (open_nodes before)
          else if bf_opened f > 0 \<and> bf_nodes f = None then Panicked (open_nodes before)
          else BootFailed err (rev (open_nodes f)))"

text \<open>
  The loop over the IDs. \<open>ports i\<close> is what \<open>freePort\<close> returns for node \<open>i\<close>, \<open>envs i\<close> the
  environment its \<open>Open\<close> meets. \<open>None\<close> is an \<open>Open\<close> that does not return.
\<close>

fun boot_loop ::
    "('b,'t,'v,'i,'m) badger_api \<Rightarrow> ('b,'o,'d,'s) storage_api \<Rightarrow> 'r raft_api \<Rightarrow> 'd faults \<Rightarrow>
     (nat \<Rightarrow> ('r,'p,'s,'addr) raft_env) \<Rightarrow> (path \<Rightarrow> 'o badger_options) \<Rightarrow> (string \<Rightarrow> gerror + 'addr) \<Rightarrow>
     (nat \<Rightarrow> gerror + nat) \<Rightarrow> path \<Rightarrow> nat \<Rightarrow> string list \<Rightarrow> ('b,'r,'o) DB boot_frame \<Rightarrow> 'd world \<Rightarrow>
     (('b,'r,'o) DB boot_result \<times> 'd world) option" where
  "boot_loop B S R F envs defs res ports root i [] f w = Some (boot_deferred f (f\<lparr>bf_err := None\<rparr>), w)"
| "boot_loop B S R F envs defs res ports root i (id' # ids) f w =
     (case ports i of
        Inl err \<Rightarrow> Some (boot_deferred f (return_nil f err), w)
      | Inr port \<Rightarrow>
          let addr = ''127.0.0.1:'' @ show_nat port;
              f1 = f\<lparr>bf_addrs := map_option (\<lambda>as. as[i := addr]) (bf_addrs f)\<rparr> in
          case DB_Open B S R F (envs i) defs res (demo_config root id' addr)
                 (if i = 0 then [NewCluster] else []) w of
            None \<Rightarrow> None
          | Some out \<Rightarrow>
              (case oo_result out of
                 Inl err \<Rightarrow>
                   Some (boot_deferred f1 (return_nil f1 (Errorf ''open %s: %w'' [FStr id'] err)), oo_world out)
               | Inr db \<Rightarrow>
                   boot_loop B S R F envs defs res ports root (Suc i) ids
                     (f1\<lparr>bf_nodes := map_option (\<lambda>ns. ns[i := Some db]) (bf_nodes f1),
                         bf_opened := Suc (bf_opened f1)\<rparr>)
                     (oo_world out)))"

definition bootNodes ::
    "('b,'t,'v,'i,'m) badger_api \<Rightarrow> ('b,'o,'d,'s) storage_api \<Rightarrow> 'r raft_api \<Rightarrow> 'd faults \<Rightarrow>
     (nat \<Rightarrow> ('r,'p,'s,'addr) raft_env) \<Rightarrow> (path \<Rightarrow> 'o badger_options) \<Rightarrow> (string \<Rightarrow> gerror + 'addr) \<Rightarrow>
     (nat \<Rightarrow> gerror + nat) \<Rightarrow> path \<Rightarrow> 'd world \<Rightarrow> (('b,'r,'o) DB boot_result \<times> 'd world) option" where
  "bootNodes B S R F envs defs res ports root w =
     boot_loop B S R F envs defs res ports root 0 demo_ids
       \<lparr>bf_nodes = Some (replicate (length demo_ids) None), bf_ids = Some demo_ids,
        bf_addrs = Some (replicate (length demo_ids) []), bf_cleanup = True, bf_err = None, bf_opened = 0\<rparr> w"

section \<open>Choosing a follower, and the writes\<close>

fun firstFollower_from :: "'r raft_api \<Rightarrow> nat \<Rightarrow> ('b,'r,'o) DB list \<Rightarrow> nat option" where
  "firstFollower_from R i [] = None"
| "firstFollower_from R i (n # ns) =
     (case DB_Status R n of
        Inr st \<Rightarrow> if st_State st \<noteq> StateLeader then Some i else firstFollower_from R (Suc i) ns
      | Inl e \<Rightarrow> firstFollower_from R (Suc i) ns)"

definition firstFollower :: "'r raft_api \<Rightarrow> ('b,'r,'o) DB list \<Rightarrow> nat" where
  "firstFollower R nodes = (case firstFollower_from R 0 nodes of Some i \<Rightarrow> i | None \<Rightarrow> 1)"

text \<open>The three writes, each only if the one before it succeeded; the clock is read per call.\<close>

definition demo_batch :: "Mutation list" where
  "demo_batch = [SetOp ''user:2'' ''grace'' [], SetOp ''user:3'' ''edsger'' [], DeleteOp ''user:1'']"

definition demoWrites ::
    "('b,'t,'v,'i,'m) badger_api \<Rightarrow> 'r raft_api \<Rightarrow> gob_registry \<Rightarrow> (nat \<Rightarrow> time) \<Rightarrow> ('b,'r,'o) DB \<Rightarrow>
     ('b,'r,'o) DB \<times> gerror option" where
  "demoWrites B R reg clock leader =
     (let (db1, e1) = DB_Set B R reg (clock 0) leader ''user:1'' ''ada'' [] in
      case e1 of Some err \<Rightarrow> (db1, Some err) | None \<Rightarrow>
      let (db2, e2) = DB_Set B R reg (clock 1) db1 ''session:xyz'' ''token-123'' [WithTTL (2 * second)] in
      case e2 of Some err \<Rightarrow> (db2, Some err) | None \<Rightarrow>
      Batch B R reg (\<lambda>i. clock (2 + i)) db2 demo_batch)"

section \<open>Lemmas and properties\<close>

lemma boot_deferred_nil [simp]: "boot_deferred f (return_nil g err) = Panicked (open_nodes f)"
  by (simp add: boot_deferred_def return_nil_def)

lemma boot_loop_result:
  "boot_loop B S R F envs defs res ports root i ids f w = Some (r, w') \<Longrightarrow>
     (\<exists>ns is as. r = Booted ns is as) \<or> (\<exists>ns. r = Panicked ns)"
proof (induction ids arbitrary: i f w)
  case Nil
  then show ?case by (auto simp: boot_deferred_def)
next
  case (Cons id' ids)
  then show ?case
    by (auto simp: Let_def split: sum.splits option.splits)
qed

text \<open>
  C39: a failed boot of the example panics. Its error path returns nil for the named result
  \<open>cleanup\<close>, which the deferred function then calls; so no error is ever returned, and the
  nodes opened so far are not closed, although the comment says they are.
\<close>

theorem failed_boot_panics:
  assumes "bootNodes B S R F envs defs res ports root w = Some (r, w')"
  shows "(\<forall>e ns. r \<noteq> BootFailed e ns) \<and>
     (\<forall>e. ports 0 = Inl e \<longrightarrow> r = Panicked [] \<and> w' = w) \<and>
     (\<forall>port out db e. ports 0 = Inr port \<and>
        DB_Open B S R F (envs 0) defs res (demo_config root ''node-1'' (''127.0.0.1:'' @ show_nat port))
          [NewCluster] w = Some out \<and> oo_result out = Inr db \<and> ports 1 = Inl e \<longrightarrow> r = Panicked [db])"
proof (intro conjI allI impI)
  show "r \<noteq> BootFailed e ns" for e ns
    using boot_loop_result [OF assms [unfolded bootNodes_def]] by auto
qed (use assms in \<open>auto simp: bootNodes_def demo_ids_def open_nodes_def map_filter_simps numeral_eq_Suc\<close>)

theorem failed_boot_panics_example:
  "bootNodes ref_badger ref_storage ref_raft no_faults (\<lambda>i. transport_env None) sample_defaults
     (\<lambda>a. Inr ()) (\<lambda>i. Inl (Plain ''no port'')) ''/tmp'' empty_world = Some (Panicked [], empty_world)"
proof -
  let ?run = "bootNodes ref_badger ref_storage ref_raft no_faults (\<lambda>i. transport_env None) sample_defaults
     (\<lambda>a. Inr ()) (\<lambda>i. Inl (Plain ''no port'')) ''/tmp'' empty_world"
  have "\<exists>r w. ?run = Some (r, w)" by (simp add: bootNodes_def demo_ids_def)
  then obtain r w where run: "?run = Some (r, w)" by blast
  from failed_boot_panics [OF run] run show ?thesis by simp
qed

text \<open>
  \<open>waitFor\<close> returns, within the timeout plus one sleep counted in rounds: nil exactly if
  the condition held in some round before the first one that found the deadline passed.
\<close>

theorem wait_for_condition:
  assumes "sleeps start demoPollInterval clk"
  shows "\<exists>n r. waitFor start clk timeout what cond = Some r \<and>
     (n = 0 \<or> int n * demoPollInterval < timeout + demoPollInterval) \<and>
     (\<forall>j < n. \<not> cond j \<and> clk j < start + timeout) \<and>
     (r = None \<longleftrightarrow> cond n) \<and> (r \<noteq> None \<longrightarrow> r = Some (wait_timeout timeout what) \<and> start + timeout \<le> clk n)"
proof -
  have "0 < demoPollInterval" by (simp add: demoPollInterval_def)
  then show ?thesis
  proof (rule wf.ends [OF assms, of "start + timeout" cond timeout what])
    fix n
    let ?res = "case if cond n then Some None else None of
        Some x \<Rightarrow> x | None \<Rightarrow> Some (wait_timeout timeout what)"
    assume n: "int n * demoPollInterval < start + timeout - start + demoPollInterval \<or> n = 0"
      and stop: "(if cond n then Some None else None) \<noteq> None \<or> start + timeout \<le> clk n"
      and before: "\<And>j. j < n \<Longrightarrow> (if cond j then Some None else None) = None \<and> clk j < start + timeout"
      and r: "waitFor_loop cond clk timeout what (start + timeout) 0 = Some ?res"
    from before have "\<forall>j < n. \<not> cond j \<and> clk j < start + timeout"
      by (metis option.distinct(1))
    with n stop r show ?thesis
      by (intro exI [of _ n] exI [of _ ?res]) (auto simp: waitFor_def split: if_splits)
  qed
qed

theorem wait_for_condition_example:
  "\<exists>r. waitFor 0 (\<lambda>i. int i * demoPollInterval) (10 * second) ''x'' (\<lambda>i. i = 4) = Some r"
proof -
  have "sleeps 0 demoPollInterval (\<lambda>i. int i * demoPollInterval)"
    by (simp add: sleeps_def demoPollInterval_def)
  from wait_for_condition [OF this, of "10 * second" "''x''" "\<lambda>i. i = 4"] show ?thesis by blast
qed

end
