(* ===== verification/Demo_Run.thy ===== *)
theory Demo_Run
  imports Demo
begin

text \<open>
  The rest of the three-node example (\<open>examples/three-node/main.go\<close>): \<open>formCluster\<close>,
  \<open>demoReads\<close>, \<open>demoTTL\<close>, \<open>freePort\<close>, the cleanup, \<open>run\<close> and \<open>main\<close>. The nodes go on
  changing while the demo waits; what it observes of them, and the clock it reads, are given as
  streams. Of what is printed, the lines that report values are kept.
\<close>

section \<open>Observations\<close>

text \<open>
  A wait in the demo: when it starts, and per round the node it looks at, the time at which
  its callback reads, and the clock compared with the deadline.
\<close>

record ('b, 'r, 'o) watch =
  wt_start :: time
  wt_node :: "nat \<Rightarrow> ('b,'r,'o) DB"
  wt_now :: "nat \<Rightarrow> time"
  wt_clock :: "nat \<Rightarrow> time"

definition waits :: "('b,'r,'o) watch \<Rightarrow> duration \<Rightarrow> bool" where
  "waits x interval \<longleftrightarrow> sleeps (wt_start x) interval (wt_clock x)"

definition demo_timeout :: duration where "demo_timeout = 10 * second"

definition wait_until ::
    "('b,'r,'o) watch \<Rightarrow> string \<Rightarrow> (time \<Rightarrow> ('b,'r,'o) DB \<Rightarrow> bool) \<Rightarrow> gerror option option" where
  "wait_until x what cond =
     waitFor (wt_start x) (wt_clock x) demo_timeout what (\<lambda>i. cond (wt_now x i) (wt_node x i))"

section \<open>formCluster\<close>

fun join_loop ::
    "('b,'t,'v,'i,'m) badger_api \<Rightarrow> 'r raft_api \<Rightarrow> (string \<times> string) list \<Rightarrow> ('b,'r,'o) DB \<Rightarrow>
     ('b,'r,'o) DB \<times> gerror option" where
  "join_loop B R [] leader = (leader, None)"
| "join_loop B R ((id', addr) # rest) leader =
     (let (leader', e) = AddVoter B R \<lparr>node_ID = id', node_RaftAddr = addr, node_Role = RoleNone\<rparr> leader in
      case e of
        Some err \<Rightarrow> (leader', Some (Errorf ''add voter %s: %w'' [FStr id'] err))
      | None \<Rightarrow> join_loop B R rest leader')"

text \<open>
  What the second loop observes of one node: the wait for a leader, the wait for its own
  role, and the node whose status is then reported.
\<close>

record ('b, 'r, 'o) member_view =
  mv_leader :: "('b,'r,'o) watch"
  mv_voter :: "('b,'r,'o) watch"
  mv_status :: "('b,'r,'o) DB"

definition reports_voter :: "'r raft_api \<Rightarrow> ('b,'r,'o) DB \<Rightarrow> bool" where
  "reports_voter R n = (case DB_Status R n of Inl e \<Rightarrow> False | Inr st \<Rightarrow> node_Role (st_Local st) = RoleVoter)"

definition member_error :: "string \<Rightarrow> gerror \<Rightarrow> gerror" where
  "member_error id' err = Errorf ''%s: %w'' [FStr id'] err"

text \<open>\<open>None\<close> is a wait that does not end.\<close>

fun ready_loop ::
    "'r raft_api \<Rightarrow> (string \<times> ('b,'r,'o) member_view) list \<Rightarrow> gerror option option" where
  "ready_loop R [] = Some None"
| "ready_loop R ((id', mv) # rest) =
     (case WaitForLeader R (wt_start (mv_leader mv)) (wt_node (mv_leader mv)) (wt_clock (mv_leader mv))
             demo_timeout of
        None \<Rightarrow> None
      | Some (Inl err) \<Rightarrow> Some (Some (member_error id' err))
      | Some (Inr leader) \<Rightarrow>
          (case wait_until (mv_voter mv) (id' @ '' to report itself voter'') (\<lambda>now. reports_voter R) of
             None \<Rightarrow> None
           | Some (Some err) \<Rightarrow> Some (Some (member_error id' err))
           | Some None \<Rightarrow>
               (case DB_Status R (mv_status mv) of
                  Inl err \<Rightarrow> Some (Some (member_error id' err))
                | Inr st \<Rightarrow> ready_loop R rest)))"

text \<open>
  \<open>leader\<close> is \<open>nodes[0]\<close>; \<open>views\<close> the observations of the nodes in order, \<open>leader_end\<close> the
  leader when its status is asked for.
\<close>

definition formCluster ::
    "('b,'t,'v,'i,'m) badger_api \<Rightarrow> 'r raft_api \<Rightarrow> string list \<Rightarrow> string list \<Rightarrow>
     ('b,'r,'o) member_view list \<Rightarrow> ('b,'r,'o) DB \<Rightarrow> ('b,'r,'o) DB \<Rightarrow>
     ('b,'r,'o) DB \<times> gerror option option" where
  "formCluster B R ids addrs views leader leader_end =
     (let (leader', e) = join_loop B R (tl (zip ids addrs)) leader in
      case e of Some err \<Rightarrow> (leader', Some (Some err)) | None \<Rightarrow>
      (leader',
       case ready_loop R (zip ids views) of
         None \<Rightarrow> None
       | Some (Some err) \<Rightarrow> Some (Some err)
       | Some None \<Rightarrow>
           (case DB_Status R leader_end of
              Inl err \<Rightarrow> Some (Some err)
            | Inr st \<Rightarrow>
                if st_Leader st = None
                then Some (Some (Formatted ''%s reports no cluster leader yet'' [FStr (hd ids)]))
                else Some None)))"

section \<open>demoReads and demoTTL\<close>

datatype demo_line = LineGet string string | LineScan "Entry list" | LineExpired bool

text \<open>
  The reads on the follower: two waits, each followed by a read of the follower as it is
  then. The result is what was printed and the error returned.
\<close>

record ('b, 'r, 'o) reads_view =
  rv_caught_up :: "('b,'r,'o) watch"
  rv_get :: "time \<times> ('b,'r,'o) DB"
  rv_deleted :: "('b,'r,'o) watch"
  rv_scan :: "time \<times> ('b,'r,'o) DB"

definition shows_value ::
    "('b,'t,'v,'i,'m) badger_api \<Rightarrow> 'r raft_api \<Rightarrow> string \<Rightarrow> string \<Rightarrow> time \<Rightarrow> ('b,'r,'o) DB \<Rightarrow> bool" where
  "shows_value B R key val now n \<longleftrightarrow> snd (GetWithOptions B R now n key local_read) = Inr val"

definition shows_missing ::
    "('b,'t,'v,'i,'m) badger_api \<Rightarrow> 'r raft_api \<Rightarrow> string \<Rightarrow> time \<Rightarrow> ('b,'r,'o) DB \<Rightarrow> bool" where
  "shows_missing B R key now n =
     (case snd (GetWithOptions B R now n key local_read) of
        Inl e \<Rightarrow> errors_is e ErrKeyNotFound | Inr val \<Rightarrow> False)"

definition demo_scan :: ScanOptions where
  "demo_scan = \<lparr>so_Read = local_read, so_Limit = 0, so_Unlimited = True\<rparr>"

definition demoReads ::
    "('b,'t,'v,'i,'m) badger_api \<Rightarrow> 'r raft_api \<Rightarrow> ('b,'r,'o) reads_view \<Rightarrow>
     (demo_line list \<times> gerror option) option" where
  "demoReads B R rv =
     (case wait_until (rv_caught_up rv) ''follower to replicate user:2'' (shows_value B R ''user:2'' ''grace'') of
        None \<Rightarrow> None
      | Some (Some err) \<Rightarrow> Some ([], Some err)
      | Some None \<Rightarrow>
      case snd (GetWithOptions B R (fst (rv_get rv)) (snd (rv_get rv)) ''user:2'' local_read) of
        Inl err \<Rightarrow> Some ([], Some err)
      | Inr v \<Rightarrow>
      case wait_until (rv_deleted rv) ''follower to see user:1 deleted'' (shows_missing B R ''user:1'') of
        None \<Rightarrow> None
      | Some (Some err) \<Rightarrow> Some ([LineGet ''user:2'' v], Some err)
      | Some None \<Rightarrow>
      case snd (ScanPrefixBytes B R (fst (rv_scan rv)) (snd (rv_scan rv)) (bytes_of ''user:'') demo_scan) of
        None \<Rightarrow> None
      | Some (Inl err) \<Rightarrow> Some ([LineGet ''user:2'' v], Some err)
      | Some (Inr entries) \<Rightarrow> Some ([LineGet ''user:2'' v, LineScan entries], None))"

record ('b, 'r, 'o) ttl_view =
  tv_replicated :: "('b,'r,'o) watch"
  tv_before :: "time \<times> ('b,'r,'o) DB"
  tv_delay :: duration
  tv_after :: "('b,'r,'o) DB"

definition ttlSleep :: duration where "ttlSleep = 2600 * millisecond"

definition shows_some ::
    "('b,'t,'v,'i,'m) badger_api \<Rightarrow> 'r raft_api \<Rightarrow> string \<Rightarrow> time \<Rightarrow> ('b,'r,'o) DB \<Rightarrow> bool" where
  "shows_some B R key now n =
     (case snd (GetWithOptions B R now n key local_read) of Inl e \<Rightarrow> False | Inr val \<Rightarrow> True)"

text \<open>
  The error of the read before the expiry is dropped, and the value is then empty. The last
  read happens after the sleep, and whatever delay there is besides.
\<close>

definition demoTTL ::
    "('b,'t,'v,'i,'m) badger_api \<Rightarrow> 'r raft_api \<Rightarrow> ('b,'r,'o) ttl_view \<Rightarrow>
     (demo_line list \<times> gerror option) option" where
  "demoTTL B R tv =
     (case wait_until (tv_replicated tv) ''session:xyz to replicate'' (shows_some B R ''session:xyz'') of
        None \<Rightarrow> None
      | Some (Some err) \<Rightarrow> Some ([], Some err)
      | Some None \<Rightarrow>
          let v = (case snd (GetWithOptions B R (fst (tv_before tv)) (snd (tv_before tv)) ''session:xyz''
                          local_read) of Inl e \<Rightarrow> [] | Inr v \<Rightarrow> v);
              gone = shows_missing B R ''session:xyz'' (fst (tv_before tv) + ttlSleep + tv_delay tv) (tv_after tv)
          in Some ([LineGet ''session:xyz'' v, LineExpired gone], None))"

section \<open>freePort, the cleanup, run and main\<close>

text \<open>\<open>listen\<close> is what the operating system answers to a listen on port 0 of the loopback.\<close>

definition freePort :: "gerror + nat \<Rightarrow> gerror + nat" where
  "freePort listen =
     (case listen of
        Inl err \<Rightarrow> Inl (Errorf ''find free port: %w'' [] err)
      | Inr port \<Rightarrow> Inr port)"

text \<open>\<open>cleanup\<close>: the nodes are closed from the last one opened to the first; errors are printed.\<close>

fun close_nodes ::
    "('b,'t,'v,'i,'m) badger_api \<Rightarrow> ('b,'o,'d,'s) storage_api \<Rightarrow> 'r raft_api \<Rightarrow>
     (string \<times> ('b,'r,'o) DB) list \<Rightarrow> 'd world \<Rightarrow> (string \<times> ('b,'r,'o) DB \<times> gerror option) list \<times> 'd world" where
  "close_nodes B S R [] w = ([], w)"
| "close_nodes B S R ((id', n) # rest) w =
     (let (((n', w1), es), e) = DB_Close B S R (n, w); (closed, w2) = close_nodes B S R rest w1
      in ((id', n', e) # closed, w2))"

definition demo_cleanup ::
    "('b,'t,'v,'i,'m) badger_api \<Rightarrow> ('b,'o,'d,'s) storage_api \<Rightarrow> 'r raft_api \<Rightarrow> string list \<Rightarrow>
     ('b,'r,'o) DB list \<Rightarrow> 'd world \<Rightarrow> (string \<times> ('b,'r,'o) DB \<times> gerror option) list \<times> 'd world" where
  "demo_cleanup B S R ids nodes w = close_nodes B S R (rev (zip ids nodes)) w"

text \<open>
  What the phases of \<open>run\<close> find: the nodes go on changing between them. \<open>dv_end\<close> and
  \<open>dv_world\<close> are the nodes and the disk at the time of the cleanup.
\<close>

record ('b, 'r, 'o, 'd) demo_views =
  dv_members :: "('b,'r,'o) member_view list"
  dv_leader_end :: "('b,'r,'o) DB"
  dv_writer :: "('b,'r,'o) DB"
  dv_clock :: "nat \<Rightarrow> time"
  dv_nodes :: "('b,'r,'o) DB list"
  dv_reads :: "nat \<Rightarrow> ('b,'r,'o) reads_view"
  dv_ttl :: "nat \<Rightarrow> ('b,'r,'o) ttl_view"
  dv_end :: "('b,'r,'o) DB list"
  dv_world :: "'d world"

text \<open>The four phases; the first error ends the run.\<close>

definition demo_phases ::
    "('b,'t,'v,'i,'m) badger_api \<Rightarrow> 'r raft_api \<Rightarrow> gob_registry \<Rightarrow> ('b,'r,'o,'d) demo_views \<Rightarrow>
     ('b,'r,'o) DB list \<Rightarrow> string list \<Rightarrow> string list \<Rightarrow> (demo_line list \<times> gerror option) option" where
  "demo_phases B R reg dv nodes ids addrs =
     (case snd (formCluster B R ids addrs (dv_members dv) (hd nodes) (dv_leader_end dv)) of
        None \<Rightarrow> None
      | Some (Some err) \<Rightarrow> Some ([], Some err)
      | Some None \<Rightarrow>
      case snd (demoWrites B R reg (dv_clock dv) (dv_writer dv)) of
        Some err \<Rightarrow> Some ([], Some err)
      | None \<Rightarrow>
      let i = firstFollower R (dv_nodes dv) in
      case demoReads B R (dv_reads dv i) of
        None \<Rightarrow> None
      | Some (ls, Some err) \<Rightarrow> Some (ls, Some err)
      | Some (ls, None) \<Rightarrow> map_option (\<lambda>(ls', e). (ls @ ls', e)) (demoTTL B R (dv_ttl dv i)))"

text \<open>
  How \<open>run\<close> ends: its error, whether it panicked instead, what was printed, what the cleanup
  closed, and the disk. The deferred removal of the data directory runs last, also in a panic.
\<close>

record ('b, 'r, 'o, 'd) run_outcome =
  ru_err :: "gerror option"
  ru_panicked :: bool
  ru_lines :: "demo_line list"
  ru_closed :: "(string \<times> ('b,'r,'o) DB \<times> gerror option) list"
  ru_world :: "'d world"

definition run ::
    "('b,'t,'v,'i,'m) badger_api \<Rightarrow> ('b,'o,'d,'s) storage_api \<Rightarrow> 'r raft_api \<Rightarrow> 'd faults \<Rightarrow> gob_registry \<Rightarrow>
     (nat \<Rightarrow> ('r,'p,'s,'addr) raft_env) \<Rightarrow> (path \<Rightarrow> 'o badger_options) \<Rightarrow> (string \<Rightarrow> gerror + 'addr) \<Rightarrow>
     (nat \<Rightarrow> gerror + nat) \<Rightarrow> gerror + path \<Rightarrow> ('b,'r,'o,'d) demo_views \<Rightarrow> 'd world \<Rightarrow>
     ('b,'r,'o,'d) run_outcome option" where
  "run B S R F reg envs defs res listens mkdirTemp dv w =
     (case mkdirTemp of
        Inl err \<Rightarrow> Some \<lparr>ru_err = Some err, ru_panicked = False, ru_lines = [], ru_closed = [], ru_world = w\<rparr>
      | Inr root \<Rightarrow>
      case bootNodes B S R F envs defs res (\<lambda>i. freePort (listens i)) root w of
        None \<Rightarrow> None
      | Some (BootFailed err ns, w1) \<Rightarrow>
          Some \<lparr>ru_err = Some err, ru_panicked = False, ru_lines = [], ru_closed = [],
            ru_world = fst (os_RemoveAll F root w1)\<rparr>
      | Some (Panicked ns, w1) \<Rightarrow>
          Some \<lparr>ru_err = None, ru_panicked = True, ru_lines = [], ru_closed = [],
            ru_world = fst (os_RemoveAll F root w1)\<rparr>
      | Some (Booted nodes ids addrs, w1) \<Rightarrow>
          map_option (\<lambda>(ls, e).
            let (closed, w2) = demo_cleanup B S R ids (dv_end dv) (dv_world dv) in
            \<lparr>ru_err = e, ru_panicked = False, ru_lines = ls, ru_closed = closed,
             ru_world = fst (os_RemoveAll F root w2)\<rparr>)
            (demo_phases B R reg dv nodes ids addrs))"

datatype exit = ExitOK | ExitFatal gerror | ExitPanic

definition main :: "('b,'r,'o,'d) run_outcome \<Rightarrow> exit" where
  "main out =
     (if ru_panicked out then ExitPanic
      else case ru_err out of Some err \<Rightarrow> ExitFatal (Errorf ''demo failed: %v'' [] err) | None \<Rightarrow> ExitOK)"

section \<open>The waits end\<close>

lemma wait_until_returns:
  assumes "waits x demoPollInterval"
  shows "\<exists>r. wait_until x what cond = Some r"
  using wait_for_condition [OF assms [unfolded waits_def], of demo_timeout what "\<lambda>i. cond (wt_now x i) (wt_node x i)"]
  by (auto simp: wait_until_def)

lemma WaitForLeader_returns:
  assumes "waits x leaderPollInterval"
  shows "\<exists>r. WaitForLeader R (wt_start x) (wt_node x) (wt_clock x) timeout = Some r"
proof -
  have "WaitForLeader R (wt_start x) (wt_node x) (wt_clock x) timeout \<noteq> None"
    unfolding WaitForLeader_def waitForLeader_def
    by (rule wfl.ends [OF assms [unfolded waits_def]]) (auto simp: leaderPollInterval_def)
  then show ?thesis by simp
qed

lemma ready_loop_returns:
  assumes "\<forall>(id', mv) \<in> set ms. waits (mv_leader mv) leaderPollInterval \<and> waits (mv_voter mv) demoPollInterval"
  shows "\<exists>r. ready_loop R ms = Some r"
  using assms
proof (induction ms)
  case (Cons m ms)
  obtain id' mv where m: "m = (id', mv)" by fastforce
  from Cons.prems m obtain r1 r2 where
    "WaitForLeader R (wt_start (mv_leader mv)) (wt_node (mv_leader mv)) (wt_clock (mv_leader mv))
       demo_timeout = Some r1"
    "wait_until (mv_voter mv) (id' @ '' to report itself voter'') (\<lambda>now. reports_voter R) = Some r2"
    using WaitForLeader_returns [of "mv_leader mv" R demo_timeout] wait_until_returns [of "mv_voter mv"]
    by fastforce
  with Cons m show ?case by (auto split: sum.split option.split)
qed simp

end
