(* ===== verification/Demo_Props.thy ===== *)
theory Demo_Props
  imports Demo_Run
begin

text \<open>
  The properties of the three-node example: the run ends and cleans up whatever fails, what its
  reads print on a follower that holds the writes, and that its last part depends on how long
  the reads took.
\<close>

section \<open>The run cleans up\<close>

lemma boot_loop_ids:
  "boot_loop B S R F envs defs res ports root i ids f w = Some (Booted ns is as, w') \<Longrightarrow>
     is = (case bf_ids f of None \<Rightarrow> [] | Some x \<Rightarrow> x)"
proof (induction ids arbitrary: i f w)
  case Nil
  then show ?case by (simp add: boot_deferred_def)
next
  case (Cons id' ids)
  then show ?case
    by (auto simp: Let_def split: sum.splits option.splits dest!: Cons.IH)
qed

lemma bootNodes_ids:
  "bootNodes B S R F envs defs res ports root w = Some (Booted ns is as, w') \<Longrightarrow> is = demo_ids"
  using boot_loop_ids by (fastforce simp: bootNodes_def)

lemma close_nodes_all:
  assumes "close_nodes B S R xs w = (closed, w')" and "\<forall>(id', n) \<in> set xs. db_closeResult n = None"
  shows "map fst closed = map fst xs \<and> (\<forall>(id', n, e) \<in> set closed. db_closed n \<and> db_store n = None)"
  using assms
proof (induction xs arbitrary: w closed)
  case (Cons x xs)
  obtain id' n where x: "x = (id', n)" by fastforce
  obtain n' w1 es e where c: "DB_Close B S R (n, w) = (((n', w1), es), e)" by (metis prod.collapse)
  obtain cl w2 where r: "close_nodes B S R xs w1 = (cl, w2)" by fastforce
  from DB_Close_first(1,2) [OF c] Cons.prems(2) x have "db_closed n'" "db_store n' = None" by auto
  moreover have "map fst cl = map fst xs \<and> (\<forall>(id', n, e) \<in> set cl. db_closed n \<and> db_store n = None)"
    using Cons.IH [of w1 cl] Cons.prems x c r by simp
  ultimately show ?case using Cons.prems x c r by (auto simp: Let_def)
qed simp

text \<open>Time passes in every wait of the demo.\<close>

definition demo_waits :: "('b,'r,'o,'d) demo_views \<Rightarrow> bool" where
  "demo_waits dv \<longleftrightarrow>
     (\<forall>mv \<in> set (dv_members dv). waits (mv_leader mv) leaderPollInterval \<and> waits (mv_voter mv) demoPollInterval) \<and>
     (\<forall>i. waits (rv_caught_up (dv_reads dv i)) demoPollInterval \<and>
        waits (rv_deleted (dv_reads dv i)) demoPollInterval \<and>
        waits (tv_replicated (dv_ttl dv i)) demoPollInterval)"

lemma formCluster_returns:
  assumes "\<forall>mv \<in> set views. waits (mv_leader mv) leaderPollInterval \<and> waits (mv_voter mv) demoPollInterval"
  shows "\<exists>r. snd (formCluster B R ids addrs views leader leader_end) = Some r"
proof -
  have "\<forall>(id', mv) \<in> set (zip ids views).
      waits (mv_leader mv) leaderPollInterval \<and> waits (mv_voter mv) demoPollInterval"
    using assms by (auto dest: set_zip_rightD)
  then obtain r where "ready_loop R (zip ids views) = Some r" using ready_loop_returns by blast
  then show ?thesis
    by (auto simp: formCluster_def case_prod_beta split: option.split sum.split)
qed

lemma demoReads_returns:
  assumes "view_ok B G" and "waits (rv_caught_up rv) demoPollInterval" and "waits (rv_deleted rv) demoPollInterval"
  shows "\<exists>r. demoReads B R rv = Some r"
proof -
  obtain r1 r2 where "wait_until (rv_caught_up rv) ''follower to replicate user:2''
      (shows_value B R ''user:2'' ''grace'') = Some r1"
    "wait_until (rv_deleted rv) ''follower to see user:1 deleted'' (shows_missing B R ''user:1'') = Some r2"
    using wait_until_returns [OF assms(2)] wait_until_returns [OF assms(3)] by blast
  moreover obtain r3 where "snd (ScanPrefixBytes B R (fst (rv_scan rv)) (snd (rv_scan rv))
      (bytes_of ''user:'') demo_scan) = Some r3"
    using ScanPrefixBytes_result [OF assms(1)] by blast
  ultimately show ?thesis by (auto simp: demoReads_def split: option.split sum.split)
qed

lemma demoTTL_returns:
  assumes "waits (tv_replicated tv) demoPollInterval"
  shows "\<exists>r. demoTTL B R tv = Some r"
proof -
  obtain r where "wait_until (tv_replicated tv) ''session:xyz to replicate'' (shows_some B R ''session:xyz'') = Some r"
    using wait_until_returns [OF assms] by blast
  then show ?thesis by (auto simp: demoTTL_def Let_def split: option.split)
qed

lemma demo_phases_return:
  assumes "view_ok B G" and "demo_waits dv"
  shows "\<exists>r. demo_phases B R reg dv nodes ids addrs = Some r"
proof -
  let ?i = "firstFollower R (dv_nodes dv)"
  obtain r1 r2 r3 where
    "snd (formCluster B R ids addrs (dv_members dv) (hd nodes) (dv_leader_end dv)) = Some r1"
    "demoReads B R (dv_reads dv ?i) = Some r2" "demoTTL B R (dv_ttl dv ?i) = Some r3"
    using assms formCluster_returns [of "dv_members dv" B R ids addrs] demoReads_returns [OF assms(1)]
      demoTTL_returns
    unfolding demo_waits_def by metis
  then show ?thesis by (cases r2) (auto simp: demo_phases_def Let_def split: option.split)
qed

text \<open>
  C37: the example ends and cleans up. Once its three nodes have booted, \<open>run\<close> returns, if only
  time passes in its waits; whichever phase failed, its error (or nil) is what \<open>run\<close> returns,
  all three nodes were closed in reverse boot order and hold no store, and the data directory
  is gone unless its removal failed.
\<close>

theorem demo_cleans_up:
  assumes "view_ok B G" and boot: "bootNodes B S R F envs defs res (\<lambda>i. freePort (listens i)) root w =
      Some (Booted nodes ids addrs, w1)"
    and "demo_waits dv" and three: "length (dv_end dv) = 3" and fresh: "\<forall>n \<in> set (dv_end dv). db_closeResult n = None"
    and nofault: "\<And>n. F n (RemoveAll root) = None"
  shows "\<exists>out. run B S R F reg envs defs res listens (Inr root) dv w = Some out \<and> \<not> ru_panicked out \<and>
     (\<exists>ls. demo_phases B R reg dv nodes ids addrs = Some (ls, ru_err out)) \<and>
     map fst (ru_closed out) = [''node-3'', ''node-2'', ''node-1''] \<and>
     (\<forall>(id', n, e) \<in> set (ru_closed out). db_closed n \<and> db_store n = None) \<and>
     (\<forall>q. under root q \<longrightarrow> w_fs (ru_world out) q = None)"
proof -
  obtain ls e where ph: "demo_phases B R reg dv nodes ids addrs = Some (ls, e)"
    using demo_phases_return [OF assms(1,3)] by (metis prod.collapse)
  obtain closed w2 where cl: "demo_cleanup B S R ids (dv_end dv) (dv_world dv) = (closed, w2)" by fastforce
  have ids: "ids = demo_ids" by (rule bootNodes_ids [OF boot])
  have "\<forall>(id', n) \<in> set (rev (zip ids (dv_end dv))). db_closeResult n = None"
    using fresh by (auto dest: set_zip_rightD)
  from close_nodes_all [OF cl [unfolded demo_cleanup_def] this]
  have "map fst closed = rev (map fst (zip ids (dv_end dv)))"
    and c: "\<forall>(id', n, e) \<in> set closed. db_closed n \<and> db_store n = None" by (simp_all add: rev_map)
  then have "map fst closed = [''node-3'', ''node-2'', ''node-1'']"
    using three by (simp add: ids demo_ids_def)
  with c ph cl boot show ?thesis
    by (simp add: run_def os_RemoveAll_def nofault)
qed

text \<open>A boot of three nodes over the reference instances.\<close>

lemma demo_open_works:
  assumes "options = [] \<or> options = [NewCluster]" and "id' \<noteq> []" and "filepath_Join root id' \<noteq> []"
  shows "\<exists>out db. DB_Open ref_badger ref_storage ref_raft no_faults (transport_env None) sample_defaults
     (\<lambda>a. Inr ()) (demo_config root id' (''127.0.0.1:'' @ show_nat p)) options w = Some out \<and>
     oo_result out = Inr db"
proof -
  have w: "waitForLeader ref_raft s (\<lambda>i. db\<lparr>db_raft := sample_leader\<rparr>) c t =
      (case checkOpen db of Some e \<Rightarrow> Some (Inl e) | None \<Rightarrow> Some (Inr \<lparr>node_ID = ''n1'',
         node_RaftAddr = ''127.0.0.1:7001'', node_Role = RoleVoter\<rparr>))" for s db c t
    unfolding waitForLeader_def
    by (subst wait_loop.simps) (simp add: checkOpen_def leader_node_def ref_raft_def split: option.split)
  show ?thesis
    using assms
    by (auto simp: DB_Open_def parseOpenOptions_def NewCluster_def validateConfig_def demo_config_def
        resolveAdvertise_def frame_simps open_badger_def os_MkdirAll_def no_faults_def badger_Open_def
        ref_storage_def ref_Open_def open_raft_side_def transport_env_def sample_env_def start_node_def
        bootstrap_def Let_def w checkOpen_def new_db_def split: prod.splits option.splits)
qed

lemma demo_boot_loop_works:
  assumes "\<forall>id' \<in> set ids. id' \<noteq> [] \<and> filepath_Join root id' \<noteq> []"
  shows "\<exists>ns is as w'. boot_loop ref_badger ref_storage ref_raft no_faults (\<lambda>i. transport_env None)
     sample_defaults (\<lambda>a. Inr ()) (\<lambda>i. Inr p) root i ids f w = Some (Booted ns is as, w')"
  using assms
proof (induction ids arbitrary: i f w)
  case (Cons id' ids)
  obtain out db where "DB_Open ref_badger ref_storage ref_raft no_faults (transport_env None) sample_defaults
     (\<lambda>a. Inr ()) (demo_config root id' (''127.0.0.1:'' @ show_nat p)) (if i = 0 then [NewCluster] else []) w =
     Some out" "oo_result out = Inr db"
    using demo_open_works [of "if i = 0 then [NewCluster] else []" id' root p w] Cons.prems
    by (cases "i = 0") auto
  with Cons show ?case by (simp add: Let_def)
qed (simp add: boot_deferred_def)

definition sample_watch :: "(ref_db, ref_raft_node, unit) watch" where
  "sample_watch = \<lparr>wt_start = 0, wt_node = (\<lambda>i. sample_node [] sample_leader), wt_now = (\<lambda>i. 0),
     wt_clock = (\<lambda>i. int i * second)\<rparr>"

lemma sample_watch_waits [simp]:
  "waits sample_watch demoPollInterval" "waits sample_watch leaderPollInterval"
  by (simp_all add: waits_def sample_watch_def sleeps_def demoPollInterval_def leaderPollInterval_def
      algebra_simps)

definition sample_views :: "(ref_db, ref_raft_node, unit, ref_store) demo_views" where
  "sample_views =
     (let n = sample_node [] sample_leader in
      \<lparr>dv_members = replicate 3 \<lparr>mv_leader = sample_watch, mv_voter = sample_watch, mv_status = n\<rparr>,
       dv_leader_end = n, dv_writer = n, dv_clock = (\<lambda>i. 0), dv_nodes = [n, n, n],
       dv_reads = (\<lambda>i. \<lparr>rv_caught_up = sample_watch, rv_get = (0, n), rv_deleted = sample_watch, rv_scan = (0, n)\<rparr>),
       dv_ttl = (\<lambda>i. \<lparr>tv_replicated = sample_watch, tv_before = (0, n), tv_delay = 0, tv_after = n\<rparr>),
       dv_end = [n, n, n], dv_world = empty_world\<rparr>)"

theorem demo_cleans_up_example:
  "\<exists>out. run ref_badger ref_storage ref_raft no_faults sample_registry (\<lambda>i. transport_env None)
       sample_defaults (\<lambda>a. Inr ()) (\<lambda>i. Inr 7001) (Inr ''/tmp'') sample_views empty_world = Some out \<and>
     \<not> ru_panicked out \<and> map fst (ru_closed out) = [''node-3'', ''node-2'', ''node-1'']"
proof -
  have "\<forall>id' \<in> set demo_ids. id' \<noteq> [] \<and> filepath_Join ''/tmp'' id' \<noteq> []"
    by (simp add: demo_ids_def filepath_Join_plain)
  then obtain ns ids as w1 where "bootNodes ref_badger ref_storage ref_raft no_faults (\<lambda>i. transport_env None)
      sample_defaults (\<lambda>a. Inr ()) (\<lambda>i. Inr 7001) ''/tmp'' empty_world = Some (Booted ns ids as, w1)"
    unfolding bootNodes_def using demo_boot_loop_works by metis
  then have boot: "bootNodes ref_badger ref_storage ref_raft no_faults (\<lambda>i. transport_env None)
      sample_defaults (\<lambda>a. Inr ()) (\<lambda>i. freePort (Inr 7001)) ''/tmp'' empty_world = Some (Booted ns ids as, w1)"
    by (simp add: freePort_def)
  have "demo_waits sample_views" by (simp add: demo_waits_def sample_views_def Let_def)
  moreover have "length (dv_end sample_views) = 3" "\<forall>n \<in> set (dv_end sample_views). db_closeResult n = None"
    by (simp_all add: sample_views_def Let_def)
  ultimately show ?thesis
    using demo_cleans_up [OF ref_view_ok boot, of sample_views sample_registry] by (auto simp: no_faults_def)
qed

section \<open>What the reads print\<close>

text \<open>The commands of the three writes.\<close>

definition user :: "string \<Rightarrow> bytes" where "user n = bytes_of (''user:'' @ n)"

definition demo_commands :: "(nat \<Rightarrow> time) \<Rightarrow> command list" where
  "demo_commands clock =
     [set_command (user ''1'') (bytes_of ''ada'') 0,
      set_command (bytes_of ''session:xyz'') (bytes_of ''token-123'') (absExpiry (clock 1) (2 * second)),
      \<lparr>cmd_Pairs = [\<lparr>cp_Key = user ''2'', cp_Value = bytes_of ''grace'', cp_ExpiresAtUnix = 0\<rparr>,
                    \<lparr>cp_Key = user ''3'', cp_Value = bytes_of ''edsger'', cp_ExpiresAtUnix = 0\<rparr>],
       cmd_Deletes = [user ''1'']\<rparr>]"

lemma demo_batch_command:
  "batch_command (\<lambda>i. clock (2 + i)) demo_batch = Inr (demo_commands clock ! 2)"
  by (simp add: batch_command_def demo_batch_def SetOp_def DeleteOp_def demo_commands_def user_def
      bytes_of_inj mutSet_def mutDelete_def)

lemma demo_set_commands:
  "DB_Set B R reg now db ''user:1'' ''ada'' [] = DB_apply B R reg db (demo_commands clock ! 0)"
  "DB_Set B R reg (clock 1) db ''session:xyz'' ''token-123'' [WithTTL (2 * second)] =
     DB_apply B R reg db (demo_commands clock ! 1)"
  by (simp_all add: DB_Set_def SetBytes_def demo_commands_def set_command_def user_def
      resolveSetOptions_WithTTL)

lemma demoWrites_commands:
  assumes "demoWrites B R reg clock leader = (db', None)"
  obtains db1 db2 where "DB_apply B R reg leader (demo_commands clock ! 0) = (db1, None)"
    and "DB_apply B R reg db1 (demo_commands clock ! 1) = (db2, None)"
    and "DB_apply B R reg db2 (demo_commands clock ! 2) = (db', None)"
proof -
  obtain db1 db2 where w: "DB_Set B R reg (clock 0) leader ''user:1'' ''ada'' [] = (db1, None)"
    "DB_Set B R reg (clock 1) db1 ''session:xyz'' ''token-123'' [WithTTL (2 * second)] = (db2, None)"
    "Batch B R reg (\<lambda>i. clock (2 + i)) db2 demo_batch = (db', None)"
    using assms by (auto simp: demoWrites_def Let_def split: prod.splits option.splits)
  show ?thesis
  proof (rule that)
    show "DB_apply B R reg leader (demo_commands clock ! 0) = (db1, None)"
      using w(1) by (simp only: demo_set_commands(1) [of _ _ _ _ _ clock])
    show "DB_apply B R reg db1 (demo_commands clock ! 1) = (db2, None)"
      using w(2) by (simp only: demo_set_commands(2))
    show "DB_apply B R reg db2 (demo_commands clock ! 2) = (db', None)"
      using w(3) demo_batch_command [of clock] by (auto simp: Batch_def demo_batch_def split: option.splits)
  qed
qed

lemma demo_map:
  "fold apply_command (demo_commands clock) Map.empty =
     [bytes_of ''session:xyz'' \<mapsto> (bytes_of ''token-123'', absExpiry (clock 1) (2 * second)),
      user ''2'' \<mapsto> (bytes_of ''grace'', 0), user ''3'' \<mapsto> (bytes_of ''edsger'', 0)]"
proof -
  have "user ''1'' \<noteq> bytes_of ''session:xyz''" "user ''1'' \<noteq> user ''2''" "user ''1'' \<noteq> user ''3''"
    by (simp_all add: user_def bytes_of_inj)
  then show ?thesis
    by (auto simp: demo_commands_def apply_command_def apply_pairs_def apply_deletes_def set_command_def
        fun_eq_iff)
qed

lemma demo_keys [simp]:
  "user ''2'' < user ''3''" "user ''2'' \<noteq> user ''3''" "prefix (bytes_of ''user:'') (user n)"
  "\<not> prefix (bytes_of ''user:'') (bytes_of ''session:xyz'')"
  "user n \<noteq> bytes_of ''session:xyz''" "bytes_of ''session:xyz'' \<noteq> user n"
  by (simp_all add: user_def bytes_of_def)

lemma demo_visible:
  "live now (fold apply_command (demo_commands clock) Map.empty) (user ''2'') = Some (bytes_of ''grace'')"
  "live now (fold apply_command (demo_commands clock) Map.empty) (user ''3'') = Some (bytes_of ''edsger'')"
  "prefix_keys (bytes_of ''user:'') (live now (fold apply_command (demo_commands clock) Map.empty)) =
     {user ''2'', user ''3''}"
  unfolding demo_map by (auto simp: live_def alive_def prefix_keys_def split: if_splits)

text \<open>A follower that shows what the three writes made.\<close>

definition caught_up :: "('b,'t,'v,'i,'m) badger_ghost \<Rightarrow> (nat \<Rightarrow> time) \<Rightarrow> time \<times> ('b,'r,'o) DB \<Rightarrow> bool" where
  "caught_up G clock x \<longleftrightarrow>
     (\<exists>m. node_contents G (snd x) = Some m \<and>
        live (fst x) m = live (fst x) (fold apply_command (demo_commands clock) Map.empty))"

lemma local_scan_same: "fst (ScanPrefixBytes B R now db pre demo_scan) = db"
  by (rule local_reads_change_nothing [of local_read demo_scan, THEN conjunct2, THEN conjunct1])
    (simp_all add: local_read_def demo_scan_def)

lemma caught_up_get:
  assumes "get_ok B G" and "caught_up G clock (now, n)"
    and "snd (GetWithOptions B R now n ''user:2'' local_read) = Inr v"
  shows "v = ''grace''"
proof -
  have u: "bytes_of ''user:2'' = user ''2''" by (simp add: user_def)
  obtain y where "snd (GetBytes B R now n (user ''2'') local_read) = Inr y" and v: "v = string_of y"
    using assms(3) by (auto simp: GetWithOptions_def u split: prod.splits sum.splits)
  then have "getBytes B now n (user ''2'') = Inr y"
    by (auto simp: GetBytes_def prepareRead_def local_read_def mode_defs split: if_splits option.splits)
  then obtain m where "node_contents G n = Some m" "live now m (user ''2'') = Some y"
    by (rule getBytes_value [OF assms(1)])
  with assms(2) demo_visible(1) [of now clock] v show ?thesis by (auto simp: caught_up_def)
qed

lemma caught_up_scan:
  assumes "view_ok B G" and "caught_up G clock (now, n)"
    and "snd (ScanPrefixBytes B R now n (bytes_of ''user:'') demo_scan) = Some (Inr es)"
  shows "es = [\<lparr>entry_Key = user ''2'', entry_Value = bytes_of ''grace''\<rparr>,
               \<lparr>entry_Key = user ''3'', entry_Value = bytes_of ''edsger''\<rparr>]"
proof -
  let ?M = "fold apply_command (demo_commands clock) Map.empty"
  from ScanPrefixBytes_result [OF assms(1), of R now n "bytes_of ''user:''" demo_scan] assms(3)
  obtain limit m where "resolveLimit demo_scan = Inr limit" and m: "node_contents G n = Some m"
    and k: "map entry_Key es = scan_take limit (sorted_list_of_set (prefix_keys (bytes_of ''user:'') (live now m)))"
    and v: "\<forall>e \<in> set es. live now m (entry_Key e) = Some (entry_Value e)"
    by (auto simp: local_scan_same)
  moreover have live: "live now m = live now ?M" using assms(2) m by (simp add: caught_up_def)
  moreover have "sorted_list_of_set {user ''2'', user ''3''} = [user ''2'', user ''3'']"
    using demo_keys(1) by (simp add: less_imp_le)
  ultimately have keys: "map entry_Key es = [user ''2'', user ''3'']"
    by (simp add: demo_visible resolveLimit_def demo_scan_def scan_take_def)
  then obtain e2 e3 where es: "es = [e2, e3]" "entry_Key e2 = user ''2''" "entry_Key e3 = user ''3''"
    by (auto simp: map_eq_Cons_conv)
  with v live demo_visible show ?thesis by (cases e2; cases e3) simp
qed

text \<open>
  C38: what the example prints. If the follower shows what the commands of \<open>demoWrites\<close> make of
  an empty database at the times of the two reads, then \<open>demoReads\<close>, when it returns nil, has
  printed the value of \<open>user:2\<close> and a scan with exactly \<open>user:2\<close> and \<open>user:3\<close>, in this order:
  \<open>user:1\<close>, set first and deleted by the batch, is not there.
\<close>

theorem demo_reads_print:
  assumes "view_ok B G" and "demoWrites B R' reg clock leader = (leader', None)"
    and "caught_up G clock (rv_get rv)" and "caught_up G clock (rv_scan rv)"
    and "demoReads B R rv = Some (lines', None)"
  shows "(\<exists>db1 db2. DB_apply B R' reg leader (demo_commands clock ! 0) = (db1, None) \<and>
       DB_apply B R' reg db1 (demo_commands clock ! 1) = (db2, None) \<and>
       DB_apply B R' reg db2 (demo_commands clock ! 2) = (leader', None)) \<and>
     lines' = [LineGet ''user:2'' ''grace'',
       LineScan [\<lparr>entry_Key = bytes_of ''user:2'', entry_Value = bytes_of ''grace''\<rparr>,
                 \<lparr>entry_Key = bytes_of ''user:3'', entry_Value = bytes_of ''edsger''\<rparr>]]"
proof
  show "\<exists>db1 db2. DB_apply B R' reg leader (demo_commands clock ! 0) = (db1, None) \<and>
       DB_apply B R' reg db1 (demo_commands clock ! 1) = (db2, None) \<and>
       DB_apply B R' reg db2 (demo_commands clock ! 2) = (leader', None)"
    using demoWrites_commands [OF assms(2)] by metis
  obtain v es where l: "lines' = [LineGet ''user:2'' v, LineScan es]"
    and v: "snd (GetWithOptions B R (fst (rv_get rv)) (snd (rv_get rv)) ''user:2'' local_read) = Inr v"
    and es: "snd (ScanPrefixBytes B R (fst (rv_scan rv)) (snd (rv_scan rv)) (bytes_of ''user:'') demo_scan) =
      Some (Inr es)"
    using assms(5) by (auto simp: demoReads_def split: option.splits sum.splits)
  have "get_ok B G" using assms(1) by (simp add: view_ok_def)
  from caught_up_get [OF this _ v] caught_up_scan [OF assms(1) _ es] assms(3,4) l
  show "lines' = [LineGet ''user:2'' ''grace'',
       LineScan [\<lparr>entry_Key = bytes_of ''user:2'', entry_Value = bytes_of ''grace''\<rparr>,
                 \<lparr>entry_Key = bytes_of ''user:3'', entry_Value = bytes_of ''edsger''\<rparr>]]"
    by (simp add: user_def)
qed

text \<open>A follower and a leader for the example.\<close>

definition demo_store :: ref_store where
  "demo_store = [(user ''2'', bytes_of ''grace'', 0), (user ''3'', bytes_of ''edsger'', 0),
     (bytes_of ''session:xyz'', bytes_of ''token-123'', 2)]"

definition demo_follower :: "(ref_db, ref_raft_node, unit) DB" where
  "demo_follower = sample_node demo_store (sample_leader\<lparr>rn_State := RS_Follower\<rparr>)"

lemma DB_apply_ref:
  assumes "encodable c" and "command_txn ref_badger c [] = Inr txn" and "\<not> db_closed db"
    and "db_store db = Some (o', s)" and "rn_State (db_raft db) = RS_Leader"
  obtains db' where "DB_apply ref_badger ref_raft sample_registry db c = (db', None)" and "\<not> db_closed db'"
    and "db_store db' = Some (o', fold ref_write txn s)" and "rn_State (db_raft db') = RS_Leader"
proof
  let ?db = "db\<lparr>db_raft := (db_raft db)\<lparr>rn_Last := Suc (rn_Last (db_raft db))\<rparr>,
    db_store := Some (o', fold ref_write txn s), db_appliedIndex := of_nat (Suc (rn_Last (db_raft db)))\<rparr>"
  show "DB_apply ref_badger ref_raft sample_registry db c = (?db, None)"
    using assms
    by (simp add: DB_apply_def checkOpen_def ref_raft_def ref_submit_def encodable_encode fsm_Apply_def
        withStore_def ref_badger_def)
qed (use assms in simp_all)

lemma demo_encodable: "c \<in> set (demo_commands (\<lambda>i. 0)) \<Longrightarrow> encodable c"
proof -
  have len: "length (bytes_of s) = length s" for s by (simp add: bytes_of_def)
  have exp: "absExpiry 0 (2 * second) = 2" by (simp add: absExpiry_def unix_seconds_def)
  have "command_fits c \<and> length (enc_command c) < 200" if "c \<in> set (demo_commands (\<lambda>i. 0))" for c
    using that unfolding demo_commands_def user_def set_command_def exp
    by (auto simp: command_fits_def enc_command_def enc_struct_def enc_slice_def enc_pair_def enc_bytes_def
        enc_uint_def len tooBig_def)
  moreover assume "c \<in> set (demo_commands (\<lambda>i. 0))"
  ultimately have "command_fits c" and "length (enc_command c) < 200" by blast+
  then show "encodable c"
    by (simp add: encodable_def encodeCommand_def sample_registry_def enc_int_def enc_uint_def tooBig_def
        big_endian.simps)
qed

lemma demo_txn: "c \<in> set (demo_commands (\<lambda>i. 0)) \<Longrightarrow> \<exists>t. command_txn ref_badger c [] = Inr t"
  by (auto simp: demo_commands_def command_txn_def ref_badger_def pair_entry_def set_command_def
      ref_reject_def user_def badger_prefix_def bytes_of_def)

lemma demo_writes_work:
  "\<exists>leader'. demoWrites ref_badger ref_raft sample_registry (\<lambda>i. 0) (sample_node [] sample_leader) = (leader', None)"
proof -
  let ?c = "demo_commands (\<lambda>i. 0)"
  have mem: "?c ! 0 \<in> set ?c" "?c ! 1 \<in> set ?c" "?c ! 2 \<in> set ?c" by (simp_all add: demo_commands_def)
  note step = DB_apply_ref [OF demo_encodable]
  obtain t0 t1 t2 where t: "command_txn ref_badger (?c ! 0) [] = Inr t0"
    "command_txn ref_badger (?c ! 1) [] = Inr t1" "command_txn ref_badger (?c ! 2) [] = Inr t2"
    using demo_txn mem by metis
  obtain db1 s1 where d1: "DB_apply ref_badger ref_raft sample_registry (sample_node [] sample_leader) (?c ! 0) =
      (db1, None)" "\<not> db_closed db1" "db_store db1 = Some (sample_options, s1)" "rn_State (db_raft db1) = RS_Leader"
    by (rule step [OF mem(1) t(1), of "sample_node [] sample_leader" sample_options "[]"]) auto
  obtain db2 s2 where d2: "DB_apply ref_badger ref_raft sample_registry db1 (?c ! 1) = (db2, None)"
      "\<not> db_closed db2" "db_store db2 = Some (sample_options, s2)" "rn_State (db_raft db2) = RS_Leader"
    by (rule step [OF mem(2) t(2) d1(2-4)]) auto
  obtain db3 where d3: "DB_apply ref_badger ref_raft sample_registry db2 (?c ! 2) = (db3, None)"
    by (rule step [OF mem(3) t(3) d2(2-4)]) auto
  have "Batch ref_badger ref_raft sample_registry (\<lambda>i. 0) db2 demo_batch = (db3, None)"
    using demo_batch_command [of "\<lambda>i. 0"] d2(2) d3 by (simp add: Batch_def checkOpen_def demo_batch_def)
  then show ?thesis
    using d1(1) d2(1)
    unfolding demoWrites_def demo_set_commands(1) [where clock = "\<lambda>i. 0"]
      demo_set_commands(2) [where clock = "\<lambda>i. 0"]
    by simp
qed

definition follower_watch :: "(ref_db, ref_raft_node, unit) watch" where
  "follower_watch = sample_watch\<lparr>wt_node := (\<lambda>i. demo_follower)\<rparr>"

definition follower_view :: "(ref_db, ref_raft_node, unit) reads_view" where
  "follower_view = \<lparr>rv_caught_up = follower_watch, rv_get = (0, demo_follower),
     rv_deleted = follower_watch, rv_scan = (0, demo_follower)\<rparr>"

lemma demo_follower_map: "node_contents ref_ghost demo_follower =
    Some (fold apply_command (demo_commands (\<lambda>i. 0)) Map.empty)"
  unfolding demo_map
  by (auto simp: node_contents_def demo_follower_def demo_store_def ref_ghost_def fun_eq_iff absExpiry_def
      unix_seconds_def)

lemma follower_caught_up: "caught_up ref_ghost (\<lambda>i. 0) (now, demo_follower)"
  by (simp add: caught_up_def demo_follower_map)

lemma demo_follower_get:
  "snd (GetWithOptions ref_badger ref_raft 0 demo_follower key local_read) =
     (case live 0 (map_of demo_store) (bytes_of key) of
        None \<Rightarrow> Inl (Sentinel ErrKeyNotFound) | Some v \<Rightarrow> Inr (string_of v))" if "key \<noteq> []"
  using that
  by (simp add: GetWithOptions_def GetBytes_def getBytes_open demo_follower_def ref_badger_def
      ref_view_at_live split: option.split)

lemma demo_store_live:
  "live 0 (map_of demo_store) (bytes_of ''user:2'') = Some (bytes_of ''grace'')"
  "live 0 (map_of demo_store) (bytes_of ''user:1'') = None"
  by (simp_all add: live_def demo_store_def user_def alive_def bytes_of_inj)

lemma follower_waits:
  "wait_until follower_watch what cond = Some None" if "cond 0 demo_follower"
  using that unfolding wait_until_def waitFor_def
  by (subst waitFor_loop.simps) (simp add: follower_watch_def sample_watch_def)

lemma ref_scan_value: "scan_loop ref_badger limit pre it es \<noteq> Some (Inl e)"
proof (induction it arbitrary: es)
  case Nil
  then show ?case by (subst scan_loop.simps) (simp add: ref_badger_def)
next
  case (Cons x it)
  have "i_Next ref_badger (x # it) = it" "\<exists>v. m_Value ref_badger (i_Item ref_badger (x # it)) = Inr v"
    by (simp_all add: ref_badger_def)
  with Cons show ?case by (subst scan_loop.simps) (auto split: sum.split)
qed

lemma demo_follower_scan:
  "\<exists>es. snd (ScanPrefixBytes ref_badger ref_raft 0 demo_follower (bytes_of ''user:'') demo_scan) = Some (Inr es)"
proof -
  obtain r where r: "snd (ScanPrefixBytes ref_badger ref_raft 0 demo_follower (bytes_of ''user:'') demo_scan) = Some r"
    using ScanPrefixBytes_result [OF ref_view_ok] by blast
  moreover have "r \<noteq> Inl e" for e
    using r ref_scan_value [of 0 "bytes_of ''user:''" _ "[]" e]
    by (auto simp: ScanPrefixBytes_def resolveLimit_def demo_scan_def demo_follower_def withStore_open
        scan_store_def ref_badger_def)
  ultimately show ?thesis by (cases r) auto
qed

theorem demo_reads_print_example:
  "\<exists>es. demoReads ref_badger ref_raft follower_view = Some ([LineGet ''user:2'' ''grace'', LineScan es], None) \<and>
     map (\<lambda>e. string_of (entry_Key e)) es = [''user:2'', ''user:3'']"
proof -
  obtain es where es: "snd (ScanPrefixBytes ref_badger ref_raft 0 demo_follower (bytes_of ''user:'') demo_scan) =
      Some (Inr es)" using demo_follower_scan by blast
  have "shows_value ref_badger ref_raft ''user:2'' ''grace'' 0 demo_follower"
    "shows_missing ref_badger ref_raft ''user:1'' 0 demo_follower"
    by (simp_all add: shows_value_def shows_missing_def demo_follower_get demo_store_live)
  then have run: "demoReads ref_badger ref_raft follower_view = Some ([LineGet ''user:2'' ''grace'', LineScan es], None)"
    using es by (simp add: demoReads_def follower_view_def follower_waits demo_follower_get demo_store_live)
  obtain leader' where w: "demoWrites ref_badger ref_raft sample_registry (\<lambda>i. 0) (sample_node [] sample_leader) =
      (leader', None)" using demo_writes_work by blast
  from demo_reads_print [OF ref_view_ok w _ _ run] run show ?thesis
    by (simp add: follower_view_def follower_caught_up)
qed

section \<open>The TTL part\<close>

lemma session_expires:
  assumes "0 \<le> set_at" and "unix_seconds (set_at + 2 * second) < 2 ^ 64" and "set_at + 2 * second \<le> now"
  shows "\<not> alive now (absExpiry set_at (2 * second))"
proof -
  have "uint (absExpiry set_at (2 * second)) = unix_seconds (set_at + 2 * second)"
    using assms(1,2) by (intro uint_absExpiry) auto
  moreover have "1 \<le> unix_seconds (set_at + 2 * second)"
    using unix_seconds_mono [of second "set_at + 2 * second"] assms(1) by (simp add: unix_seconds_def)
  ultimately show ?thesis using unix_seconds_mono [OF assms(3)] by (auto simp: alive_def)
qed

lemma shows_some_live:
  assumes "get_ok B G" and "shows_some B R key now n"
  obtains m v where "node_contents G n = Some m" and "live now m (bytes_of key) = Some v"
proof -
  from assms(2) obtain v where "getBytes B now n (bytes_of key) = Inr v"
    by (auto simp: shows_some_def GetWithOptions_def GetBytes_def prepareRead_def local_read_def mode_defs
        split: prod.splits sum.splits if_splits option.splits)
  then show ?thesis by (rule getBytes_value [OF assms(1)]) (rule that)
qed

text \<open>After the sleep the key is not shown any more, if it had been set when it was first read.\<close>

lemma demo_ttl_expires:
  assumes "get_ok B G" and "demoTTL B R tv = Some (lines', None)" and "0 \<le> tv_delay tv"
    and "0 \<le> clock 1" "unix_seconds (clock 1 + 2 * second) < 2 ^ 64" "clock 1 \<le> fst (tv_before tv)"
    and "\<And>m. node_contents G (tv_after tv) = Some m \<Longrightarrow>
      m (bytes_of ''session:xyz'') = fold apply_command (demo_commands clock) Map.empty (bytes_of ''session:xyz'')"
  shows "\<not> shows_some B R ''session:xyz'' (fst (tv_before tv) + ttlSleep + tv_delay tv) (tv_after tv)"
proof
  let ?now = "fst (tv_before tv) + ttlSleep + tv_delay tv"
  assume "shows_some B R ''session:xyz'' ?now (tv_after tv)"
  then obtain m v where m: "node_contents G (tv_after tv) = Some m" "live ?now m (bytes_of ''session:xyz'') = Some v"
    by (rule shows_some_live [OF assms(1)])
  have "clock 1 + 2 * second \<le> ?now" using assms(3,6) by (simp add: ttlSleep_def)
  from session_expires [OF assms(4,5) this] assms(7) [OF m(1)] m(2) show False
    by (auto simp: live_Some_iff demo_map)
qed

text \<open>
  C40: the last part of the example depends on the time the reads took. \<open>session:xyz\<close> was set
  with a TTL of two seconds before \<open>demoReads\<close> ran, which may itself wait for up to twenty. If
  the entry has expired by the time \<open>demoTTL\<close> first looks, then no round of its wait finds the
  key, and it fails with a timeout although the key was replicated and expired as it should.
\<close>

theorem demo_ttl_too_late:
  assumes "get_ok B G" and "waits (tv_replicated tv) demoPollInterval"
    and late: "\<And>i. clock 1 + 2 * second \<le> wt_now (tv_replicated tv) i" and "0 \<le> clock 1"
      "unix_seconds (clock 1 + 2 * second) < 2 ^ 64"
    and held: "\<And>i m. node_contents G (wt_node (tv_replicated tv) i) = Some m \<Longrightarrow>
      m (bytes_of ''session:xyz'') \<in>
        {None, fold apply_command (demo_commands clock) Map.empty (bytes_of ''session:xyz'')}"
  shows "demoTTL B R tv = Some ([], Some (wait_timeout (10 * second) ''session:xyz to replicate''))"
proof -
  let ?x = "tv_replicated tv" and ?k = "bytes_of ''session:xyz''"
  have dead: "\<not> alive (wt_now ?x i) (absExpiry (clock 1) (2 * second))" for i
    by (rule session_expires [OF assms(4,5) late])
  have none: "\<not> shows_some B R ''session:xyz'' (wt_now ?x i) (wt_node ?x i)" for i
  proof
    assume "shows_some B R ''session:xyz'' (wt_now ?x i) (wt_node ?x i)"
    then obtain m v where "node_contents G (wt_node ?x i) = Some m" "live (wt_now ?x i) m ?k = Some v"
      by (rule shows_some_live [OF assms(1)])
    with held [of i m] dead [of i] show False by (auto simp: live_Some_iff demo_map)
  qed
  have "waitFor (wt_start ?x) (wt_clock ?x) demo_timeout ''session:xyz to replicate''
      (\<lambda>i. shows_some B R ''session:xyz'' (wt_now ?x i) (wt_node ?x i)) = Some (Some (wait_timeout demo_timeout ''session:xyz to replicate''))"
    using wait_for_condition [OF assms(2) [unfolded waits_def], of demo_timeout "''session:xyz to replicate''"
        "\<lambda>i. shows_some B R ''session:xyz'' (wt_now ?x i) (wt_node ?x i)"] none by blast
  then show ?thesis by (simp add: demoTTL_def wait_until_def demo_timeout_def)
qed

theorem demo_ttl_too_late_example:
  "demoTTL ref_badger ref_raft
     \<lparr>tv_replicated = follower_watch\<lparr>wt_now := (\<lambda>i. 2 * second)\<rparr>, tv_before = (0, demo_follower),
      tv_delay = 0, tv_after = demo_follower\<rparr> =
   Some ([], Some (wait_timeout (10 * second) ''session:xyz to replicate''))"
proof (rule demo_ttl_too_late [OF ref_get_ok, where clock = "\<lambda>i. 0"])
  fix i m
  assume "node_contents ref_ghost (wt_node (tv_replicated \<lparr>tv_replicated =
    follower_watch\<lparr>wt_now := (\<lambda>i. 2 * second)\<rparr>, tv_before = (0, demo_follower),
      tv_delay = 0, tv_after = demo_follower\<rparr>) i) = Some m"
  then show "m (bytes_of ''session:xyz'') \<in> {None,
      fold apply_command (demo_commands (\<lambda>i. 0)) Map.empty (bytes_of ''session:xyz'')}"
    by (simp add: follower_watch_def demo_follower_map)
qed (use sample_watch_waits(1) in \<open>simp_all add: follower_watch_def waits_def unix_seconds_def sample_watch_def\<close>)

end
