(* ===== verification/Spec2Isabelle.thy ===== *)
theory Spec2Isabelle
  imports Crash Clients Atomicity Node_Life Slices Demo_Props
begin

text \<open>
  honeybadger is a Go library that replicates one Badger key-value database through a Raft
  group. A client's write is encoded as a command, committed by Raft, and applied to Badger by
  the finite state machine of every node; reads are served from the local database, after a
  barrier on the leader when they are to be linearizable; snapshots are full Badger backups,
  and a restore replaces the whole database. This development models the library's code, states
  what each part promises, and proves it.

  \<^bold>\<open>Theories and the code they model\<close> (paths under \<open>src/\<close>):

  \<^item> \<open>Prelude\<close>: machine types, strings and bytes, decimal printing, Go's error values with
    \<open>errors.Is\<close>, \<open>errors.As\<close> and \<open>errors.Join\<close>.
  \<^item> \<open>Types\<close>: \<open>types.go\<close>, roles, states, status, the not-leader error.
  \<^item> \<open>Options\<close>: \<open>options.go\<close> and \<open>absExpiry\<close> of \<open>write.go\<close>.
  \<^item> \<open>Config\<close>: \<open>config.go\<close> and the configuration helpers of \<open>db.go\<close>; \<open>filepath.Join\<close>.
  \<^item> \<open>Gob\<close>: \<open>command\<close>, \<open>encodeCommand\<close>, \<open>decodeCommand\<close> of \<open>fsm.go\<close> over the gob wire format;
    locale \<open>codec\<close> with its round trip, interpreted on them.
  \<^item> \<open>Badger\<close>, \<open>Storage\<close>: the dependency's operations as records of functions with contracts
    (\<open>update_ok\<close>, \<open>view_ok\<close>, \<open>storage_ok\<close>, \<open>backup_ok\<close>), and the file-system calls of the restore
    over a schedule of faults; each contract has a reference instance.
  \<^item> \<open>Node\<close>: the \<open>DB\<close> struct and accessors of \<open>db.go\<close>; Raft as a record of functions; locale
    \<open>leader_call\<close>, the contract of calls that need the leader.
  \<^item> \<open>FSM\<close>: \<open>fsm.Apply\<close>; its specification \<open>apply_command\<close> on the abstract map; locale
    \<open>blind_writes\<close>, from which replay convergence follows.
  \<^item> \<open>Write\<close>: \<open>write.go\<close> and \<open>DB.apply\<close>. \<open>Read\<close>: \<open>read.go\<close>. \<open>Cluster\<close>: \<open>cluster.go\<close> and
    \<open>status.go\<close>, with locale \<open>poller\<close> for loops that sleep and poll.
  \<^item> \<open>Restore\<close>: \<open>Snapshot\<close>, \<open>Persist\<close>, \<open>Restore\<close>, \<open>restoreInPlace\<close> and their helpers in
    \<open>fsm.go\<close>. \<open>Lifecycle\<close>: \<open>Open\<close> and \<open>Close\<close> of \<open>db.go\<close>.
  \<^item> \<open>Store_Lock\<close>: \<open>storeMu\<close> as a transition system over any number of threads, with abstract
    handles.
  \<^item> \<open>Restore_Steps\<close>: the restore and the closing of the store as programs of single actions,
    which compute \<open>fsm_Restore\<close> and \<open>closeStore\<close>. \<open>Atomicity\<close>: these programs and any number of
    threads in \<open>withStore\<close> and \<open>Persist\<close> interleaved under the lock, on the real node and files;
    the specification is the whole calls one after the other (\<open>in_turn\<close>).
  \<^item> \<open>Swap_Moments\<close>: the moments of a restore's swap and of its rollback, with the generation of
    data that the live directory holds at each; they are the worlds the program goes through.
    \<open>Crash\<close>: what restores leave that fail or are interrupted.
  \<^item> \<open>Replication\<close>: the composition. A cluster is a committed log and any number of nodes, each
    a \<open>DB\<close> with its disk; its steps are \<open>fsm.Apply\<close>, \<open>Snapshot\<close>, \<open>Persist\<close>, \<open>Restore\<close>, \<open>Close\<close> and
    the first half of \<open>Open\<close>, in any order. The specification is the map of the log
    (\<open>log_map\<close>); \<open>shows_since\<close> is the relation between a node's state and it. A node may be
    killed at any moment, with what Badger then keeps as a parameter (\<open>kill_ok\<close>).
  \<^item> \<open>Clients\<close>: the cluster as clients see it. Histories of write calls, linearizable reads and
    scans and local reads on any nodes (\<open>client_run\<close>), over the steps of \<open>Replication\<close>; their
    specification \<open>kv_spec\<close> is one map.
  \<^item> \<open>Node_Life\<close>: the life of one node as a sequence of calls and callbacks; locale \<open>shell_call\<close>,
    what a call leaves alone, interpreted on every method.
  \<^item> \<open>Slices\<close>: the constructors of batch mutations on a heap of arrays, next to a caller that goes
    on writing to the slices it passed; everywhere else byte slices are values.
  \<^item> \<open>Demo\<close>, \<open>Demo_Run\<close>: \<open>examples/three-node/main.go\<close>.
  \<^item> \<open>Samples\<close>: concrete nodes and log entries for the examples. \<open>Write_Props\<close>, \<open>Restore_Props\<close>,
    \<open>Read_Props\<close>, \<open>Node_Props\<close>, \<open>Replication_Props\<close>, \<open>Clients\<close>, \<open>Atomicity\<close>, \<open>Node_Life\<close>, \<open>Crash\<close>,
    \<open>Slices\<close>, \<open>Demo\<close>, \<open>Demo_Props\<close> and this theory hold the properties, each with a closed example where it has hypotheses.

  \<^bold>\<open>How state and effects are modelled.\<close> A node is the record \<open>DB\<close>; operations take it and
  return it. The world of the restore is the file system with a call counter, so that any call
  can be made to fail at any moment. Time is an argument. A call that waits for Raft returns
  the entries its FSM was handed meanwhile; each API call otherwise runs alone, which
  \<open>Atomicity\<close> justifies for the calls on the store. Errors are values of \<open>gerror\<close>; a
  Go pair of a value and an error is a sum.

  \<^bold>\<open>What is shown.\<close> The cluster is linearizable: one map explains every history of its clients,
  with failed writes taking effect at most once, then or later, and local reads no older than
  the node they ask. The calls on the store are atomic. Apply is all or nothing and refines
  \<open>apply_command\<close>; redelivery is harmless, and a snapshot taken at \<open>J\<close> but
  labelled \<open>I\<close> converges after the overlapping replay. In every reachable cluster a
  synced node at the end of the log shows the map of the log and can always get there, an
  acknowledged set is what local reads elsewhere return, a clean restart repairs a node that missed
  entries, a killed node recovers, and an entry that Badger refuses everywhere harms no replica. A successful set, delete or
  batch is in the map, in order, with an expiry at most a second early; it can be read back.
  A mutation keeps the value it was built with.
  Linearizable reads see everything up to their barrier; scans return the least keys and terminate.
  A restore publishes exactly the snapshot; whatever calls fail, one that fails leaves the old
  data or nothing, the latter only after a failed rename in the rollback, and it is unclear only
  after a failed removal or an unclean close; a crash in the swap or the rollback leaves the old
  or the new generation on disk, not always in the live directory. Open leaks nothing on failure
  and is ready on success; every sequence of calls keeps the node well formed; Close runs once and
  for good; closed nodes and followers refuse. The store is never closed under a user, and its lock
  does not deadlock.

  \<^bold>\<open>Loops.\<close> The scan and the polling loops are partial functions in the option monad; that
  they return is proved, under the iterator's contract and under a clock that the sleeps move
  on. Nothing uses fuel.

  \<^bold>\<open>What is not modelled.\<close> Badger, Raft, the Bolt store and the TCP transport are parameters:
  that Raft has one committed log, delivers it in order, answers a barrier after delivering what
  was committed, and hands a restarted node the log from its start or a snapshot is built into
  \<open>Replication\<close> and \<open>Clients\<close>, not proved. That Raft compacts its log and
  starts nodes from a snapshot needs no step of its own: it is a start followed by an
  installation. Nothing is claimed of a node that was killed or failed in an in-place restore,
  or within a call of a swap, or whose swap could not remove a directory or close its store
  cleanly, until it installs a snapshot. A backup may leave out what
  has expired by the clock it is taken at, so the theorems on the cluster speak of readers whose
  clocks are not before those of the backups taken so far (\<open>cl_clock\<close>). The memory model of Go's atomics and the
  printing of the example are left out, and so are the tests. Every declaration of the library
  and of the example has its definition.
\<close>

section \<open>Replicas converge\<close>

text \<open>
  Replicas that apply the same entries hold the same map. Two nodes of any kind (leader
  or follower, with any applied index) that start from the same map and answer nil to every
  entry of the same log end with the same map, although each ran its own Badger
  transactions.
\<close>

theorem replicas_agree:
  assumes "update_ok B1 G1" and "update_ok B2 G2"
    and "node_contents G1 db1 = Some m" and "node_contents G2 db2 = Some m"
    and "fsm_run B1 db1 ls = (db1', rs1)" and "fsm_run B2 db2 ls = (db2', rs2)"
    and "\<forall>r \<in> set (rs1 @ rs2). r = None"
  shows "node_contents G1 db1' = node_contents G2 db2'"
proof -
  from assms(7) have ok: "\<forall>r \<in> set rs1. r = None" "\<forall>r \<in> set rs2. r = None" by auto
  from fsm_run_decodes [OF assms(5) ok(1)] obtain cs where
    cs: "map (\<lambda>l. decodeCommand (log_Data l)) ls = map Inr cs" by blast
  show ?thesis
    using fsm_run_all_ok [OF assms(1,5) ok(1) assms(3) cs] fsm_run_all_ok [OF assms(2,6) ok(2) assms(4) cs]
    by simp
qed

theorem replicas_agree_example:
  "node_contents ref_ghost (fst (fsm_run ref_badger (sample_node [] sample_leader)
       [sample_log 1 (set_command key_k val_v 0), sample_log 2 (delete_command key_k)])) =
   node_contents ref_ghost (fst (fsm_run ref_badger (sample_node [] sample_follower)
       [sample_log 1 (set_command key_k val_v 0), sample_log 2 (delete_command key_k)]))"
  by (rule replicas_agree [OF ref_update_ok ref_update_ok, where m = Map.empty,
      OF _ _ prod.collapse [symmetric] prod.collapse [symmetric]])
    (simp_all add: node_contents_def ref_ghost_def)

text \<open>
  C3: snapshots converge. A node runs the log up to \<open>J\<close>; its snapshot is labelled with an
  earlier index \<open>I\<close>, because \<open>Persist\<close> runs while entries go on being applied. Another node
  restores that snapshot and replays the log from \<open>I + 1\<close>, so that the entries between \<open>I\<close> and
  \<open>J\<close> are applied twice. When both have reached the end of the log, readers see the same on
  both, from the time of the backup on. Here \<open>logs1\<close> are the entries up to \<open>I\<close>, \<open>logs2\<close> those
  up to \<open>J\<close>, \<open>logs3\<close> the rest.
\<close>

theorem snapshot_convergence:
  assumes upd: "update_ok B G" and st: "storage_ok S SG" and bk: "backup_ok S SG"
    and link: "contents G = g_contents SG"
    and start: "node_contents G dbA = Some m"
    and A1: "fsm_run B dbA (logs1 @ logs2) = (dbA1, rs1)"
    and snap: "Persist S t FsmSnapshot dbA1 ce cl = (SinkClosed s, None)"
    and A2: "fsm_run B dbA1 logs3 = (dbA2, rs2)"
    and lay: "staged_layout SG dbC" and C1: "fsm_Restore S F (dbC, w) s = ((dbC1, w1), None)"
    and C2: "fsm_run B dbC1 (logs2 @ logs3) = (dbC2, rs3)"
    and ok: "\<forall>r \<in> set (rs1 @ rs2 @ rs3). r = None"
  shows "\<exists>a c. node_contents G dbA2 = Some a \<and> node_contents G dbC2 = Some c \<and> same_from t a c"
proof -
  from ok have o: "\<forall>r \<in> set rs1. r = None" "\<forall>r \<in> set rs2. r = None" "\<forall>r \<in> set rs3. r = None" by auto
  from fsm_run_decodes [OF A1 o(1)] obtain c1 c2 where
    d1: "map (\<lambda>l. decodeCommand (log_Data l)) logs1 = map Inr c1"
    and d2: "map (\<lambda>l. decodeCommand (log_Data l)) logs2 = map Inr c2"
    by (fastforce simp: append_eq_map_conv)
  from fsm_run_decodes [OF A2 o(2)] obtain c3 where
    d3: "map (\<lambda>l. decodeCommand (log_Data l)) logs3 = map Inr c3" by blast
  let ?J = "fold apply_command (c1 @ c2) m"
  have a1: "node_contents G dbA1 = Some ?J"
    by (rule fsm_run_all_ok [OF upd A1 o(1) start]) (simp add: d1 d2)
  have a2: "node_contents G dbA2 = Some (fold apply_command c3 ?J)"
    by (rule fsm_run_all_ok [OF upd A2 o(2) a1 d3])
  from snap obtain b where b: "db_store dbA1 = Some b" "s_Backup S t b 0 = Inr s"
    by (auto simp: Persist_def split: option.splits sum.splits)
  have "g_contents SG b = ?J" using a1 b(1) link by (simp add: node_contents_def)
  moreover have "same_from t (g_stream SG s) (g_contents SG b)"
    using bk b(2) unfolding backup_ok_def by blast
  ultimately have seen: "same_from t (g_stream SG s) ?J" by simp
  obtain b' where "db_store dbC1 = Some b'" "g_contents SG b' = g_stream SG s"
    using restore_staged_success(1) [OF st lay C1] by blast
  then have "node_contents G dbC1 = Some (g_stream SG s)" by (simp add: node_contents_def link)
  then have c2: "node_contents G dbC2 = Some (fold apply_command (c2 @ c3) (g_stream SG s))"
    by (rule fsm_run_all_ok [OF upd C2 o(3)]) (simp add: d2 d3)
  have "same_from t (fold apply_command (c2 @ c3) (g_stream SG s)) (fold apply_command (c2 @ c3) ?J)"
    by (rule same_from_run [OF seen])
  also have "fold apply_command (c2 @ c3) ?J = fold apply_command c3 ?J"
    using cmds.replay_overlap [of c2 c3 c1 m] by simp
  finally show ?thesis using a2 c2 by (auto intro: same_from_sym)
qed

definition logs_I :: "raft_log list" where "logs_I = [sample_log 1 (set_command key_k val_w 0)]"
definition logs_J :: "raft_log list" where "logs_J = [sample_log 2 (set_command key_k val_v 0)]"
definition logs_K :: "raft_log list" where "logs_K = [sample_log 3 (delete_command key_k)]"

theorem snapshot_convergence_example:
  "\<exists>dbA1 dbA2 s dbC1 dbC2 a c.
     dbA1 = fst (fsm_run ref_badger (sample_node [] sample_leader) (logs_I @ logs_J)) \<and>
     dbA2 = fst (fsm_run ref_badger dbA1 logs_K) \<and>
     Persist ref_storage 0 FsmSnapshot dbA1 None None = (SinkClosed s, None) \<and>
     dbC1 = fst (fst (fsm_Restore ref_storage no_faults (sample_node old_store sample_follower, sample_world) s)) \<and>
     dbC2 = fst (fsm_run ref_badger dbC1 (logs_J @ logs_K)) \<and>
     node_contents ref_ghost dbA2 = Some a \<and> node_contents ref_ghost dbC2 = Some c \<and> same_from 0 a c"
proof -
  let ?A = "sample_node [] sample_leader" and ?C = "sample_node old_store sample_follower"
  let ?s = "[(key_k, val_v, 0), (key_k, val_w, 0)]"
  let ?A1 = "fst (fsm_run ref_badger ?A (logs_I @ logs_J))"
  let ?R = "fsm_Restore ref_storage no_faults (?C, sample_world) ?s"
  have A1: "fsm_run ref_badger ?A (logs_I @ logs_J) = (?A1, [None, None])"
    and A2: "fsm_run ref_badger ?A1 logs_K = (fst (fsm_run ref_badger ?A1 logs_K), [None])"
    and snap: "Persist ref_storage 0 FsmSnapshot ?A1 None None = (SinkClosed ?s, None)"
    by (simp_all add: logs_I_def logs_J_def logs_K_def Persist_def ref_storage_def)
  have "snd ?R = None" by (simp add: restore_eval)
  then have C1: "?R = ((fst (fst ?R), snd (fst ?R)), None)" by (metis prod.collapse)
  have st: "db_store (fst (fst ?R)) = Some (sample_options, ?s)" "\<not> db_closed (fst (fst ?R))"
    by (simp_all add: restore_eval)
  then have C2: "fsm_run ref_badger (fst (fst ?R)) (logs_J @ logs_K) =
      (fst (fsm_run ref_badger (fst (fst ?R)) (logs_J @ logs_K)), [None, None])"
    by (simp add: logs_J_def logs_K_def)
  have link: "contents ref_ghost = g_contents ref_storage_ghost"
    by (simp add: ref_ghost_def ref_storage_ghost_def)
  have m: "node_contents ref_ghost ?A = Some Map.empty" by (simp add: node_contents_def ref_ghost_def)
  from snapshot_convergence [OF ref_update_ok ref_storage_ok ref_backup_ok link m A1 snap A2
      sample_layout C1 C2] snap
  show ?thesis by auto
qed

end
